(* ===== verification/Prelude.thy ===== *)
theory Prelude
  imports Main "HOL-Library.Word" "HOL-Library.Multiset"
begin

text \<open>
  Shared ground of the development: the widths of the C++ integer types, the faults that end
  a run of the program, results that carry them, byte and character conversions, the C++
  standard library's number scanning and printing, and the generic lemmas on lists and words
  that the components use.
\<close>

unbundle bit_operations_syntax

named_theorems fault_simps "unfolding of the fault-carrying combinators"
named_theorems byte_simps "facts on bytes and little-endian words"

type_synonym u8 = "8 word"
type_synonym u16 = "16 word"
type_synonym u32 = "32 word"
type_synonym u64 = "64 word"
type_synonym bytes = "8 word list"

section \<open>Faults and results\<close>

text \<open>
  What ends a run other than a normal return. \<open>Out_Of_Bounds\<close>, \<open>Null_Deref\<close>,
  \<open>Empty_Access\<close> (the front of
  an empty container), \<open>Dangling\<close> (a reference to a variable that is gone), \<open>Div_By_Zero\<close> and \<open>Overflow\<close> (of a signed integer) are undefined
  behaviour of C++; \<open>Thrown\<close>
  is an exception leaving the modelled function; \<open>Terminated\<close> is \<open>std::terminate\<close>
  (an exception leaving a \<open>noexcept\<close> function); \<open>Aborted\<close> is \<open>abort()\<close> and
  \<open>Exited\<close> is \<open>exit(1)\<close>.
\<close>

datatype fault =
    Out_Of_Bounds
  | Null_Deref
  | Empty_Access
  | Dangling
  | Div_By_Zero
  | Overflow
  | Thrown string
  | Terminated
  | Aborted
  | Exited

type_synonym 'a result = "fault + 'a"

fun rbind :: "'a result \<Rightarrow> ('a \<Rightarrow> 'b result) \<Rightarrow> 'b result" where
  "rbind (Inl e) f = Inl e"
| "rbind (Inr x) f = f x"

fun rmap :: "('a \<Rightarrow> 'b) \<Rightarrow> 'a result \<Rightarrow> 'b result" where
  "rmap f (Inl e) = Inl e"
| "rmap f (Inr x) = Inr (f x)"

lemma rbind_eq_Inr_iff [fault_simps]:
  "rbind r f = Inr y \<longleftrightarrow> (\<exists>x. r = Inr x \<and> f x = Inr y)"
  by (cases r) auto

lemma rmap_eq_Inr_iff [fault_simps]:
  "rmap f r = Inr y \<longleftrightarrow> (\<exists>x. r = Inr x \<and> y = f x)"
  by (cases r) auto

lemma rbind_cong [fundef_cong]:
  "r = r' \<Longrightarrow> (\<And>x. r' = Inr x \<Longrightarrow> f x = g x) \<Longrightarrow> rbind r f = rbind r' g"
  by (cases r') auto

lemma rmap_cong [fundef_cong]:
  "r = r' \<Longrightarrow> (\<And>x. r' = Inr x \<Longrightarrow> f x = g x) \<Longrightarrow> rmap f r = rmap g r'"
  by (cases r') auto

lemma rbind_split:
  "P (rbind r f) \<longleftrightarrow> (\<forall>e. r = Inl e \<longrightarrow> P (Inl e)) \<and> (\<forall>x. r = Inr x \<longrightarrow> P (f x))"
  by (cases r) auto

text \<open>An exception that reaches the end of a \<open>noexcept\<close> function.\<close>

definition noexcept :: "'a result \<Rightarrow> 'a result" where
  "noexcept r = (case r of Inl (Thrown _) \<Rightarrow> Inl Terminated | _ \<Rightarrow> r)"

lemma noexcept_eq_Inr_iff [fault_simps]: "noexcept r = Inr x \<longleftrightarrow> r = Inr x"
  by (auto simp: noexcept_def split: sum.splits fault.splits)

text \<open>A pointer that may be null, dereferenced.\<close>

definition deref :: "'a option \<Rightarrow> 'a result" where
  "deref p = (case p of None \<Rightarrow> Inl Null_Deref | Some x \<Rightarrow> Inr x)"

lemma deref_simps [simp]: "deref (Some x) = Inr x" "deref None = Inl Null_Deref"
  by (simp_all add: deref_def)

lemma deref_eq_Inr_iff [fault_simps]: "deref p = Inr x \<longleftrightarrow> p = Some x"
  by (cases p) auto

text \<open>An indexed read, a fault outside the array.\<close>

definition read_at :: "'a list \<Rightarrow> nat \<Rightarrow> 'a result" where
  "read_at xs i = (if i < length xs then Inr (xs ! i) else Inl Out_Of_Bounds)"

lemma read_at_eq_Inr_iff [fault_simps]: "read_at xs i = Inr x \<longleftrightarrow> i < length xs \<and> x = xs ! i"
  by (auto simp: read_at_def)

lemma read_at_in [simp]: "i < length xs \<Longrightarrow> read_at xs i = Inr (xs ! i)"
  by (simp add: read_at_def)

text \<open>The \<open>n\<close> elements from index \<open>i\<close>, a fault when they are not all inside.\<close>

definition read_range :: "'a list \<Rightarrow> nat \<Rightarrow> nat \<Rightarrow> 'a list result" where
  "read_range xs i n =
     (if n = 0 \<or> i + n \<le> length xs then Inr (take n (drop i xs)) else Inl Out_Of_Bounds)"

lemma read_range_in [simp]:
  "i + n \<le> length xs \<Longrightarrow> read_range xs i n = Inr (take n (drop i xs))"
  by (simp add: read_range_def)

lemma read_range_append [simp]:
  "i = length xs \<Longrightarrow> n = length ys \<Longrightarrow> read_range (xs @ ys @ zs) i n = Inr ys"
  by (simp add: read_range_def)

lemma read_range_length: "read_range buf i n = Inr x \<Longrightarrow> length x = n"
  by (auto simp: read_range_def split: if_splits)

section \<open>Characters and bytes\<close>

definition ascii :: "char \<Rightarrow> nat" where
  "ascii c = of_char c"

definition byte_of :: "char \<Rightarrow> u8" where
  "byte_of c = of_nat (ascii c)"

definition char_of_byte :: "u8 \<Rightarrow> char" where
  "char_of_byte b = char_of (unat b)"

lemma ascii_less [simp]: "ascii c < 256"
  by (simp add: ascii_def)

lemma char_of_byte_byte_of [simp]: "char_of_byte (byte_of c) = c"
  by (simp add: char_of_byte_def byte_of_def ascii_def unat_of_nat)

lemma byte_of_char_of_byte [simp]: "byte_of (char_of_byte b) = b"
proof -
  have "unat b < 256" using unsigned_less [of b] by simp
  then show ?thesis by (simp add: char_of_byte_def byte_of_def ascii_def)
qed

lemma byte_of_eq_0_iff: "byte_of c = 0 \<longleftrightarrow> c = CHR 0x00"
proof -
  have "char_of_byte 0 = CHR 0x00" by code_simp
  then show ?thesis using char_of_byte_byte_of [of c] byte_of_char_of_byte [of 0] by metis
qed

definition is_space :: "char \<Rightarrow> bool" where
  "is_space c \<longleftrightarrow> ascii c = 32 \<or> (9 \<le> ascii c \<and> ascii c \<le> 13)"

definition is_upper :: "char \<Rightarrow> bool" where
  "is_upper c \<longleftrightarrow> 65 \<le> ascii c \<and> ascii c \<le> 90"

definition is_lower :: "char \<Rightarrow> bool" where
  "is_lower c \<longleftrightarrow> 97 \<le> ascii c \<and> ascii c \<le> 122"

definition is_digit :: "char \<Rightarrow> bool" where
  "is_digit c \<longleftrightarrow> 48 \<le> ascii c \<and> ascii c \<le> 57"

definition is_punct :: "char \<Rightarrow> bool" where
  "is_punct c \<longleftrightarrow> 33 \<le> ascii c \<and> ascii c \<le> 126 \<and> \<not> is_upper c \<and> \<not> is_lower c \<and> \<not> is_digit c"

section \<open>Numbers in the standard library\<close>

text \<open>The value of a digit character in bases up to 16.\<close>

definition digit_val :: "char \<Rightarrow> nat option" where
  "digit_val c =
     (let k = ascii c in
      if 48 \<le> k \<and> k \<le> 57 then Some (k - 48)
      else if 97 \<le> k \<and> k \<le> 102 then Some (k - 87)
      else if 65 \<le> k \<and> k \<le> 70 then Some (k - 55)
      else None)"

definition is_base_digit :: "nat \<Rightarrow> char \<Rightarrow> bool" where
  "is_base_digit base c = (case digit_val c of None \<Rightarrow> False | Some d \<Rightarrow> d < base)"

text \<open>Horner evaluation of a list of digits, most significant first.\<close>

definition horner :: "nat \<Rightarrow> nat list \<Rightarrow> nat" where
  "horner base ds = foldl (\<lambda>a d. a * base + d) 0 ds"

definition digits_value :: "nat \<Rightarrow> string \<Rightarrow> nat" where
  "digits_value base s = horner base (map (\<lambda>c. the (digit_val c)) s)"

lemma horner_Nil [simp]: "horner b [] = 0"
  by (simp add: horner_def)

lemma horner_snoc [simp]: "horner b (ds @ [d]) = horner b ds * b + d"
  by (simp add: horner_def)

lemma foldl_horner: "foldl (\<lambda>a d. a * b + d) a ds = a * b ^ length ds + horner b ds"
proof (induction ds rule: rev_induct)
  case Nil
  show ?case by simp
next
  case (snoc d ds)
  then show ?case by (simp add: algebra_simps)
qed

lemma horner_Cons: "horner b (d # ds) = d * b ^ length ds + horner b ds"
  using foldl_horner [of b d ds] by (simp add: horner_def)

lemma horner_append: "horner b (xs @ ys) = horner b xs * b ^ length ys + horner b ys"
  using foldl_horner [of b "horner b xs" ys] by (simp add: horner_def)

lemma horner_replicate_0 [simp]: "horner b (replicate n 0 @ ds) = horner b ds"
  by (induction n) (simp_all add: horner_Cons)

lemma horner_less: "(\<And>d. d \<in> set ds \<Longrightarrow> d < b) \<Longrightarrow> horner b ds < b ^ length ds"
proof (induction ds rule: rev_induct)
  case Nil
  show ?case by simp
next
  case (snoc d ds)
  then have "d < b" and "Suc (horner b ds) \<le> b ^ length ds"
    by (auto intro: Suc_leI)
  then have "horner b ds * b + d < Suc (horner b ds) * b" by simp
  also have "\<dots> \<le> b ^ length ds * b"
    using \<open>Suc (horner b ds) \<le> b ^ length ds\<close> by (rule mult_le_mono1)
  finally show ?case by (simp add: mult.commute)
qed

text \<open>
  The scan that \<open>strtoull\<close> and \<open>operator>>\<close> share: white space, an optional sign, in
  base 16 an optional \<open>0x\<close> before a digit, then the longest run of digits.
\<close>

definition skip_space :: "string \<Rightarrow> string" where
  "skip_space s = dropWhile is_space s"

fun scan_sign :: "string \<Rightarrow> bool \<times> string" where
  "scan_sign [] = (False, [])"
| "scan_sign (c # s) =
     (if c = CHR ''-'' then (True, s) else if c = CHR ''+'' then (False, s) else (False, c # s))"

fun skip_0x :: "nat \<Rightarrow> string \<Rightarrow> string" where
  "skip_0x base (a # x # d # s) =
     (if base = 16 \<and> a = CHR ''0'' \<and> (x = CHR ''x'' \<or> x = CHR ''X'') \<and> is_base_digit base d
      then d # s else a # x # d # s)"
| "skip_0x base s = s"

definition scan_number :: "nat \<Rightarrow> string \<Rightarrow> (bool \<times> nat) option" where
  "scan_number base s =
     (let (neg, s') = scan_sign (skip_space s);
          ds = takeWhile (is_base_digit base) (skip_0x base s')
      in if ds = [] then None else Some (neg, digits_value base ds))"

text \<open>
  \<open>stream >> x\<close> for an unsigned \<open>x\<close> of the given width: no digits store 0, a value out of
  range stores the maximum, a minus sign negates modulo the width.
\<close>

definition extract_unsigned :: "nat \<Rightarrow> nat \<Rightarrow> string \<Rightarrow> nat" where
  "extract_unsigned width base s =
     (case scan_number base s of
        None \<Rightarrow> 0
      | Some (neg, v) \<Rightarrow>
          if 2 ^ width \<le> v then 2 ^ width - 1
          else if neg then (2 ^ width - v) mod 2 ^ width else v)"

text \<open>\<open>std::stoul\<close> and \<open>std::stoull\<close>: 64 bits, exceptions instead of stored defaults.\<close>

definition stoull :: "string \<Rightarrow> nat \<Rightarrow> u64 result" where
  "stoull s base =
     (case scan_number base s of
        None \<Rightarrow> Inl (Thrown ''invalid_argument'')
      | Some (neg, v) \<Rightarrow>
          if 2 ^ 64 \<le> v then Inl (Thrown ''out_of_range'')
          else Inr (if neg then - of_nat v else of_nat v))"

text \<open>\<open>strtoull\<close> itself: 0 without digits, the maximum when out of range.\<close>

definition strtoull :: "string \<Rightarrow> nat \<Rightarrow> u64" where
  "strtoull s base =
     (case scan_number base s of
        None \<Rightarrow> 0
      | Some (neg, v) \<Rightarrow>
          if 2 ^ 64 \<le> v then - 1 else if neg then - of_nat v else of_nat v)"

text \<open>
  \<open>strtol\<close> and \<open>strtoul\<close> with base 0, which read the base off a prefix: the sign and the value, or none when
  there are no digits.
\<close>

definition number0 :: "string \<Rightarrow> (bool \<times> nat) option" where
  "number0 s =
     (let (neg, s') = scan_sign (skip_space s);
          (base, s') = (if skip_0x 16 s' \<noteq> s' then (16, skip_0x 16 s')
                        else if take 1 s' = ''0'' then (8, s') else (10, s'));
          ds = takeWhile (is_base_digit base) s'
      in if ds = [] then None else Some (neg, digits_value base ds))"

text \<open>Printing: \<open>std::dec\<close>, \<open>std::hex\<close>, and \<open>setw\<close> with \<open>setfill\<close>.\<close>

definition digit_char :: "nat \<Rightarrow> char" where
  "digit_char d = char_of (if d < 10 then 48 + d else 87 + d)"

function to_digits :: "nat \<Rightarrow> nat \<Rightarrow> nat list" where
  "to_digits b n = (if n < b \<or> b < 2 then [n] else to_digits b (n div b) @ [n mod b])"
  by pat_completeness auto
termination
proof (relation "measure snd")
  fix b n :: nat
  assume "\<not> (n < b \<or> b < 2)"
  then have "n div b < n" by (intro div_less_dividend) auto
  then show "((b, n div b), (b, n)) \<in> measure snd" by simp
qed simp

declare to_digits.simps [simp del]

definition print_nat :: "nat \<Rightarrow> nat \<Rightarrow> string" where
  "print_nat base n = map digit_char (to_digits base n)"

definition print_int :: "int \<Rightarrow> string" where
  "print_int i = (if i < 0 then CHR ''-'' # print_nat 10 (nat (- i)) else print_nat 10 (nat i))"

definition setw :: "nat \<Rightarrow> char \<Rightarrow> string \<Rightarrow> string" where
  "setw w fill s = replicate (w - length s) fill @ s"

lemma to_digits_less: "2 \<le> b \<Longrightarrow> d \<in> set (to_digits b n) \<Longrightarrow> d < b"
proof (induction b n rule: to_digits.induct)
  case (1 b n)
  show ?case
  proof (cases "n < b")
    case True
    then show ?thesis using 1 by (simp add: to_digits.simps [of b n])
  next
    case False
    then show ?thesis using 1 by (auto simp: to_digits.simps [of b n])
  qed
qed

lemma horner_to_digits [simp]: "2 \<le> b \<Longrightarrow> horner b (to_digits b n) = n"
proof (induction b n rule: to_digits.induct)
  case (1 b n)
  then show ?case
    by (cases "n < b") (simp_all add: to_digits.simps [of b n] horner_Cons)
qed

lemma length_to_digits: "2 \<le> b \<Longrightarrow> n < b ^ k \<Longrightarrow> 0 < k \<Longrightarrow> length (to_digits b n) \<le> k"
proof (induction b n arbitrary: k rule: to_digits.induct)
  case (1 b n)
  show ?case
  proof (cases "n < b")
    case True
    then show ?thesis using 1 by (simp add: to_digits.simps [of b n])
  next
    case False
    with 1(2,3,4) obtain k' where k: "k = Suc k'" "0 < k'"
      by (cases k; cases "k - 1") auto
    with 1(2,3) have "n div b < b ^ k'"
      by (simp add: less_mult_imp_div_less mult.commute)
    with 1(1) [of k'] False 1(2) k show ?thesis
      by (simp add: to_digits.simps [of b n])
  qed
qed

lemma digit_val_digit_char [simp]: "d < 16 \<Longrightarrow> digit_val (digit_char d) = Some d"
  by (auto simp: digit_val_def digit_char_def ascii_def Let_def)

lemma is_base_digit_digit_char [simp]: "d < b \<Longrightarrow> b \<le> 16 \<Longrightarrow> is_base_digit b (digit_char d)"
  by (simp add: is_base_digit_def)

lemma digit_char_ascii: "d < 16 \<Longrightarrow> ascii (digit_char d) = (if d < 10 then 48 + d else 87 + d)"
  by (simp add: digit_char_def ascii_def)

lemma digit_char_0: "digit_char 0 = CHR ''0''"
  by code_simp

lemma digits_value_digit_chars:
  "(\<And>d. d \<in> set ds \<Longrightarrow> d < 16) \<Longrightarrow> digits_value b (map digit_char ds) = horner b ds"
  by (simp add: digits_value_def comp_def cong: map_cong)

lemma set_print_nat: "2 \<le> b \<Longrightarrow> b \<le> 16 \<Longrightarrow> c \<in> set (print_nat b n) \<Longrightarrow> is_base_digit b c"
  by (auto simp: print_nat_def dest: to_digits_less)

lemma print_nat_not_Nil [simp]: "print_nat b n \<noteq> []"
  by (simp add: print_nat_def to_digits.simps [of b n])

lemma digits_value_print_nat [simp]:
  "2 \<le> b \<Longrightarrow> b \<le> 16 \<Longrightarrow> digits_value b (print_nat b n) = n"
proof -
  assume b: "2 \<le> b" "b \<le> 16"
  then have "d < 16" if "d \<in> set (to_digits b n)" for d
    using to_digits_less [OF b(1) that] by simp
  then show ?thesis using b by (simp add: print_nat_def digits_value_digit_chars)
qed

lemma is_base_digit_not_space: "is_base_digit b c \<Longrightarrow> \<not> is_space c"
  by (auto simp: is_base_digit_def digit_val_def is_space_def Let_def split: if_splits)

lemma is_base_digit_not_sign: "is_base_digit b c \<Longrightarrow> c \<noteq> CHR ''-'' \<and> c \<noteq> CHR ''+''"
  by (auto simp: is_base_digit_def digit_val_def ascii_def Let_def split: if_splits)

lemma is_base_digit_not_x: "is_base_digit b c \<Longrightarrow> c \<noteq> CHR ''x'' \<and> c \<noteq> CHR ''X''"
  by (auto simp: is_base_digit_def digit_val_def ascii_def Let_def split: if_splits)

text \<open>A non-empty string of digits, followed by none, scans to its value.\<close>

lemma takeWhile_is_base_digit:
  "(\<And>c. c \<in> set ds \<Longrightarrow> P c) \<Longrightarrow> (rest = [] \<or> \<not> P (hd rest)) \<Longrightarrow> takeWhile P (ds @ rest) = ds"
  by (cases rest) (auto simp: takeWhile_append)

lemma skip_0x_digits:
  assumes "\<And>c. c \<in> set ds \<Longrightarrow> is_base_digit b c" and "2 \<le> length ds"
  shows "skip_0x b (ds @ rest) = ds @ rest"
proof -
  obtain a x ds' where ds: "ds = a # x # ds'"
    using assms(2) by (cases ds; cases "tl ds") auto
  then have "x \<noteq> CHR ''x''" "x \<noteq> CHR ''X''"
    using assms(1) [of x] is_base_digit_not_x [of b x] by auto
  then show ?thesis by (cases "ds' @ rest") (auto simp: ds)
qed

lemma scan_number_digits:
  assumes ds: "\<And>c. c \<in> set ds \<Longrightarrow> is_base_digit b c" and "ds \<noteq> []"
    and rest: "rest = [] \<or> \<not> is_base_digit b (hd rest)"
    and x: "rest = [] \<or> (hd rest \<noteq> CHR ''x'' \<and> hd rest \<noteq> CHR ''X'')"
  shows "scan_number b (ds @ rest) = Some (False, digits_value b ds)"
proof -
  obtain c ds' where c: "ds = c # ds'" using \<open>ds \<noteq> []\<close> by (cases ds) auto
  then have "is_base_digit b c" using ds by simp
  then have sp: "skip_space (ds @ rest) = ds @ rest"
    and sg: "scan_sign (ds @ rest) = (False, ds @ rest)"
    using is_base_digit_not_space [of b c] is_base_digit_not_sign [of b c]
    by (simp_all add: c skip_space_def)
  have "skip_0x b (ds @ rest) = ds @ rest"
  proof (cases "2 \<le> length ds")
    case True
    then show ?thesis using ds by (rule skip_0x_digits [rotated])
  next
    case False
    with c have one: "ds = [c]" by (cases ds') auto
    show ?thesis
    proof (cases rest)
      case Nil
      then show ?thesis by (simp add: one)
    next
      case (Cons x r)
      with x show ?thesis by (cases r) (auto simp: one)
    qed
  qed
  then show ?thesis
    using takeWhile_is_base_digit [of ds "is_base_digit b" rest, OF ds rest] sp sg \<open>ds \<noteq> []\<close>
    by (simp add: scan_number_def)
qed

lemma scan_number_print_nat:
  "2 \<le> b \<Longrightarrow> b \<le> 16 \<Longrightarrow> scan_number b (print_nat b n) = Some (False, n)"
  using scan_number_digits [of "print_nat b n" b "[]"] set_print_nat [of b] by simp

text \<open>A number in a fixed width of digits, and the digits a number determines.\<close>

lemma horner_inj:
  assumes "length ds = length es" and "\<And>d. d \<in> set ds \<Longrightarrow> d < b" and "\<And>d. d \<in> set es \<Longrightarrow> d < b"
    and "horner b ds = horner b es"
  shows "ds = es"
  using assms
proof (induction ds arbitrary: es rule: rev_induct)
  case Nil
  then show ?case by simp
next
  case (snoc d ds)
  then obtain e es' where es: "es = es' @ [e]" by (cases es rule: rev_cases) auto
  have de: "d < b" "e < b" using snoc.prems by (auto simp: es)
  have eq: "horner b ds * b + d = horner b es' * b + e" using snoc.prems(4) by (simp add: es)
  then have "(horner b ds * b + d) mod b = (horner b es' * b + e) mod b"
    and "(horner b ds * b + d) div b = (horner b es' * b + e) div b" by simp_all
  then have "d = e" "horner b ds = horner b es'" using de by simp_all
  moreover from this have "ds = es'" using snoc.prems by (intro snoc.IH) (auto simp: es)
  ultimately show ?case by (simp add: es)
qed

lemma setw_print_nat:
  assumes "2 \<le> b" and "n < b ^ k" and "0 < k"
  shows "\<exists>ds. setw k CHR ''0'' (print_nat b n) = map digit_char ds \<and> length ds = k
    \<and> (\<forall>d\<in>set ds. d < b) \<and> horner b ds = n"
proof (intro exI conjI)
  let ?ds = "replicate (k - length (print_nat b n)) 0 @ to_digits b n"
  show "setw k CHR ''0'' (print_nat b n) = map digit_char ?ds"
    by (simp add: setw_def print_nat_def digit_char_0)
  show "length ?ds = k" using length_to_digits [OF assms] by (simp add: print_nat_def)
  show "\<forall>d\<in>set ?ds. d < b" using to_digits_less [OF assms(1)] assms(1) by auto
  show "horner b ?ds = n" using assms(1) by simp
qed

lemma stoull_two_digits:
  assumes "d < 16" and "e < 16"
  shows "stoull [digit_char d, digit_char e] 16 = Inr (of_nat (16 * d + e))"
proof -
  have "scan_number 16 ([digit_char d, digit_char e] @ []) = Some (False, 16 * d + e)"
    using assms by (subst scan_number_digits) (auto simp: digits_value_def horner_Cons)
  then show ?thesis using assms by (simp add: stoull_def)
qed

lemma hex_digit_chars: "map digit_char [0..<16] = ''0123456789abcdef''"
  by code_simp

lemma set_hex_digits: "set ''0123456789abcdef'' = digit_char ` {..<16}"
  unfolding hex_digit_chars [symmetric] by (simp only: set_map set_upt atLeast0LessThan)

lemma hex_chars_digits:
  "set s \<subseteq> digit_char ` {..<b} \<Longrightarrow> \<exists>ds. s = map digit_char ds \<and> (\<forall>d\<in>set ds. d < b)"
proof (induction s)
  case (Cons c s)
  then obtain d ds where "c = digit_char d" "d < b" "s = map digit_char ds" "\<forall>d\<in>set ds. d < b" by auto
  then show ?case by (intro exI [of _ "d # ds"]) simp
qed simp

section \<open>Words\<close>

text \<open>A shifted word and a small one have no bit in common.\<close>

lemma push_bit_or_eq_add [byte_simps]:
  fixes v w :: "'a::len word"
  assumes "unat v < 2 ^ n"
  shows "push_bit n w OR v = push_bit n w + v"
proof -
  have "\<not> bit v i" if "n \<le> i" for i
  proof -
    have "unat v < 2 ^ i" using assms that by (meson less_le_trans one_le_numeral power_increasing)
    then have "\<not> bit (unat v) i" by (simp add: bit_iff_odd)
    then show ?thesis by (auto simp: bit_unsigned_iff dest: bit_imp_le_length)
  qed
  then have "push_bit n w AND v = 0"
    by (auto simp: bit_eq_iff bit_simps)
  then show ?thesis by (simp add: disjunctive_add_eq_or)
qed

lemma unat_or_push_bit:
  fixes v w :: "'a::len word"
  assumes "unat v < 2 ^ n" and "unat v + 2 ^ n * unat w < 2 ^ LENGTH('a)"
  shows "unat (v OR push_bit n w) = unat v + 2 ^ n * unat w"
proof -
  have "v OR push_bit n w = of_nat (unat v + 2 ^ n * unat w)"
    using push_bit_or_eq_add [OF assms(1), of w] by (simp add: or.commute push_bit_eq_mult mult.commute)
  then have "unat (v OR push_bit n w) = (unat v + 2 ^ n * unat w) mod 2 ^ LENGTH('a)"
    by (simp only: unat_of_nat)
  with assms(2) show ?thesis by simp
qed

text \<open>Or of words without common bits, the upper one a multiple of a power of two.\<close>

lemma unat_or_disjoint:
  fixes a v :: "'a::len word"
  assumes "2 ^ n dvd unat a" and "unat v < 2 ^ n"
  shows "unat (a OR v) = unat a + unat v"
proof -
  obtain k where k: "unat a = push_bit n k" using assms(1) by (auto simp: push_bit_eq_mult mult.commute)
  have "\<not> bit (unat v) i" if "n \<le> i" for i
  proof -
    have "(2 :: nat) ^ n \<le> 2 ^ i" using that by (rule power_increasing) simp
    then have "unat v < 2 ^ i" using assms(2) by linarith
    then show ?thesis by (simp add: bit_iff_odd)
  qed
  then have "unat a AND unat v = 0"
    unfolding k by (auto simp: bit_eq_iff bit_and_iff bit_push_bit_iff)
  then show ?thesis by (simp add: unsigned_or_eq disjunctive_add_eq_or)
qed

lemma unat_ucast_u8 [byte_simps]: "LENGTH('a::len) \<ge> 8 \<Longrightarrow> unat (ucast (b :: u8) :: 'a word) = unat b"
proof -
  assume "LENGTH('a) \<ge> 8"
  then have "(2::nat) ^ 8 \<le> 2 ^ LENGTH('a)" by (rule power_increasing) simp
  moreover have "unat b < 2 ^ 8" using unsigned_less [of b] by simp
  ultimately have "unat b < 2 ^ LENGTH('a)" by linarith
  then show ?thesis by (simp add: unsigned_ucast_eq take_bit_nat_eq_self_iff)
qed

lemma unat_u8_less [simp]: "unat (b :: u8) < 256"
  using unsigned_less [of b] by simp

lemma sint_small: "unat (d :: u8) < 128 \<Longrightarrow> sint d = int (unat d)"
proof -
  assume "unat d < 128"
  moreover have u: "int (unat d) = uint d" by simp
  ultimately have "uint d < 128" "- 128 \<le> uint d" by linarith+
  then show ?thesis
    unfolding sint_uint u by (subst signed_take_bit_int_eq_self_iff) simp_all
qed

lemma scast_small: "n < 128 \<Longrightarrow> scast (of_nat n :: u8) = (of_nat n :: u16)"
proof -
  assume n: "n < 128"
  then have u: "unat (of_nat n :: u8) = n" by (simp add: unat_of_nat)
  have s: "sint (of_nat n :: u8) = int n" using sint_small [of "of_nat n"] n by (simp only: u)
  have "scast (of_nat n :: u8) = (of_int (sint (of_nat n :: u8)) :: u16)" by (rule of_int_sint [symmetric])
  also have "\<dots> = of_nat n" unfolding s by (rule of_int_of_nat_eq)
  finally show ?thesis .
qed

lemma ucast_u8_less: "LENGTH('a::len) \<ge> 8 \<Longrightarrow> unat (ucast (b :: u8) :: 'a word) < 2 ^ 8"
  by (simp add: unat_ucast_u8)

section \<open>Little-endian byte strings\<close>

text \<open>The \<open>n\<close> lowest bytes of a word, least significant first, and the word they spell.\<close>

fun le_bytes :: "nat \<Rightarrow> 'a::len word \<Rightarrow> bytes" where
  "le_bytes 0 x = []"
| "le_bytes (Suc n) x = ucast x # le_bytes n (drop_bit 8 x)"

fun le_value :: "bytes \<Rightarrow> 'a::len word" where
  "le_value [] = 0"
| "le_value (b # bs) = ucast b OR push_bit 8 (le_value bs)"

lemma length_le_bytes [simp]: "length (le_bytes n x) = n"
  by (induction n arbitrary: x) auto

lemma nth_le_bytes [byte_simps]: "i < n \<Longrightarrow> le_bytes n x ! i = ucast (drop_bit (8 * i) x)"
proof (induction n arbitrary: x i)
  case (Suc n)
  then show ?case by (cases i) (simp_all add: drop_bit_drop_bit add.commute)
qed simp

lemma le_value_le_bytes: "le_value (le_bytes n x) = take_bit (8 * n) (x :: 'a::len word)"
proof (induction n arbitrary: x)
  case 0
  show ?case by simp
next
  case (Suc n)
  show ?case
    by (rule bit_word_eqI) (auto simp: Suc bit_simps dest: bit_imp_le_length)
qed

lemma le_value_le_bytes_full [byte_simps]:
  "LENGTH('a) \<le> 8 * n \<Longrightarrow> le_value (le_bytes n x) = (x :: 'a::len word)"
  by (simp add: le_value_le_bytes take_bit_word_eq_self)

lemma le_bytes_le_value:
  "8 * length bs \<le> LENGTH('a) \<Longrightarrow> le_bytes (length bs) (le_value bs :: 'a::len word) = bs"
proof (induction bs)
  case Nil
  show ?case by simp
next
  case (Cons b bs)
  have "drop_bit 8 (ucast b OR push_bit 8 (le_value bs :: 'a word)) = take_bit (LENGTH('a) - 8) (le_value bs)"
    by (rule bit_word_eqI) (auto simp: bit_simps dest: bit_imp_le_length)
  moreover have "ucast (ucast b OR push_bit 8 (le_value bs :: 'a word)) = b"
    using Cons.prems by (intro bit_word_eqI) (auto simp: bit_simps)
  moreover have "le_bytes n (take_bit m x) = le_bytes n x" if "8 * n \<le> m" for n m and x :: "'a word"
    using that
  proof (induction n arbitrary: x m)
    case (Suc n)
    have "drop_bit 8 (take_bit m x) = take_bit (m - 8) (drop_bit 8 x)"
      by (rule bit_word_eqI) (auto simp: bit_simps)
    moreover have "ucast (take_bit m x) = (ucast x :: u8)"
      using Suc.prems by (intro bit_word_eqI) (auto simp: bit_simps)
    ultimately show ?case using Suc by simp
  qed simp
  ultimately show ?case using Cons by simp
qed

lemma le_value_4:
  "length b = 4 \<Longrightarrow> le_value b = ucast (b ! 0) OR push_bit 8 (ucast (b ! 1))
     OR push_bit 16 (ucast (b ! 2)) OR push_bit 24 (ucast (b ! 3))"
  by (auto simp: length_Suc_conv numeral_eq_Suc push_bit_or push_bit_push_bit or.assoc)

lemma le_value_8:
  "length b = 8 \<Longrightarrow> le_value b = ucast (b ! 0) OR push_bit 8 (ucast (b ! 1))
     OR push_bit 16 (ucast (b ! 2)) OR push_bit 24 (ucast (b ! 3)) OR push_bit 32 (ucast (b ! 4))
     OR push_bit 40 (ucast (b ! 5)) OR push_bit 48 (ucast (b ! 6)) OR push_bit 56 (ucast (b ! 7))"
  by (auto simp: length_Suc_conv numeral_eq_Suc push_bit_or push_bit_push_bit or.assoc)

section \<open>Lists\<close>

lemma foldl_result_Inl [simp]: "foldl (\<lambda>r x. rbind r (\<lambda>a. f a x)) (Inl e) xs = Inl e"
  by (induction xs) auto

lemma takeWhile_all: "(\<And>x. x \<in> set xs \<Longrightarrow> P x) \<Longrightarrow> takeWhile P xs = xs"
  by (simp add: takeWhile_eq_all_conv)

lemma dropWhile_shorter: "dropWhile P s = x # s' \<Longrightarrow> length s' < length s"
  using length_dropWhile_le [of P s] by simp

section \<open>Numbers with a prefix for their base\<close>

lemma first_digit: "2 \<le> b \<Longrightarrow> 0 < n \<Longrightarrow> hd (to_digits b n) \<noteq> 0"
proof (induction b n rule: to_digits.induct)
  case (1 b n)
  have ne: "to_digits b m \<noteq> []" for m by (simp add: to_digits.simps [of b m])
  show ?case
  proof (cases "n < b")
    case True
    then show ?thesis using 1 by (simp add: to_digits.simps [of b n])
  next
    case False
    then have "0 < n div b" using "1.prems"(1) by (simp add: div_greater_zero_iff)
    then show ?thesis using 1 False ne by (simp add: to_digits.simps [of b n])
  qed
qed

lemma number0_print: "number0 (print_nat 10 n) = Some (False, n)"
proof (cases "n = 0")
  case True
  have "print_nat 10 0 = ''0''" by code_simp
  moreover have "number0 ''0'' = Some (False, 0)" by code_simp
  ultimately show ?thesis using True by simp
next
  case False
  let ?s = "print_nat 10 n"
  have dec: "is_base_digit 10 c" if "c \<in> set ?s" for c using set_print_nat [of 10 c n] that by simp
  have hex: "is_base_digit 16 c" if "c \<in> set ?s" for c
    using dec [OF that] by (auto simp: is_base_digit_def split: option.splits)
  obtain c cs where s: "?s = c # cs" by (cases ?s) auto
  obtain d ds where d: "to_digits 10 n = d # ds"
    using s by (cases "to_digits 10 n") (simp_all add: print_nat_def)
  then have "c = digit_char d" using s by (simp add: print_nat_def)
  moreover have "d < 16" using to_digits_less [of 10 d n] d by simp
  moreover have "d \<noteq> 0" using first_digit [of 10 n] False d by simp
  ultimately have "digit_val c = Some d" "d \<noteq> 0" by simp_all
  moreover have "digit_val (CHR ''0'') = Some 0" by code_simp
  ultimately have c0: "c \<noteq> CHR ''0''" by auto
  have sp: "skip_space ?s = ?s" "scan_sign ?s = (False, ?s)"
    using is_base_digit_not_space [of 10 c] is_base_digit_not_sign [of 10 c] dec [of c]
    by (simp_all add: s skip_space_def)
  have "skip_0x 16 ?s = ?s" using c0 by (cases "(16 :: nat, ?s)" rule: skip_0x.cases) (auto simp: s)
  moreover have "takeWhile (is_base_digit 10) ?s = ?s" using dec by (rule takeWhile_all)
  ultimately show ?thesis using sp c0 by (simp add: number0_def s Let_def) (simp add: s [symmetric])
qed

end
