(* ===== verification/Codec.thy ===== *)
theory Codec
  imports Prelude
begin

text \<open>
  The byte codec of \<^verbatim>\<open>common/codec.cc\<close>, and the contract the message formats rely on.
\<close>

datatype codec_result = Codec_Ok | Codec_Error

definition EncodeU64LE :: "u64 \<Rightarrow> bytes \<Rightarrow> codec_result \<times> bytes" where
  "EncodeU64LE x vec =
     (let vec = vec @ [ucast (x AND 0xff)];
          vec = vec @ [ucast (drop_bit 8 (x AND 0xff00))];
          vec = vec @ [ucast (drop_bit 16 (x AND 0xff0000))];
          vec = vec @ [ucast (drop_bit 24 (x AND 0xff000000))];
          vec = vec @ [ucast (drop_bit 32 (x AND 0xff00000000))];
          vec = vec @ [ucast (drop_bit 40 (x AND 0xff0000000000))];
          vec = vec @ [ucast (drop_bit 48 (x AND 0xff000000000000))];
          vec = vec @ [ucast (drop_bit 56 (x AND 0xff00000000000000))]
      in (Codec_Ok, vec))"

text \<open>
  The decoder reads eight bytes from a cursor: here a buffer and an index, a fault when the
  buffer ends before the eighth byte.
\<close>

definition DecodeU64LE :: "bytes \<Rightarrow> nat \<Rightarrow> (codec_result \<times> u64) result" where
  "DecodeU64LE buf cursor =
     rbind (read_range buf cursor 8) (\<lambda>b.
       Inr (Codec_Ok,
            ucast (b ! 0) OR push_bit 8 (ucast (b ! 1)) OR push_bit 16 (ucast (b ! 2))
            OR push_bit 24 (ucast (b ! 3)) OR push_bit 32 (ucast (b ! 4))
            OR push_bit 40 (ucast (b ! 5)) OR push_bit 48 (ucast (b ! 6))
            OR push_bit 56 (ucast (b ! 7))))"

section \<open>What the codec computes\<close>

lemma ucast_byte_mask:
  "ucast (drop_bit n (x AND push_bit n (mask 8))) = (ucast (drop_bit n (x :: u64)) :: u8)"
  by (rule bit_word_eqI) (auto simp: bit_simps dest: bit_imp_le_length)

lemma EncodeU64LE_eq [byte_simps]: "EncodeU64LE x vec = (Codec_Ok, vec @ le_bytes 8 x)"
  using ucast_byte_mask [of 0 x] ucast_byte_mask [of 8 x] ucast_byte_mask [of 16 x]
    ucast_byte_mask [of 24 x] ucast_byte_mask [of 32 x] ucast_byte_mask [of 40 x]
    ucast_byte_mask [of 48 x] ucast_byte_mask [of 56 x]
  by (simp add: EncodeU64LE_def mask_eq_exp_minus_1 push_bit_eq_mult numeral_eq_Suc drop_bit_drop_bit)

lemma DecodeU64LE_eq [byte_simps]:
  "DecodeU64LE buf i =
     rbind (read_range buf i 8) (\<lambda>b. Inr (Codec_Ok, le_value b))"
  by (auto simp: DecodeU64LE_def read_range_def le_value_8)

section \<open>The contract of a 64-bit byte layout\<close>

text \<open>
  What the file and packet formats of the calendar need of a layout of 64-bit numbers: a fixed
  width of eight bytes and decoding that inverts encoding in both directions. A record is a
  number, the size of a payload and the payload itself.
\<close>

definition record_bytes :: "(u64 \<Rightarrow> bytes) \<Rightarrow> u64 \<times> bytes \<Rightarrow> bytes" where
  "record_bytes enc r = enc (fst r) @ enc (of_nat (length (snd r))) @ snd r"

locale u64_layout =
  fixes enc :: "u64 \<Rightarrow> bytes"
    and dec :: "bytes \<Rightarrow> u64"
  assumes enc_length: "length (enc x) = 8"
    and dec_enc: "dec (enc x) = x"
    and enc_dec: "length b = 8 \<Longrightarrow> enc (dec b) = b"
begin

lemma enc_inject: "enc x = enc y \<longleftrightarrow> x = y"
  using dec_enc by metis

lemma enc_append_inject: "enc x @ xs = enc y @ ys \<longleftrightarrow> x = y \<and> xs = ys"
  by (auto simp: enc_inject append_eq_append_conv enc_length)

text \<open>Records are self-delimiting: no record is a prefix of another one.\<close>

lemma record_bytes_append_inject:
  assumes "length (snd r) < 2 ^ 64" and "length (snd r') < 2 ^ 64"
  shows "record_bytes enc r @ xs = record_bytes enc r' @ ys \<longleftrightarrow> r = r' \<and> xs = ys"
proof
  assume eq: "record_bytes enc r @ xs = record_bytes enc r' @ ys"
  then have fst: "fst r = fst r'" and "(of_nat (length (snd r)) :: u64) = of_nat (length (snd r'))"
    and rest: "snd r @ xs = snd r' @ ys"
    by (auto simp: record_bytes_def enc_append_inject)
  then have "unat (of_nat (length (snd r)) :: u64) = unat (of_nat (length (snd r')) :: u64)"
    by simp
  with assms have "length (snd r) = length (snd r')"
    by (simp add: unat_of_nat)
  with rest fst show "r = r' \<and> xs = ys" by (auto simp: prod_eq_iff)
qed simp

lemma length_record_bytes: "length (record_bytes enc r) = 16 + length (snd r)"
  by (simp add: record_bytes_def enc_length)

lemma record_bytes_not_Nil [simp]: "record_bytes enc r \<noteq> []"
  using length_record_bytes [of r] by (metis add_is_0 list.size(3) zero_neq_numeral)

text \<open>So the list of the records in a file can be read off its bytes in one way only.\<close>

lemma records_unique:
  assumes "\<forall>r\<in>set rs. length (snd r) < 2 ^ 64" and "\<forall>r\<in>set rs'. length (snd r) < 2 ^ 64"
    and "concat (map (record_bytes enc) rs) = concat (map (record_bytes enc) rs')"
  shows "rs = rs'"
  using assms
proof (induction rs arbitrary: rs')
  case Nil
  then show ?case by (cases rs') auto
next
  case (Cons r rs)
  then obtain r' rs'' where rs': "rs' = r' # rs''" by (cases rs') auto
  then have "r = r' \<and> concat (map (record_bytes enc) rs) = concat (map (record_bytes enc) rs'')"
    using Cons.prems record_bytes_append_inject [of r r'] by simp
  then show ?case using Cons.IH [of rs''] Cons.prems rs' by simp
qed

end

text \<open>A layout with a reader that checks nothing but the end of the buffer it reads from.\<close>

locale u64_reader = u64_layout +
  fixes rd :: "bytes \<Rightarrow> nat \<Rightarrow> u64 result"
  assumes rd_inside: "i + 8 \<le> length buf \<Longrightarrow> rd buf i = Inr (dec (take 8 (drop i buf)))"
    and rd_outside: "length buf < i + 8 \<Longrightarrow> rd buf i = Inl Out_Of_Bounds"
begin

lemma rd_enc: "i = length pre \<Longrightarrow> rd (pre @ enc x @ rest) i = Inr x"
  by (simp add: rd_inside enc_length dec_enc)

lemma rd_eq_Inr_iff: "rd buf i = Inr x \<longleftrightarrow> i + 8 \<le> length buf \<and> take 8 (drop i buf) = enc x"
proof (cases "i + 8 \<le> length buf")
  case True
  then show ?thesis by (auto simp: rd_inside enc_dec dec_enc)
next
  case False
  then show ?thesis by (simp add: rd_outside)
qed

lemma rd_record:
  "i = length pre \<Longrightarrow> rd (pre @ record_bytes enc (t, m) @ rest) i = Inr t"
  "i = length pre + 8 \<Longrightarrow> rd (pre @ record_bytes enc (t, m) @ rest) i = Inr (of_nat (length m))"
  using rd_enc [of i pre t "enc (of_nat (length m)) @ m @ rest"]
    rd_enc [of i "pre @ enc t" "of_nat (length m)" "m @ rest"]
  by (simp_all add: record_bytes_def enc_length)

end

interpretation codec: u64_reader
  where enc = "\<lambda>x. snd (EncodeU64LE x [])"
    and dec = le_value
    and rd = "\<lambda>buf i. rmap snd (DecodeU64LE buf i)"
proof unfold_locales
  fix b :: bytes
  assume "length b = 8"
  then show "snd (EncodeU64LE (le_value b) []) = b"
    using le_bytes_le_value [of b, where 'a = 64] by (simp add: byte_simps)
qed (simp_all add: byte_simps read_range_def)

text \<open>C38: what \<open>EncodeU64LE\<close> appends to a buffer is read back by \<open>DecodeU64LE\<close> at the position where
  it was appended, whatever bytes surround it; encoding keeps the bytes already in the buffer; and
  a decode succeeds exactly where eight bytes are left, which are then the encoding of the result.\<close>

theorem codec_roundtrip:
  "(let vec' = snd (EncodeU64LE x vec) in
      DecodeU64LE (vec' @ rest) (length vec) = Inr (Codec_Ok, x)
      \<and> take (length vec) vec' = vec \<and> length vec' = length vec + 8)
   \<and> (DecodeU64LE buf i = Inr (r, y) \<longleftrightarrow>
        r = Codec_Ok \<and> i + 8 \<le> length buf \<and> take 8 (drop i buf) = snd (EncodeU64LE y []))"
proof -
  have "DecodeU64LE buf i = Inr (r, y) \<longleftrightarrow> r = Codec_Ok \<and> rmap snd (DecodeU64LE buf i) = Inr y"
    by (cases "DecodeU64LE buf i") (auto simp: byte_simps fault_simps)
  then show ?thesis by (auto simp: codec.rd_eq_Inr_iff) (simp_all add: byte_simps)
qed

end
