(* ===== verification/Psycal.thy ===== *)
theory Psycal
  imports Codec
begin

text \<open>
  The calendar's events and their two serial formats: the datagram of \<^verbatim>\<open>psycal/message.cc\<close> and
  the files of \<^verbatim>\<open>psycal/dump.cc\<close>. The time zone conversions \<open>mktime\<close> and \<open>localtime_r\<close>
  depend on the host and are arguments of the definitions that call them.
\<close>

section \<open>Events\<close>

record tm =
  tm_sec :: int
  tm_min :: int
  tm_hour :: int
  tm_mday :: int
  tm_mon :: int
  tm_year :: int
  tm_wday :: int
  tm_yday :: int
  tm_isdst :: int

record event =
  ev_tm :: tm
  ev_message :: bytes

definition GetUnixTimestamp :: "(tm \<Rightarrow> int) \<Rightarrow> event \<Rightarrow> u64" where
  "GetUnixTimestamp mktime e =
     (let tm_2 = ev_tm e; event_time = mktime tm_2 in word_of_int event_time)"

definition GetEncodedMessage :: "event \<Rightarrow> bytes" where
  "GetEncodedMessage e =
     (let sz = length (ev_message e);
          (_, ret) = EncodeU64LE (of_nat sz) []
      in ret @ ev_message e)"

definition SoonerCmp :: "(tm \<Rightarrow> int) \<Rightarrow> event \<Rightarrow> event \<Rightarrow> bool" where
  "SoonerCmp mktime a b \<longleftrightarrow> GetUnixTimestamp mktime a > GetUnixTimestamp mktime b"

section \<open>Datagrams\<close>

definition IntoBuffer :: "(tm \<Rightarrow> int) \<Rightarrow> event list \<Rightarrow> bytes" where
  "IntoBuffer mktime events =
     foldl (\<lambda>ret e.
       let (_, ret) = EncodeU64LE (GetUnixTimestamp mktime e) ret;
           message = GetEncodedMessage e
       in ret @ message) [] events"

text \<open>The argument \<open>sz\<close> (\<open>size\<close>) is not looked at: the copy runs as far as the size field says.\<close>

definition FromBuffer :: "(int \<Rightarrow> tm) \<Rightarrow> bytes \<Rightarrow> nat \<Rightarrow> event list result" where
  "FromBuffer localtime buffer sz =
     rbind (DecodeU64LE buffer 0) (\<lambda>(r1, timestamp_u64).
       if r1 \<noteq> Codec_Ok then Inl (Thrown ''error decoding timestamp'')
       else rbind (DecodeU64LE buffer 8) (\<lambda>(r2, message_size_u64).
         if r2 \<noteq> Codec_Ok then Inl (Thrown ''error decoding message size'')
         else rbind (read_range buffer 16 (unat message_size_u64)) (\<lambda>message.
           let timestamp = sint timestamp_u64; result = localtime timestamp
           in Inr [\<lparr>ev_tm = result, ev_message = message\<rparr>])))"

section \<open>Files\<close>

text \<open>
  Numbers go to the files as the eight bytes they have in memory, on a little-endian host.
\<close>

definition native_u64 :: "u64 \<Rightarrow> bytes" where
  "native_u64 x = le_bytes 8 x"

definition native_of :: "bytes \<Rightarrow> u64" where
  "native_of b = le_value b"

definition dump_event :: "(tm \<Rightarrow> int) \<Rightarrow> event \<Rightarrow> bytes" where
  "dump_event mktime e =
     native_u64 (GetUnixTimestamp mktime e)
     @ native_u64 (of_nat (length (ev_message e))) @ ev_message e"

text \<open>
  What becomes of the writes to an \<open>ofstream\<close>, whose state nobody looks at: it was not opened, only the first bytes
  reach the file, or all of them do.
\<close>

datatype write_answer = Refused | Cut nat | Written

fun reaches :: "write_answer \<Rightarrow> bytes \<Rightarrow> bytes" where
  "reaches Refused data = []"
| "reaches (Cut n) data = take n data"
| "reaches Written data = data"

text \<open>\<open>SaveOld\<close> appends to the history file; the file is an argument and a result.\<close>

definition SaveOld :: "(tm \<Rightarrow> int) \<Rightarrow> write_answer \<Rightarrow> event list \<Rightarrow> bytes \<Rightarrow> bytes" where
  "SaveOld mktime answer olds out_file =
     out_file @ reaches answer (foldl (\<lambda>out el. out @ dump_event mktime el) [] olds)"

text \<open>
  \<open>std::string(buffer)\<close> of a character pointer: everything up to the first zero byte found in
  memory. What lies behind the bytes that were read is \<open>heap\<close>; without a zero byte in it the read runs out of the
  memory there is, which is a fault. Behind the buffer itself the language promises nothing: that is the empty \<open>heap\<close>,
  for which a message without a zero byte is always a fault.
\<close>

definition c_string :: "bytes \<Rightarrow> bytes result" where
  "c_string memory =
     (if 0 \<in> set memory then Inr (takeWhile (\<lambda>b. b \<noteq> 0) memory) else Inl Out_Of_Bounds)"

text \<open>
  One pass of the loop of \<open>ReadEventsFrom\<close> on the unread bytes. A read that meets the end of
  the file stores what there is and makes every later read do nothing. The allocation of the
  buffer succeeds for the sizes in \<open>new_ok\<close>; \<open>heap k\<close> is the memory behind the bytes read
  into the \<open>k\<close>-th buffer. The result holds the event, the unread bytes and whether the stream is
  still good.
\<close>

definition read_event ::
  "(int \<Rightarrow> tm) \<Rightarrow> (u64 \<Rightarrow> bool) \<Rightarrow> bytes \<Rightarrow> bytes \<Rightarrow> (event \<times> bytes \<times> bool) result"
where
  "read_event localtime new_ok heap is =
     (let timestamp_u64 = native_of (take 8 is);
          good1 = (8 \<le> length is);
          is1 = drop 8 is;
          message_size = (if good1 then native_of (take 8 is1) else 0);
          good2 = (good1 \<and> 8 \<le> length is1);
          is2 = drop 8 is1
      in if \<not> new_ok message_size then Inl (Thrown ''bad_alloc'')
         else
           let got = (if good2 then take (unat message_size) is2 else []);
               good3 = (good2 \<and> unat message_size \<le> length is2)
           in rbind (c_string (got @ heap)) (\<lambda>message.
                let timestamp = sint timestamp_u64; result = localtime timestamp
                in Inr (\<lparr>ev_tm = result, ev_message = message\<rparr>,
                        drop (unat message_size) is2, good3)))"

lemma read_event_shorter:
  "read_event lt new_ok heap is = Inr (e, is', good) \<Longrightarrow> is \<noteq> [] \<Longrightarrow> length is' < length is"
  by (auto simp: read_event_def Let_def fault_simps split: if_splits)

function ReadEventsFrom ::
  "(int \<Rightarrow> tm) \<Rightarrow> (u64 \<Rightarrow> bool) \<Rightarrow> (nat \<Rightarrow> bytes) \<Rightarrow> nat \<Rightarrow> bytes \<Rightarrow> event list result"
where
  "ReadEventsFrom localtime new_ok heap k is =
     (if is = [] then Inr []
      else rbind (read_event localtime new_ok (heap k) is) (\<lambda>(e, is', good).
             if good then rmap (Cons e) (ReadEventsFrom localtime new_ok heap (Suc k) is')
             else Inr [e]))"
  by pat_completeness auto
termination
  by (relation "measure (\<lambda>(_, _, _, _, is). length is)") (auto dest: read_event_shorter)

declare ReadEventsFrom.simps [simp del]

section \<open>The layouts meet their contract\<close>

interpretation native: u64_layout native_u64 native_of
proof unfold_locales
  fix b :: bytes
  assume "length b = 8"
  then show "native_u64 (native_of b) = b"
    using le_bytes_le_value [of b, where 'a = 64] by (simp add: native_u64_def native_of_def)
qed (simp_all add: native_u64_def native_of_def byte_simps)

definition event_record :: "(tm \<Rightarrow> int) \<Rightarrow> event \<Rightarrow> u64 \<times> bytes" where
  "event_record mktime e = (GetUnixTimestamp mktime e, ev_message e)"

lemma snd_event_record [simp]: "snd (event_record mk e) = ev_message e"
  by (simp add: event_record_def)

lemma IntoBuffer_records:
  "IntoBuffer mk events =
     concat (map (record_bytes (\<lambda>x. snd (EncodeU64LE x [])) \<circ> event_record mk) events)"
proof -
  have "foldl (\<lambda>ret e. let (_, ret) = EncodeU64LE (GetUnixTimestamp mk e) ret;
           message = GetEncodedMessage e in ret @ message) ret events =
     ret @ concat (map (record_bytes (\<lambda>x. snd (EncodeU64LE x [])) \<circ> event_record mk) events)" for ret
    by (induction events arbitrary: ret)
      (simp_all add: byte_simps GetEncodedMessage_def event_record_def record_bytes_def)
  then show ?thesis by (simp add: IntoBuffer_def)
qed

lemma dump_event_record: "dump_event mk e = record_bytes native_u64 (event_record mk e)"
  by (simp add: dump_event_def record_bytes_def event_record_def)

lemma foldl_dumps: "foldl (\<lambda>out el. out @ dump_event mk el) out olds = out @ concat (map (dump_event mk) olds)"
  by (induction olds arbitrary: out) simp_all

lemma SaveOld_dumps: "SaveOld mk a olds out = out @ reaches a (concat (map (dump_event mk) olds))"
  by (simp add: SaveOld_def foldl_dumps)

lemma length_dump_event [simp]: "length (dump_event mk e) = 16 + length (ev_message e)"
  by (simp add: dump_event_record native.length_record_bytes)

section \<open>Reading back\<close>

definition fits :: "event \<Rightarrow> bool" where
  "fits e \<longleftrightarrow> length (ev_message e) < 2 ^ 64"

lemma unat_message_size: "fits e \<Longrightarrow> unat (of_nat (length (ev_message e)) :: u64) = length (ev_message e)"
  by (simp add: fits_def unat_of_nat)

lemma DecodeU64LE_Ok: "DecodeU64LE buf i = rmap (Pair Codec_Ok) (rmap snd (DecodeU64LE buf i))"
  by (cases "read_range buf i 8") (simp_all add: byte_simps)

lemma FromBuffer_record:
  assumes "fits e"
  shows "FromBuffer lt (record_bytes (\<lambda>x. snd (EncodeU64LE x [])) (event_record mk e) @ rest) n =
    Inr [\<lparr>ev_tm = lt (sint (GetUnixTimestamp mk e)), ev_message = ev_message e\<rparr>]"
proof -
  let ?enc = "\<lambda>x. snd (EncodeU64LE x [])"
  let ?t = "GetUnixTimestamp mk e" and ?m = "ev_message e"
  let ?buf = "record_bytes ?enc (?t, ?m) @ rest"
  have d0: "DecodeU64LE ?buf 0 = Inr (Codec_Ok, ?t)"
    using codec.rd_record(1) [of 0 "[]" ?t ?m rest] by (subst DecodeU64LE_Ok) simp
  have d8: "DecodeU64LE ?buf 8 = Inr (Codec_Ok, of_nat (length ?m))"
    using codec.rd_record(2) [of 8 "[]" ?t ?m rest] by (subst DecodeU64LE_Ok) simp
  have "read_range ?buf 16 (length ?m) = Inr ?m"
    using read_range_append [of 16 "?enc ?t @ ?enc (of_nat (length ?m))" "length ?m" ?m rest]
    by (simp add: record_bytes_def codec.enc_length)
  then show ?thesis
    using d0 d8 unat_message_size [OF assms] by (simp add: FromBuffer_def event_record_def)
qed

section \<open>A concrete clock for the witnesses\<close>

text \<open>A host in which \<open>tm_sec\<close> alone counts the seconds: \<open>mktime\<close> inverts \<open>localtime_r\<close>.\<close>

definition sample_localtime :: "int \<Rightarrow> tm" where
  "sample_localtime t = \<lparr>tm_sec = t, tm_min = 0, tm_hour = 0, tm_mday = 1, tm_mon = 0, tm_year = 70,
     tm_wday = 4, tm_yday = 0, tm_isdst = 0\<rparr>"

definition sample_mktime :: "tm \<Rightarrow> int" where
  "sample_mktime t = tm_sec t"

definition sample_event :: "int \<Rightarrow> bytes \<Rightarrow> event" where
  "sample_event t m = \<lparr>ev_tm = sample_localtime t, ev_message = m\<rparr>"

lemma sample_timestamp: "GetUnixTimestamp sample_mktime (sample_event t m) = word_of_int t"
  by (simp add: GetUnixTimestamp_def sample_event_def sample_mktime_def sample_localtime_def)

lemma sample_message: "ev_message (sample_event t m) = m"
  by (simp add: sample_event_def)

lemma sample_event_inject: "sample_event t m = sample_event t' m' \<longleftrightarrow> t = t' \<and> m = m'"
  by (auto simp: sample_event_def sample_localtime_def)

lemma fits_sample_event: "length m < 100 \<Longrightarrow> fits (sample_event t m)"
  by (simp add: fits_def sample_message)

text \<open>a datagram carries its first event: whatever follows the event in the buffer, the receiver
  rebuilds the event's message and hands \<open>localtime_r\<close> the event's timestamp; where \<open>mktime\<close> inverts
  \<open>localtime_r\<close> on that timestamp, the rebuilt event has the timestamp of the one sent.\<close>

theorem message_roundtrip:
  assumes "fits e" and "mktime (localtime (sint (GetUnixTimestamp mktime e))) = sint (GetUnixTimestamp mktime e)"
  shows "\<exists>e'. FromBuffer localtime (IntoBuffer mktime (e # es) @ rest) n = Inr [e']
    \<and> ev_message e' = ev_message e \<and> GetUnixTimestamp mktime e' = GetUnixTimestamp mktime e
    \<and> ev_tm e' = localtime (sint (GetUnixTimestamp mktime e))"
  using assms by (simp add: IntoBuffer_records FromBuffer_record GetUnixTimestamp_def [of mktime "\<lparr>ev_tm = _, ev_message = _\<rparr>"])

theorem message_roundtrip_witness:
  "\<exists>e'. FromBuffer sample_localtime
      (IntoBuffer sample_mktime [sample_event 1609502400 [104, 105]] @ [0, 0]) 26 = Inr [e']
    \<and> ev_message e' = [104, 105] \<and> GetUnixTimestamp sample_mktime e' = 1609502400"
  using message_roundtrip [of "sample_event 1609502400 [104, 105]" sample_mktime sample_localtime "[]" "[0, 0]" 26]
  by (simp add: sample_timestamp sample_message fits_sample_event)
    (auto simp: sample_mktime_def sample_localtime_def)

text \<open>
  The files. The buffer a message is read into has no terminating zero, so a message without one comes back with the
  memory behind the buffer appended, up to the first zero byte there; a message with a zero byte comes back cut.
\<close>

definition read_back :: "(int \<Rightarrow> tm) \<Rightarrow> (tm \<Rightarrow> int) \<Rightarrow> (nat \<Rightarrow> bytes) \<Rightarrow> nat \<Rightarrow> event \<Rightarrow> event" where
  "read_back localtime mktime heap k e =
     \<lparr>ev_tm = localtime (sint (GetUnixTimestamp mktime e)),
      ev_message = takeWhile (\<lambda>b. b \<noteq> 0) (ev_message e @ heap k)\<rparr>"

text \<open>The reads that find no zero byte.\<close>

definition runs_out :: "(nat \<Rightarrow> bytes) \<Rightarrow> nat \<Rightarrow> event list \<Rightarrow> bool" where
  "runs_out heap k evs \<longleftrightarrow> (\<exists>i<length evs. 0 \<notin> set (ev_message (evs ! i) @ heap (k + i)))"

lemma runs_out_simps [simp]:
  "\<not> runs_out heap k []"
  "runs_out heap k (e # evs) \<longleftrightarrow> 0 \<notin> set (ev_message e @ heap k) \<or> runs_out heap (Suc k) evs"
  by (auto simp: runs_out_def less_Suc_eq_0_disj)

lemma read_event_dump:
  assumes "fits e" "new_ok (of_nat (length (ev_message e)))"
  shows "read_event lt new_ok (heap k) (dump_event mk e @ rest) =
    (if 0 \<in> set (ev_message e @ heap k) then Inr (read_back lt mk heap k e, rest, True) else Inl Out_Of_Bounds)"
  using assms
  by (auto simp: read_event_def dump_event_def native.enc_length native.dec_enc unat_message_size c_string_def read_back_def)

lemma ReadEventsFrom_dump:
  assumes "\<And>e. e \<in> set evs \<Longrightarrow> fits e \<and> new_ok (of_nat (length (ev_message e)))"
  shows "ReadEventsFrom lt new_ok heap k (concat (map (dump_event mk) evs)) =
    (if runs_out heap k evs then Inl Out_Of_Bounds
     else Inr (map (\<lambda>(k, e). read_back lt mk heap k e) (enumerate k evs)))"
  using assms
proof (induction evs arbitrary: k)
  case Nil
  then show ?case by (simp add: ReadEventsFrom.simps [of _ _ _ _ "[]"])
next
  case (Cons e evs)
  let ?is = "dump_event mk e @ concat (map (dump_event mk) evs)"
  have "?is \<noteq> []" using length_dump_event [of mk e] by (metis append_is_Nil_conv add_is_0 list.size(3) zero_neq_numeral)
  moreover have "read_event lt new_ok (heap k) ?is =
      (if 0 \<in> set (ev_message e @ heap k)
       then Inr (read_back lt mk heap k e, concat (map (dump_event mk) evs), True) else Inl Out_Of_Bounds)"
    using Cons.prems [of e] by (intro read_event_dump) simp_all
  ultimately show ?case
    using Cons.IH [of "Suc k"] Cons.prems by (auto simp: ReadEventsFrom.simps [of _ _ _ _ "?is"])
qed

text \<open>a history file read back gives one event per saved event, in order, with the saved timestamp
  handed to \<open>localtime_r\<close> and the saved message, followed by whatever the memory behind the read
  buffer holds, up to the first zero byte; without one the read is a fault (messages fit the allocator).\<close>

theorem dump_readback:
  assumes "\<forall>e\<in>set evs. fits e \<and> new_ok (of_nat (length (ev_message e)))"
  shows "ReadEventsFrom localtime new_ok heap 0 (SaveOld mktime Written evs []) =
    (if runs_out heap 0 evs then Inl Out_Of_Bounds
     else Inr (map (\<lambda>(k, e). read_back localtime mktime heap k e) (enumerate 0 evs)))"
  using assms by (simp add: SaveOld_dumps ReadEventsFrom_dump)

theorem dump_readback_witness:
  "ReadEventsFrom sample_localtime (\<lambda>n. n < 100) (\<lambda>k. [0]) 0
      (SaveOld sample_mktime Written [sample_event 5 [104], sample_event 7 []] []) =
    Inr [read_back sample_localtime sample_mktime (\<lambda>k. [0]) 0 (sample_event 5 [104]),
         read_back sample_localtime sample_mktime (\<lambda>k. [0]) 1 (sample_event 7 [])]"
  using dump_readback [of "[sample_event 5 [104], sample_event 7 []]" "\<lambda>n. n < 100"
      sample_localtime "\<lambda>k. [0]" sample_mktime]
  by (simp add: sample_message fits_sample_event)

text \<open>The defect this makes visible: the calendar's file format does not round-trip. One event with
  an empty message, saved and read back where the memory behind the buffer starts with a byte
  other than zero, comes back with a message that was never saved.\<close>

lemma dump_reads_past_buffer:
  assumes "b \<noteq> 0" and "new_ok 0" and "\<And>k. heap k = [b, 0]"
  shows "ReadEventsFrom localtime new_ok heap 0 (SaveOld mktime Written [\<lparr>ev_tm = t, ev_message = []\<rparr>] []) =
    Inr [\<lparr>ev_tm = localtime (sint (GetUnixTimestamp mktime \<lparr>ev_tm = t, ev_message = []\<rparr>)), ev_message = [b]\<rparr>]"
proof -
  let ?e = "\<lparr>ev_tm = t, ev_message = []\<rparr>"
  have "ReadEventsFrom localtime new_ok heap 0 (concat (map (dump_event mktime) [?e])) =
      (if runs_out heap 0 [?e] then Inl Out_Of_Bounds
       else Inr (map (\<lambda>(k, e). read_back localtime mktime heap k e) (enumerate 0 [?e])))"
    using assms by (intro ReadEventsFrom_dump) (auto simp: fits_def)
  then show ?thesis using assms by (simp add: SaveOld_dumps read_back_def)
qed

text \<open>With nothing readable behind the buffer, every message without a zero byte is a fault.\<close>

lemma dump_strict:
  assumes "fits e" and "new_ok (of_nat (length (ev_message e)))" and "0 \<notin> set (ev_message e)"
  shows "ReadEventsFrom localtime new_ok (\<lambda>_. []) 0 (SaveOld mktime Written [e] []) = Inl Out_Of_Bounds"
  using ReadEventsFrom_dump [of "[e]" new_ok localtime "\<lambda>_. []" 0 mktime] assms by (simp add: SaveOld_dumps)

end
