(* ===== verification/Net.thy ===== *)
theory Net
  imports Prelude
begin

text \<open>
  The UDP library of \<^verbatim>\<open>net/udp.cc\<close> and the program \<^verbatim>\<open>misc/udp.cc\<close> that sends a message with it. The answers of
  the system are arguments: descriptors, the value \<open>sendto\<close> returns, and what each read gives.
  \<open>counting_handler\<close> is the contract of a handler that a listener calls.
\<close>

definition kMaxUDPSize :: nat where
  "kMaxUDPSize = 508"

section \<open>Client\<close>

text \<open>The address of the destination is the host and the port; the member \<open>buffer_\<close> is never used.\<close>

record UDPClient =
  sock_fd :: int
  host :: string
  port :: u16
  last_error :: "int option"

definition mk_client :: "int \<Rightarrow> string \<Rightarrow> u16 \<Rightarrow> UDPClient" where
  "mk_client fd h p = \<lparr>sock_fd = fd, host = h, port = p, last_error = None\<rparr>"

text \<open>
  \<open>Send\<close> hands \<open>kMaxUDPSize\<close> bytes from the pointer on to \<open>sendto\<close>, whatever is there: \<open>memory\<close> is what can be
  read from it. The result of \<open>sendto\<close> is not kept.
\<close>

definition Send :: "(bytes \<Rightarrow> int) \<Rightarrow> bytes \<Rightarrow> UDPClient \<Rightarrow> (bytes \<times> UDPClient) result" where
  "Send sendto memory c =
     rmap (\<lambda>message. let ret = sendto message in if ret = - 1 then (message, c) else (message, c))
       (read_range memory 0 kMaxUDPSize)"

text \<open>A read: the error number or the bytes, of which the buffer takes \<open>kMaxUDPSize\<close>.\<close>

definition udp_buffer :: "bytes \<Rightarrow> bytes" where
  "udp_buffer d = take kMaxUDPSize d @ replicate (kMaxUDPSize - length d) 0"

definition Receive :: "int + bytes \<Rightarrow> UDPClient \<Rightarrow> bytes \<times> UDPClient" where
  "Receive got c =
     (case got of
        Inl errno \<Rightarrow> ([], c\<lparr>last_error := Some errno\<rparr>)
      | Inr d \<Rightarrow> (udp_buffer d, c\<lparr>last_error := None\<rparr>))"

definition Errored :: "UDPClient \<Rightarrow> bool" where
  "Errored c \<longleftrightarrow> last_error c \<noteq> None"

definition ErrorString :: "(int \<Rightarrow> string) \<Rightarrow> UDPClient \<Rightarrow> string result" where
  "ErrorString strerror c =
     (case last_error c of None \<Rightarrow> Inl (Thrown ''bad_optional_access'') | Some e \<Rightarrow> Inr (strerror e))"

text \<open>The descriptors that the destructors close.\<close>

definition client_closes :: "UDPClient \<Rightarrow> int list" where
  "client_closes c = (if sock_fd c \<noteq> 0 then [sock_fd c] else [])"

section \<open>Listener\<close>

record UDPListener =
  ls_port :: u16
  server_fd :: int
  ls_last_error :: "int option"

definition mk_listener :: "int \<Rightarrow> int \<Rightarrow> u16 \<Rightarrow> UDPListener result" where
  "mk_listener socket_result bind_result p =
     (if socket_result = - 1 then Inl (Thrown ''could not create socket'')
      else if bind_result = - 1 then Inl (Thrown ''could not bind address'')
      else Inr \<lparr>ls_port = p, server_fd = socket_result, ls_last_error = None\<rparr>)"

definition listener_closes :: "UDPListener \<Rightarrow> int list" where
  "listener_closes l = (if server_fd l > 0 then [server_fd l] else [])"

text \<open>The passes of the endless loop of \<open>ListenWith\<close>, with a handler that changes a state.\<close>

fun ListenWith ::
  "(bytes \<Rightarrow> 's \<Rightarrow> 's result) \<Rightarrow> (int + bytes) list \<Rightarrow> UDPListener \<times> 's \<Rightarrow> (UDPListener \<times> 's) result"
where
  "ListenWith listenfunc [] ls = Inr ls"
| "ListenWith listenfunc (got # gots) (l, s) =
     (case got of
        Inl errno \<Rightarrow> ListenWith listenfunc gots (l\<lparr>ls_last_error := Some errno\<rparr>, s)
      | Inr d \<Rightarrow>
          rbind (listenfunc (udp_buffer d) s) (\<lambda>s.
            ListenWith listenfunc gots (l\<lparr>ls_last_error := None\<rparr>, s)))"

lemma length_udp_buffer [simp]: "length (udp_buffer d) = kMaxUDPSize"
  by (auto simp: udp_buffer_def)

lemma udp_buffer_full: "length d = kMaxUDPSize \<Longrightarrow> udp_buffer d = d"
  by (simp add: udp_buffer_def)

text \<open>
  A handler whose successes each add one element to what it collects, which the datagram determines: then the
  listener has collected, in the order of arrival, one element per datagram.
\<close>

definition datagrams :: "(int + bytes) list \<Rightarrow> bytes list" where
  "datagrams gots = concat (map (case_sum (\<lambda>_. []) (\<lambda>d. [udp_buffer d])) gots)"

lemma datagrams_simps [simp]:
  "datagrams [] = []" "datagrams (Inl e # gots) = datagrams gots"
  "datagrams (Inr d # gots) = udp_buffer d # datagrams gots"
  by (simp_all add: datagrams_def)

locale counting_handler =
  fixes handler :: "bytes \<Rightarrow> 's \<Rightarrow> 's result" and collected :: "'s \<Rightarrow> 'e list" and decode :: "bytes \<Rightarrow> 'e result"
  assumes handler_ok: "decode bf = Inr e \<Longrightarrow> \<exists>s'. handler bf s = Inr s' \<and> collected s' = collected s @ [e]"
    and handler_fails: "decode bf = Inl f \<Longrightarrow> \<exists>f'. handler bf s = Inl f'"
begin

lemma handler_Inr: "handler bf s = Inr s' \<Longrightarrow> \<exists>e. decode bf = Inr e \<and> collected s' = collected s @ [e]"
  using handler_ok [of bf _ s] handler_fails [of bf _ s] by (cases "decode bf") fastforce+

lemma listen_collects:
  "ListenWith handler gots (l, s) = Inr (l', s') \<Longrightarrow>
   \<exists>es. map decode (datagrams gots) = map Inr es \<and> collected s' = collected s @ es"
proof (induction gots arbitrary: l s)
  case (Cons got gots)
  show ?case
  proof (cases got)
    case (Inl e)
    then show ?thesis using Cons by simp
  next
    case (Inr d)
    then obtain s1 where s1: "handler (udp_buffer d) s = Inr s1"
      and rest: "ListenWith handler gots (l\<lparr>ls_last_error := None\<rparr>, s1) = Inr (l', s')"
      using Cons.prems by (auto simp: fault_simps)
    obtain e where e: "decode (udp_buffer d) = Inr e" "collected s1 = collected s @ [e]"
      using handler_Inr [OF s1] by blast
    obtain es where "map decode (datagrams gots) = map Inr es" "collected s' = collected s1 @ es"
      using Cons.IH [OF rest] by blast
    then show ?thesis using Inr e by (intro exI [of _ "e # es"]) simp
  qed
qed simp

lemma listen_total:
  "map decode (datagrams gots) = map Inr es \<Longrightarrow> \<exists>l' s'. ListenWith handler gots (l, s) = Inr (l', s')"
proof (induction gots arbitrary: l s es)
  case (Cons got gots)
  show ?case
  proof (cases got)
    case (Inl e)
    then show ?thesis using Cons by simp
  next
    case (Inr d)
    then obtain e es' where e: "decode (udp_buffer d) = Inr e" "map decode (datagrams gots) = map Inr es'"
      using Cons.prems by (cases es) auto
    obtain s1 where "handler (udp_buffer d) s = Inr s1" using handler_ok [OF e(1), of s] by blast
    then show ?thesis using Inr Cons.IH [OF e(2)] by simp
  qed
qed simp

end

section \<open>Command lines\<close>

text \<open>
  \<open>getopt\<close>: the options of a command line, in its order, and its operands. The second argument is what is left of
  a word of options; an unknown option and one without its argument give a question mark.
\<close>

fun opt_kind :: "string \<Rightarrow> char \<Rightarrow> bool option" where
  "opt_kind [] c = None"
| "opt_kind (x # os) c =
     (if c = CHR '':'' then None else if x = c then Some (os \<noteq> [] \<and> hd os = CHR '':'') else opt_kind os c)"

fun getopt :: "string \<Rightarrow> string \<Rightarrow> string list \<Rightarrow> (char \<times> string option) list \<times> string list" where
  "getopt os (c # cs) args =
     (case opt_kind os c of
        None \<Rightarrow> apfst (Cons (CHR ''?'', None)) (getopt os cs args)
      | Some False \<Rightarrow> apfst (Cons (c, None)) (getopt os cs args)
      | Some True \<Rightarrow>
          if cs \<noteq> [] then apfst (Cons (c, Some cs)) (getopt os [] args)
          else (case args of
                  [] \<Rightarrow> ([(CHR ''?'', None)], [])
                | a # args \<Rightarrow> apfst (Cons (c, Some a)) (getopt os [] args)))"
| "getopt os [] [] = ([], [])"
| "getopt os [] (a # args) =
     (if a = ''--'' then ([], args)
      else if 2 \<le> length a \<and> hd a = CHR ''-'' then getopt os (tl a) args
      else apsnd (Cons a) (getopt os [] args))"

text \<open>An option with its argument in the next word, a flag, and an operand.\<close>

lemma getopt_words:
  "opt_kind os c = Some True \<Longrightarrow> c \<noteq> CHR ''-'' \<Longrightarrow>
   getopt os [] ([CHR ''-'', c] # a # args) = apfst (Cons (c, Some a)) (getopt os [] args)"
  "opt_kind os c = Some False \<Longrightarrow> c \<noteq> CHR ''-'' \<Longrightarrow>
   getopt os [] ([CHR ''-'', c] # args) = apfst (Cons (c, None)) (getopt os [] args)"
  "a = [] \<or> hd a \<noteq> CHR ''-'' \<Longrightarrow> getopt os [] (a # args) = apsnd (Cons a) (getopt os [] args)"
  by auto

section \<open>The program that sends a message\<close>

record SessionBuilder =
  sb_host :: string
  sb_port :: string
  sb_port_i :: nat
  sb_message :: string
  sb_wait :: bool

definition mk_builder :: SessionBuilder where
  "mk_builder = \<lparr>sb_host = ''127.0.0.1'', sb_port = ''9995'', sb_port_i = 9995, sb_message = [], sb_wait = False\<rparr>"

text \<open>\<open>Port\<close> reads the member and not its argument.\<close>

definition Port :: "string \<Rightarrow> SessionBuilder \<Rightarrow> SessionBuilder" where
  "Port p b = b\<lparr>sb_port_i := extract_unsigned 16 10 (sb_port b)\<rparr>"

definition udp_option :: "char \<times> string option \<Rightarrow> SessionBuilder \<Rightarrow> SessionBuilder result" where
  "udp_option oa b =
     (let (opt, optarg) = oa in
      if opt = CHR ''h'' then rmap (\<lambda>a. b\<lparr>sb_host := a\<rparr>) (deref optarg)
      else if opt = CHR ''p'' then rmap (\<lambda>a. Port a b) (deref optarg)
      else if opt = CHR ''s'' then rmap (\<lambda>a. b\<lparr>sb_message := a\<rparr>) (deref optarg)
      else if opt = CHR ''r'' then Inr (b\<lparr>sb_wait := True\<rparr>)
      else Inl Exited)"

fun udp_options :: "(char \<times> string option) list \<Rightarrow> SessionBuilder \<Rightarrow> SessionBuilder result" where
  "udp_options [] b = Inr b"
| "udp_options (oa # oas) b = rbind (udp_option oa b) (udp_options oas)"
text \<open>
  \<open>SendMessageTo\<close>: \<open>memcpy\<close> takes the size of the buffer from the string, whose memory is its characters, the zero
  behind them and \<open>heap\<close>.
\<close>

definition SendMessageTo :: "(bytes \<Rightarrow> int) \<Rightarrow> bytes \<Rightarrow> string \<Rightarrow> UDPClient \<Rightarrow> (bytes \<times> UDPClient) result" where
  "SendMessageTo sendto heap message client =
     rbind (read_range (map byte_of message @ [0] @ heap) 0 kMaxUDPSize) (\<lambda>buffer. Send sendto buffer client)"

text \<open>
  \<open>main\<close> for the words \<open>args\<close> behind the program's name: nothing, or the datagram sent and the reply printed. The
  socket \<open>fd\<close>, the memory \<open>heap\<close> and the reply \<open>got\<close> come from the system.
\<close>

definition udp_main ::
  "(bytes \<Rightarrow> int) \<Rightarrow> int \<Rightarrow> bytes \<Rightarrow> int + bytes \<Rightarrow> string list \<Rightarrow> (bytes \<times> bytes option) option result"
where
  "udp_main sendto fd heap got args =
     rbind (udp_options (fst (getopt ''h:p:s:r'' [] args)) mk_builder) (\<lambda>builder.
       if args = [] then Inr None
       else
         rmap (\<lambda>(d, client). Some (d, if sb_wait builder then Some (fst (Receive got client)) else None))
           (SendMessageTo sendto heap (sb_message builder)
             (mk_client fd (sb_host builder) (of_nat (sb_port_i builder)))))"

text \<open>What the library and the program do not do: a failed \<open>sendto\<close> is not an error afterwards, a reply always has
  the size of the buffer, and the option for the port changes nothing.\<close>

lemma Send_reads:
  "kMaxUDPSize \<le> length memory \<Longrightarrow> Send sendto memory c = Inr (take kMaxUDPSize memory, c)"
  by (simp add: Send_def)

lemma Send_short: "length memory < kMaxUDPSize \<Longrightarrow> Send sendto memory c = Inl Out_Of_Bounds"
  by (auto simp: Send_def read_range_def)

lemma send_errors_lost:
  assumes "kMaxUDPSize \<le> length memory"
  shows "rmap (\<lambda>(d, c). Errored c) (Send (\<lambda>_. - 1) memory (mk_client fd h p)) = Inr False"
  by (simp add: Send_reads [OF assms] Errored_def mk_client_def)

lemma receive_always_full: "length (fst (Receive (Inr d) c)) = kMaxUDPSize"
  by (simp add: Receive_def)

lemma Port_ignores: "Port p mk_builder = mk_builder"
proof -
  have "scan_number 10 ''9995'' = Some (False, 9995)" by code_simp
  then have "extract_unsigned 16 10 ''9995'' = 9995" by (simp add: extract_unsigned_def)
  then show ?thesis by (simp add: Port_def mk_builder_def)
qed

lemma SendMessageTo_reads:
  assumes "kMaxUDPSize \<le> length (map byte_of m @ [0] @ heap)"
  shows "SendMessageTo sendto heap m c = Inr (take kMaxUDPSize (map byte_of m @ [0] @ heap), c)"
proof -
  define memory where "memory = map byte_of m @ [0] @ heap"
  have "SendMessageTo sendto heap m c = rbind (read_range memory 0 kMaxUDPSize) (\<lambda>b. Send sendto b c)"
    by (simp add: SendMessageTo_def memory_def)
  then show ?thesis using assms Send_reads [of "take kMaxUDPSize memory" sendto c]
    unfolding memory_def [symmetric] by simp
qed

text \<open>run with a port and a message, the program sends the message, its terminating zero and the memory behind
  it, up to the size of a datagram, whatever the port; it does so from the default session.\<close>

theorem udp_send_memory:
  assumes "507 \<le> length heap"
  shows "udp_main sendto fd heap got [''-p'', p, ''-s'', m] =
    Inr (Some (take kMaxUDPSize (map byte_of m @ [0] @ heap), None))"
proof -
  let ?memory = "map byte_of m @ [0] @ heap"
  have long: "kMaxUDPSize \<le> length ?memory" using assms by (simp add: kMaxUDPSize_def)
  have "getopt ''h:p:s:r'' [] [''-p'', p, ''-s'', m] = ([(CHR ''p'', Some p), (CHR ''s'', Some m)], [])"
    by (simp add: getopt_words)
  then have "udp_main sendto fd heap got [''-p'', p, ''-s'', m] =
    rmap (\<lambda>(d, client). Some (d, None)) (SendMessageTo sendto heap m (mk_client fd ''127.0.0.1'' 9995))"
    by (simp add: udp_main_def udp_option_def Port_ignores) (simp add: mk_builder_def)
  also have "SendMessageTo sendto heap m (mk_client fd ''127.0.0.1'' 9995) =
    Inr (take kMaxUDPSize ?memory, mk_client fd ''127.0.0.1'' 9995)"
    by (rule SendMessageTo_reads [OF long])
  finally show ?thesis by simp
qed

theorem udp_send_memory_witness:
  "udp_main (\<lambda>_. 508) 3 (replicate 600 7) (Inl 0) [''-p'', ''80'', ''-s'', ''hi''] =
    Inr (Some (take kMaxUDPSize (map byte_of ''hi'' @ [0] @ replicate 600 7), None))"
  using udp_send_memory [of "replicate 600 7" "\<lambda>_. 508" 3 "Inl 0" "''80''" "''hi''"] by simp

end
