(* ===== verification/Psycal_Server.thy ===== *)
theory Psycal_Server
  imports Psycal Net
begin

text \<open>
  The calendar server of \<^verbatim>\<open>psycal/server.cc\<close>: the queue of coming events, the handler of a
  received packet, the thread that expires events and the thread that saves them. Each runs its
  body under the server's lock, so an execution is a sequence of whole bodies. The events of the last run are pushed
  without the lock, between the bodies of the threads that already run. The writes to the two files may fail.
\<close>

section \<open>The priority queue\<close>

text \<open>
  \<open>std::priority_queue\<close> with \<open>SoonerCmp\<close>: the elements in the order of insertion; the top is
  the first one no other is sooner than. The standard leaves the order of equal timestamps open,
  and no property below depends on it.
\<close>

fun pq_top :: "(tm \<Rightarrow> int) \<Rightarrow> event list \<Rightarrow> event result" where
  "pq_top mktime [] = Inl Empty_Access"
| "pq_top mktime (e # es) =
     (case pq_top mktime es of
        Inl _ \<Rightarrow> Inr e
      | Inr e' \<Rightarrow> Inr (if SoonerCmp mktime e e' then e' else e))"

definition pq_push :: "event \<Rightarrow> event list \<Rightarrow> event list" where
  "pq_push e q = q @ [e]"

definition pq_pop :: "(tm \<Rightarrow> int) \<Rightarrow> event list \<Rightarrow> event list result" where
  "pq_pop mktime q = rmap (\<lambda>e. remove1 e q) (pq_top mktime q)"

text \<open>The contract of a priority queue, and popping until it is empty.\<close>

fun pops :: "('q \<Rightarrow> 'e result) \<Rightarrow> ('q \<Rightarrow> 'q result) \<Rightarrow> nat \<Rightarrow> 'q \<Rightarrow> 'e list result" where
  "pops front pop 0 q = Inr []"
| "pops front pop (Suc n) q =
     rbind (front q) (\<lambda>e. rbind (pop q) (\<lambda>q'. rmap (Cons e) (pops front pop n q')))"

locale priority_queue =
  fixes key :: "'e \<Rightarrow> 'k::linorder"
    and elems :: "'q \<Rightarrow> 'e multiset"
    and push :: "'e \<Rightarrow> 'q \<Rightarrow> 'q"
    and front :: "'q \<Rightarrow> 'e result"
    and pop :: "'q \<Rightarrow> 'q result"
  assumes elems_push: "elems (push e q) = add_mset e (elems q)"
    and top_empty: "elems q = {#} \<Longrightarrow> front q = Inl Empty_Access"
    and top_least: "elems q \<noteq> {#} \<Longrightarrow>
      \<exists>e. front q = Inr e \<and> e \<in># elems q \<and> (\<forall>e'\<in>#elems q. key e \<le> key e')"
    and pop_elems: "front q = Inr e \<Longrightarrow> \<exists>q'. pop q = Inr q' \<and> elems q' = elems q - {#e#}"
begin

lemma top_Inr: "front q = Inr e \<Longrightarrow> e \<in># elems q \<and> (\<forall>e'\<in>#elems q. key e \<le> key e')"
  using top_empty [of q] top_least [of q] by (cases "elems q = {#}") auto

lemma top_Inr_iff: "(\<exists>e. front q = Inr e) \<longleftrightarrow> elems q \<noteq> {#}"
  using top_empty [of q] top_least [of q] by (cases "elems q = {#}") auto

lemma pop_size: "front q = Inr e \<Longrightarrow> pop q = Inr q' \<Longrightarrow> size (elems q) = Suc (size (elems q'))"
  using pop_elems [of q e] top_Inr [of q e] by (metis Inr_inject size_Suc_Diff1)

text \<open>Popping a whole queue lists its elements, sorted by their keys.\<close>

lemma pops_sorted:
  "size (elems q) = n \<Longrightarrow>
   \<exists>es. pops front pop n q = Inr es \<and> mset es = elems q \<and> sorted (map key es)"
proof (induction n arbitrary: q)
  case 0
  then show ?case by simp
next
  case (Suc n)
  then obtain e where e: "front q = Inr e" using top_Inr_iff by fastforce
  then obtain q' where q': "pop q = Inr q'" "elems q' = elems q - {#e#}" using pop_elems by blast
  then have "size (elems q') = n" using pop_size [OF e] Suc.prems by simp
  from Suc.IH [OF this] obtain es
    where es: "pops front pop n q' = Inr es" "mset es = elems q'" "sorted (map key es)" by blast
  have "key e \<le> key e'" if "e' \<in> set es" for e'
    using top_Inr [OF e] that es(2) q'(2) by (metis in_diffD set_mset_mset)
  moreover have "mset (e # es) = elems q" using top_Inr [OF e] es(2) q'(2) by simp
  ultimately show ?case using e q' es by auto
qed

end

lemma pq_top_least:
  "q \<noteq> [] \<Longrightarrow> \<exists>e. pq_top mk q = Inr e \<and> e \<in> set q
     \<and> (\<forall>e'\<in>set q. GetUnixTimestamp mk e \<le> GetUnixTimestamp mk e')"
proof (induction q)
  case (Cons a q)
  show ?case
  proof (cases "q = []")
    case False
    with Cons.IH obtain e where "pq_top mk q = Inr e" "e \<in> set q"
      "\<forall>e'\<in>set q. GetUnixTimestamp mk e \<le> GetUnixTimestamp mk e'" by blast
    then show ?thesis by (auto simp: SoonerCmp_def intro: less_imp_le order_trans)
  qed simp
qed simp

interpretation pq: priority_queue
  where key = "GetUnixTimestamp mk" and elems = mset and push = pq_push
    and front = "pq_top mk" and pop = "pq_pop mk"
  for mk
proof unfold_locales
  fix q :: "event list"
  assume "mset q \<noteq> {#}"
  then show "\<exists>e. pq_top mk q = Inr e \<and> e \<in># mset q
      \<and> (\<forall>e'\<in>#mset q. GetUnixTimestamp mk e \<le> GetUnixTimestamp mk e')"
    using pq_top_least [of q mk] by simp
qed (auto simp: pq_push_def pq_pop_def)

section \<open>The server\<close>

record server =
  sv_unloaded :: "event list"
  sv_events :: "event list"
  sv_old :: "event list"
  sv_make_snapshot :: bool
  sv_events_file :: bytes
  sv_history_file :: bytes


text \<open>
  Seconds become a time point of the system clock, a signed 64-bit count of nanoseconds.
\<close>

definition event_timepoint :: "u64 \<Rightarrow> int result" where
  "event_timepoint ts =
     (let ns = sint ts * 10 ^ 9 in
      if - (2 ^ 63) \<le> ns \<and> ns < 2 ^ 63 then Inr ns else Inl Overflow)"

text \<open>The handler of a received packet, a \<open>noexcept\<close> lambda in \<open>Server::Start\<close>.\<close>

definition listen_fn :: "(int \<Rightarrow> tm) \<Rightarrow> bytes \<Rightarrow> server \<Rightarrow> server result" where
  "listen_fn localtime bf s =
     noexcept (rmap (\<lambda>received.
       s\<lparr>sv_events := foldl (\<lambda>q e. pq_push e q) (sv_events s) received,
         sv_make_snapshot := True\<rparr>)
       (FromBuffer localtime bf kMaxUDPSize))"

text \<open>
  \<open>Server::Start\<close> up to the endless call of \<open>ListenWith\<close>. The events of the last run are read into a vector
  (\<open>sv_unloaded\<close>) and pushed one after the other; \<open>Start_load\<close> is the whole of it when no other thread comes between.
\<close>

definition Start_read ::
  "(int \<Rightarrow> tm) \<Rightarrow> (u64 \<Rightarrow> bool) \<Rightarrow> (nat \<Rightarrow> bytes) \<Rightarrow> server \<Rightarrow> server result"
where
  "Start_read localtime new_ok heap s =
     rmap (\<lambda>loaded. s\<lparr>sv_unloaded := loaded\<rparr>) (ReadEventsFrom localtime new_ok heap 0 (sv_events_file s))"

fun Start_push :: "server \<Rightarrow> server" where
  "Start_push s =
     (case sv_unloaded s of [] \<Rightarrow> s
      | el # els \<Rightarrow> s\<lparr>sv_events := pq_push el (sv_events s), sv_unloaded := els\<rparr>)"

definition Start_load ::
  "(int \<Rightarrow> tm) \<Rightarrow> (u64 \<Rightarrow> bool) \<Rightarrow> (nat \<Rightarrow> bytes) \<Rightarrow> server \<Rightarrow> server result"
where
  "Start_load localtime new_ok heap s =
     rmap (\<lambda>s. (Start_push ^^ length (sv_unloaded s)) s) (Start_read localtime new_ok heap s)"

text \<open>
  The inner loop of \<open>Tick\<close>. After each pop the next timepoint is loaded from the top of the
  queue, without looking whether one is left.
\<close>

lemma pq_pop_shorter: "pq_pop mk q = Inr q' \<Longrightarrow> length q' < length q"
  using pq.pop_size [of mk q _ q'] by (cases "pq_top mk q") (auto simp: pq_pop_def)

function tick_loop ::
  "(tm \<Rightarrow> int) \<Rightarrow> int \<Rightarrow> event list \<Rightarrow> event list \<Rightarrow> int \<Rightarrow> bool \<Rightarrow> (event list \<times> event list \<times> bool) result"
where
  "tick_loop mktime now q old event_tp popped_event =
     (if q \<noteq> [] \<and> now > event_tp then
        rbind (pq_top mktime q) (\<lambda>e.
        rbind (pq_pop mktime q) (\<lambda>q'.
        rbind (pq_top mktime q') (\<lambda>next.
        rbind (event_timepoint (GetUnixTimestamp mktime next)) (\<lambda>event_tp'.
          tick_loop mktime now q' (old @ [e]) event_tp' True))))
      else Inr (q, old, popped_event))"
  by pat_completeness auto
termination
  by (relation "measure (\<lambda>(_, _, q, _, _, _). length q)") (auto dest: pq_pop_shorter)

declare tick_loop.simps [simp del]

text \<open>One round of \<open>Tick\<close>, \<open>now\<close> being the clock in nanoseconds.\<close>

definition Tick :: "(tm \<Rightarrow> int) \<Rightarrow> int \<Rightarrow> server \<Rightarrow> server result" where
  "Tick mktime now s =
     (if length (sv_events s) = 0 then Inr s
      else
        rbind (pq_top mktime (sv_events s)) (\<lambda>first.
        rbind (event_timepoint (GetUnixTimestamp mktime first)) (\<lambda>event_tp.
        rmap (\<lambda>(q, old, popped_event).
          let s = s\<lparr>sv_events := q, sv_old := old\<rparr>
          in if popped_event then s\<lparr>sv_make_snapshot := True\<rparr> else s)
          (tick_loop mktime now (sv_events s) (sv_old s) event_tp False))))"

text \<open>The file is emptied when it is opened, and otherwise stays as it was.\<close>

definition SaveCurrentEvents :: "(tm \<Rightarrow> int) \<Rightarrow> write_answer \<Rightarrow> event list \<Rightarrow> bytes \<Rightarrow> bytes result" where
  "SaveCurrentEvents mktime answer events old_file =
     rmap (\<lambda>es. if answer = Refused then old_file else reaches answer (concat (map (dump_event mktime) es)))
       (pops (pq_top mktime) (pq_pop mktime) (length events) events)"

text \<open>
  One round of \<open>Snapshot\<close>, once the condition variable lets it through, with what becomes of the writes to each file. The
  old events are dropped in any case. Without a home the paths of the files throw; the server has one here, or its
  \<open>Start\<close> has thrown already (\<open>psycal_gaps\<close> in \<open>Psycal_Client\<close>).
\<close>

definition Snapshot :: "(tm \<Rightarrow> int) \<Rightarrow> write_answer \<Rightarrow> write_answer \<Rightarrow> server \<Rightarrow> server result" where
  "Snapshot mktime events_answer history_answer s =
     rmap (\<lambda>out. s\<lparr>sv_events_file := out,
                  sv_history_file := SaveOld mktime history_answer (sv_old s) (sv_history_file s),
                  sv_old := [], sv_make_snapshot := False\<rparr>)
       (SaveCurrentEvents mktime events_answer (sv_events s) (sv_events_file s))"

text \<open>
  An execution: bodies in any order, \<open>Snapshot\<close> only behind its condition, packets only when everything is loaded, and
  the pushes of the load at any time before. It goes on as long as nothing faults; a push takes no lock, and one that
  overlaps a body is a data race, a fault too.
\<close>

datatype action = Load | Packet bytes | Clock int | Save write_answer write_answer

inductive server_step :: "(tm \<Rightarrow> int) \<Rightarrow> (int \<Rightarrow> tm) \<Rightarrow> server \<Rightarrow> action \<Rightarrow> server \<Rightarrow> bool"
  for mktime localtime
where
  load: "sv_unloaded s \<noteq> [] \<Longrightarrow> server_step mktime localtime s Load (Start_push s)"
| packet: "sv_unloaded s = [] \<Longrightarrow> length bf = kMaxUDPSize \<Longrightarrow> listen_fn localtime bf s = Inr s' \<Longrightarrow>
    server_step mktime localtime s (Packet bf) s'"
| clock: "Tick mktime now s = Inr s' \<Longrightarrow> server_step mktime localtime s (Clock now) s'"
| save: "sv_make_snapshot s \<Longrightarrow> Snapshot mktime events_answer history_answer s = Inr s' \<Longrightarrow>
    server_step mktime localtime s (Save events_answer history_answer) s'"

inductive server_run :: "(tm \<Rightarrow> int) \<Rightarrow> (int \<Rightarrow> tm) \<Rightarrow> server \<Rightarrow> action list \<Rightarrow> server \<Rightarrow> bool"
  for mktime localtime s
where
  init: "server_run mktime localtime s [] s"
| step: "server_run mktime localtime s acts s' \<Longrightarrow> server_step mktime localtime s' a s'' \<Longrightarrow>
    server_run mktime localtime s (acts @ [a]) s''"

inductive_cases server_step_loadE: "server_step mk lt s Load s'"
inductive_cases server_step_packetE: "server_step mk lt s (Packet bf) s'"
inductive_cases server_step_clockE: "server_step mk lt s (Clock now) s'"
inductive_cases server_step_saveE: "server_step mk lt s (Save ea ha) s'"

section \<open>Expiry\<close>

definition in_range :: "(tm \<Rightarrow> int) \<Rightarrow> event \<Rightarrow> bool" where
  "in_range mktime e \<longleftrightarrow> uint (GetUnixTimestamp mktime e) * 10 ^ 9 < 2 ^ 63"

definition expired :: "(tm \<Rightarrow> int) \<Rightarrow> int \<Rightarrow> event \<Rightarrow> bool" where
  "expired mktime now e \<longleftrightarrow> uint (GetUnixTimestamp mktime e) * 10 ^ 9 < now"

lemma event_timepoint_in_range:
  assumes "uint ts * 10 ^ 9 < 2 ^ 63"
  shows "event_timepoint ts = Inr (uint ts * 10 ^ 9)"
proof -
  have "0 \<le> uint ts" by simp
  with assms have "uint ts < 2 ^ 63" by simp
  with \<open>0 \<le> uint ts\<close> have "sint ts = uint ts"
    by (simp add: sint_uint signed_take_bit_int_eq_self_iff order_trans [of _ 0])
  then show ?thesis using assms order_trans [of "- (2 ^ 63)" 0 "uint ts * 10 ^ 9"]
    by (simp add: event_timepoint_def)
qed

lemma expired_mono:
  "GetUnixTimestamp mk e \<le> GetUnixTimestamp mk e' \<Longrightarrow> expired mk now e' \<Longrightarrow> expired mk now e"
  by (auto simp: expired_def word_le_def)

lemma top_timepoint:
  assumes "\<forall>e\<in>set q. in_range mk e" and "pq_top mk q = Inr e"
  shows "event_timepoint (GetUnixTimestamp mk e) = Inr (uint (GetUnixTimestamp mk e) * 10 ^ 9)"
  using assms(1) pq.top_Inr [OF assms(2)]
  by (intro event_timepoint_in_range) (simp add: in_range_def)

text \<open>The state of the loop: the queue's top and its timepoint.\<close>

definition loop_ready :: "(tm \<Rightarrow> int) \<Rightarrow> event list \<Rightarrow> event \<Rightarrow> int \<Rightarrow> bool" where
  "loop_ready mktime q e tp \<longleftrightarrow>
     (\<forall>e\<in>set q. in_range mktime e) \<and> pq_top mktime q = Inr e
     \<and> tp = uint (GetUnixTimestamp mktime e) * 10 ^ 9"

lemma loop_ready_not_Nil: "loop_ready mk q e tp \<Longrightarrow> q \<noteq> []"
  by (auto simp: loop_ready_def)

lemma loop_ready_now: "loop_ready mk q e tp \<Longrightarrow> now > tp \<longleftrightarrow> expired mk now e"
  by (simp add: loop_ready_def expired_def)

text \<open>One pass: pop the top, then load the next timepoint if an event is left.\<close>

lemma tick_loop_step:
  assumes "loop_ready mk q e tp" and "expired mk now e"
  shows "\<exists>q'. mset q' = mset q - {#e#} \<and> e \<in> set q \<and> length q' < length q
    \<and> (\<forall>e'\<in>set q. GetUnixTimestamp mk e \<le> GetUnixTimestamp mk e')
    \<and> (q' = [] \<longrightarrow> tick_loop mk now q old tp b = Inl Empty_Access)
    \<and> (q' \<noteq> [] \<longrightarrow> (\<exists>e' tp'. loop_ready mk q' e' tp'
         \<and> tick_loop mk now q old tp b = tick_loop mk now q' (old @ [e]) tp' True))"
proof -
  from assms(1) have top: "pq_top mk q = Inr e" and rng: "\<forall>e\<in>set q. in_range mk e"
    by (auto simp: loop_ready_def)
  obtain q' where q': "pq_pop mk q = Inr q'" "mset q' = mset q - {#e#}"
    using pq.pop_elems [OF top] by auto
  then have sub: "set q' \<subseteq> set q" by (metis in_diffD set_mset_mset subsetI)
  have go: "q \<noteq> [] \<and> now > tp" using assms loop_ready_not_Nil loop_ready_now by blast
  have nil: "tick_loop mk now q old tp b = Inl Empty_Access" if "q' = []"
    using that go top q' by (simp add: tick_loop.simps [of _ _ q])
  have "\<exists>e' tp'. loop_ready mk q' e' tp'
      \<and> tick_loop mk now q old tp b = tick_loop mk now q' (old @ [e]) tp' True" if "q' \<noteq> []"
  proof -
    from that obtain e' where e': "pq_top mk q' = Inr e'" using pq.top_Inr_iff [of mk q'] by auto
    moreover have "\<forall>e\<in>set q'. in_range mk e" using rng sub by auto
    ultimately show ?thesis
      using top_timepoint [of q' mk e'] go top q'
      by (auto simp: loop_ready_def tick_loop.simps [of _ _ q])
  qed
  with nil show ?thesis using q' pq_pop_shorter [of mk q q'] pq.top_Inr [OF top] by auto
qed

lemma tick_loop_all_expired:
  "loop_ready mk q e tp \<Longrightarrow> \<forall>e\<in>set q. expired mk now e \<Longrightarrow> tick_loop mk now q old tp b = Inl Empty_Access"
proof (induction "length q" arbitrary: q e tp old b rule: less_induct)
  case less
  then have "e \<in> set q" using pq.top_Inr [of mk q e] by (auto simp: loop_ready_def)
  with less.prems have "expired mk now e" by blast
  from tick_loop_step [OF less.prems(1) this, of old b] obtain q'
    where q': "mset q' = mset q - {#e#}" "length q' < length q"
      and nil: "q' = [] \<longrightarrow> tick_loop mk now q old tp b = Inl Empty_Access"
      and cons: "q' \<noteq> [] \<longrightarrow> (\<exists>e' tp'. loop_ready mk q' e' tp'
        \<and> tick_loop mk now q old tp b = tick_loop mk now q' (old @ [e]) tp' True)" by blast
  have "set q' \<subseteq> set q" using q'(1) by (metis in_diffD set_mset_mset subsetI)
  with less.prems(2) have "\<forall>e\<in>set q'. expired mk now e" by auto
  with less.hyps [OF q'(2)] nil cons show ?case by metis
qed

lemma tick_loop_expires:
  "loop_ready mk q e tp \<Longrightarrow> \<exists>e\<in>set q. \<not> expired mk now e \<Longrightarrow>
   \<exists>q' ex. tick_loop mk now q old tp b = Inr (q', old @ ex, b \<or> ex \<noteq> [])
     \<and> mset q' = filter_mset (\<lambda>e. \<not> expired mk now e) (mset q)
     \<and> mset ex = filter_mset (expired mk now) (mset q) \<and> sorted (map (GetUnixTimestamp mk) ex)"
proof (induction "length q" arbitrary: q e tp old b rule: less_induct)
  case less
  show ?case
  proof (cases "expired mk now e")
    case False
    then have none: "\<forall>e'\<in>set q. \<not> expired mk now e'"
      using pq.top_Inr [of mk q e] less.prems(1) expired_mono [of mk e] by (auto simp: loop_ready_def)
    moreover have "tick_loop mk now q old tp b = Inr (q, old, b)"
      using False loop_ready_now [OF less.prems(1), of now] by (simp add: tick_loop.simps [of _ _ q])
    moreover have "filter_mset (expired mk now) (mset q) = {#}"
      and "filter_mset (\<lambda>e. \<not> expired mk now e) (mset q) = mset q"
      using none by (auto simp: filter_mset_eq_conv)
    ultimately show ?thesis
      by - (rule exI [of _ q], rule exI [of _ "[]"], simp)
  next
    case True
    from tick_loop_step [OF less.prems(1) this, of old b] obtain q'
      where q': "mset q' = mset q - {#e#}" "length q' < length q" "e \<in> set q"
        and le: "\<forall>e'\<in>set q. GetUnixTimestamp mk e \<le> GetUnixTimestamp mk e'"
        and cons: "q' \<noteq> [] \<longrightarrow> (\<exists>e' tp'. loop_ready mk q' e' tp'
          \<and> tick_loop mk now q old tp b = tick_loop mk now q' (old @ [e]) tp' True)" by blast
    have mq: "mset q = add_mset e (mset q')" using q'(1,3) by simp
    then have ex: "\<exists>e\<in>set q'. \<not> expired mk now e"
      using less.prems(2) True by (metis insert_iff set_mset_add_mset_insert set_mset_mset)
    then have "q' \<noteq> []" by auto
    with cons obtain e' tp' where r: "loop_ready mk q' e' tp'"
      "tick_loop mk now q old tp b = tick_loop mk now q' (old @ [e]) tp' True" by blast
    from less.hyps [OF q'(2) r(1) ex, of "old @ [e]" True] obtain q'' x
      where x: "tick_loop mk now q' (old @ [e]) tp' True = Inr (q'', (old @ [e]) @ x, True)"
        "mset q'' = filter_mset (\<lambda>e. \<not> expired mk now e) (mset q')"
        "mset x = filter_mset (expired mk now) (mset q')" "sorted (map (GetUnixTimestamp mk) x)" by auto
    have "set_mset (mset x) \<subseteq> set_mset (mset q)" unfolding x(3) mq by auto
    then have "set x \<subseteq> set q" by simp
    then have "sorted (map (GetUnixTimestamp mk) (e # x))" using x(4) le by auto
    then show ?thesis using x r(2) mq True by (intro exI [of _ q''] exI [of _ "e # x"]) simp
  qed
qed

text \<open>C31: a round of \<open>Tick\<close> in which some event is still to come moves exactly the expired events, in the
  order of their timestamps, from the queue to the old events, keeps the rest, and asks for a
  snapshot exactly when it moved one or one was already asked for; in the other case, a queue of
  expired events only, it ends by taking the top of an empty queue.\<close>

theorem tick_expires:
  assumes "sv_events s \<noteq> []" and "\<forall>e\<in>set (sv_events s). in_range mktime e"
  shows "if \<forall>e\<in>set (sv_events s). expired mktime now e then Tick mktime now s = Inl Empty_Access
    else \<exists>s' ex. Tick mktime now s = Inr s'
       \<and> mset (sv_events s') = filter_mset (\<lambda>e. \<not> expired mktime now e) (mset (sv_events s))
       \<and> sv_old s' = sv_old s @ ex
       \<and> mset ex = filter_mset (expired mktime now) (mset (sv_events s))
       \<and> sorted (map (GetUnixTimestamp mktime) ex)
       \<and> sv_make_snapshot s' = (sv_make_snapshot s \<or> ex \<noteq> [])"
proof -
  let ?q = "sv_events s"
  obtain e where e: "pq_top mktime ?q = Inr e" using assms(1) pq.top_Inr_iff [of mktime ?q] by auto
  define tp where "tp = uint (GetUnixTimestamp mktime e) * 10 ^ 9"
  have r: "loop_ready mktime ?q e tp" using assms(2) e by (simp add: loop_ready_def tp_def)
  have tick: "Tick mktime now s = rmap (\<lambda>(q, old, popped_event).
      let s = s\<lparr>sv_events := q, sv_old := old\<rparr>
      in if popped_event then s\<lparr>sv_make_snapshot := True\<rparr> else s)
      (tick_loop mktime now ?q (sv_old s) tp False)"
    using assms(1) e top_timepoint [OF assms(2) e] by (simp add: Tick_def tp_def)
  show ?thesis
  proof (cases "\<forall>e\<in>set ?q. expired mktime now e")
    case True
    then show ?thesis using tick_loop_all_expired [OF r] tick by simp
  next
    case False
    then have "\<exists>e\<in>set ?q. \<not> expired mktime now e" by blast
    from tick_loop_expires [OF r this, of "sv_old s" False] obtain q' ex
      where "tick_loop mktime now ?q (sv_old s) tp False = Inr (q', sv_old s @ ex, ex \<noteq> [])"
        and "mset q' = filter_mset (\<lambda>e. \<not> expired mktime now e) (mset ?q)"
        and "mset ex = filter_mset (expired mktime now) (mset ?q)"
        and "sorted (map (GetUnixTimestamp mktime) ex)" by auto
    with False tick show ?thesis by (auto simp: Let_def)
  qed
qed

section \<open>What the server keeps\<close>

text \<open>
  Every event is accounted for: the events not yet loaded, those in the queue, the expired ones not yet saved and those
  handed to \<open>SaveOld\<close>, in batches, are together the events of the start and those received since.
\<close>

fun received :: "(int \<Rightarrow> tm) \<Rightarrow> action list \<Rightarrow> event list" where
  "received localtime [] = []"
| "received localtime (Packet bf # acts) =
     (case FromBuffer localtime bf kMaxUDPSize of Inl _ \<Rightarrow> [] | Inr evs \<Rightarrow> evs) @ received localtime acts"
| "received localtime (_ # acts) = received localtime acts"

fun history_answers :: "action list \<Rightarrow> write_answer list" where
  "history_answers [] = []"
| "history_answers (Save ea ha # acts) = ha # history_answers acts"
| "history_answers (_ # acts) = history_answers acts"

definition append_batches :: "(tm \<Rightarrow> int) \<Rightarrow> (write_answer \<times> event list) list \<Rightarrow> bytes \<Rightarrow> bytes" where
  "append_batches mktime batches history = foldl (\<lambda>out (ha, olds). SaveOld mktime ha olds out) history batches"

definition all_events :: "server \<Rightarrow> event multiset" where
  "all_events s = mset (sv_unloaded s) + mset (sv_events s) + mset (sv_old s)"

definition accounts :: "(tm \<Rightarrow> int) \<Rightarrow> event multiset \<Rightarrow> bytes \<Rightarrow> write_answer list \<Rightarrow> server \<Rightarrow> bool" where
  "accounts mktime all history answers s \<longleftrightarrow>
     (\<exists>batches. length batches = length answers
        \<and> sv_history_file s = append_batches mktime (zip answers batches) history
        \<and> all_events s + mset (concat batches) = all)"

text \<open>What holds as long as no snapshot is asked for, after the last one was written.\<close>

definition settled :: "(tm \<Rightarrow> int) \<Rightarrow> server \<Rightarrow> bool" where
  "settled mktime s \<longleftrightarrow> (\<not> sv_make_snapshot s \<longrightarrow>
     sv_old s = [] \<and> SaveCurrentEvents mktime Written (sv_events s) [] = Inr (sv_events_file s))"

lemma foldl_pq_push: "foldl (\<lambda>q e. pq_push e q) q es = q @ es"
  by (induction es arbitrary: q) (simp_all add: pq_push_def)

lemma received_append: "received lt (xs @ ys) = received lt xs @ received lt ys"
  by (induction xs rule: received.induct) auto

lemma history_answers_append: "history_answers (xs @ ys) = history_answers xs @ history_answers ys"
  by (induction xs rule: history_answers.induct) auto

lemma append_batches_snoc:
  "append_batches mk (bs @ [(ha, olds)]) out = SaveOld mk ha olds (append_batches mk bs out)"
  by (simp add: append_batches_def)

lemma append_batches_Written:
  "\<forall>a\<in>set answers. a = Written \<Longrightarrow> length bs = length answers \<Longrightarrow>
   append_batches mk (zip answers bs) out = SaveOld mk Written (concat bs) out"
proof (induction answers arbitrary: bs out)
  case (Cons a answers)
  then obtain b bs' where "bs = b # bs'" by (cases bs) auto
  then show ?case using Cons by (simp add: append_batches_def SaveOld_dumps)
qed (simp add: append_batches_def SaveOld_dumps)

lemma tick_loop_keeps:
  "tick_loop mk now q old tp b = Inr (q', old', b') \<Longrightarrow>
   mset q' + mset old' = mset q + mset old \<and> (b \<longrightarrow> b') \<and> (b' \<or> (q' = q \<and> old' = old))"
proof (induction mk now q old tp b arbitrary: q' old' b' rule: tick_loop.induct)
  case (1 mk now q old tp b)
  show ?case
  proof (cases "q \<noteq> [] \<and> now > tp")
    case False
    with "1.prems" show ?thesis by (auto simp: tick_loop.simps [of _ _ q])
  next
    case True
    with "1.prems" obtain e q1 e' tp' where e: "pq_top mk q = Inr e" "pq_pop mk q = Inr q1"
      and e': "pq_top mk q1 = Inr e'" "event_timepoint (GetUnixTimestamp mk e') = Inr tp'"
      and rest: "tick_loop mk now q1 (old @ [e]) tp' True = Inr (q', old', b')"
      by (auto simp: tick_loop.simps [of _ _ q] fault_simps)
    have "mset q1 = mset q - {#e#}" and "e \<in># mset q"
      using pq.pop_elems [OF e(1)] pq.top_Inr [OF e(1)] e(2) by auto
    then show ?thesis using "1.IH" [OF True e e' rest] by simp
  qed
qed

lemma Tick_keeps:
  assumes "Tick mk now s = Inr s'"
  shows "mset (sv_events s') + mset (sv_old s') = mset (sv_events s) + mset (sv_old s)
    \<and> sv_unloaded s' = sv_unloaded s
    \<and> sv_history_file s' = sv_history_file s \<and> sv_events_file s' = sv_events_file s
    \<and> (sv_make_snapshot s \<longrightarrow> sv_make_snapshot s')
    \<and> (sv_make_snapshot s' \<or> (sv_events s' = sv_events s \<and> sv_old s' = sv_old s))"
proof (cases "sv_events s = []")
  case False
  with assms obtain tp q old b where
    "tick_loop mk now (sv_events s) (sv_old s) tp False = Inr (q, old, b)"
    and s': "s' = (let s = s\<lparr>sv_events := q, sv_old := old\<rparr>
      in if b then s\<lparr>sv_make_snapshot := True\<rparr> else s)"
    by (auto simp: Tick_def fault_simps)
  from tick_loop_keeps [OF this(1)] show ?thesis by (auto simp: s' Let_def)
qed (use assms in \<open>simp add: Tick_def\<close>)

lemma server_step_accounts:
  assumes "server_step mk lt s a s'" and "accounts mk all h answers s"
  shows "accounts mk (all + mset (received lt [a])) h (answers @ history_answers [a]) s'"
  using assms
proof (induction rule: server_step.induct)
  case (load s)
  then obtain el els where "sv_unloaded s = el # els" by (cases "sv_unloaded s") auto
  then show ?case using load by (auto simp: accounts_def all_events_def pq_push_def)
next
  case (packet s bf s')
  then obtain evs where "FromBuffer lt bf kMaxUDPSize = Inr evs"
    "s' = s\<lparr>sv_events := sv_events s @ evs, sv_make_snapshot := True\<rparr>"
    by (auto simp: listen_fn_def fault_simps foldl_pq_push)
  then show ?case using packet(4) by (auto simp: accounts_def all_events_def ac_simps)
next
  case (clock now s s')
  then show ?case using Tick_keeps [OF clock.hyps] by (simp add: accounts_def all_events_def add.assoc)
next
  case (save s ea ha s')
  then obtain batches where b: "length batches = length answers"
    "sv_history_file s = append_batches mk (zip answers batches) h" "all_events s + mset (concat batches) = all"
    by (auto simp: accounts_def)
  have s': "sv_history_file s' = SaveOld mk ha (sv_old s) (sv_history_file s)" "sv_old s' = []"
    "sv_events s' = sv_events s" "sv_unloaded s' = sv_unloaded s"
    using save.hyps by (auto simp: Snapshot_def fault_simps)
  have "length (batches @ [sv_old s]) = length (answers @ [ha])" using b(1) by simp
  moreover have "sv_history_file s' = append_batches mk (zip (answers @ [ha]) (batches @ [sv_old s])) h"
    using b(1,2) s' by (simp add: append_batches_snoc)
  moreover have "all_events s' + mset (concat (batches @ [sv_old s])) = all"
    using b(3) s' by (simp add: all_events_def ac_simps)
  ultimately show ?case unfolding accounts_def by (intro exI [of _ "batches @ [sv_old s]"]) simp
qed

lemma server_run_accounts:
  "server_run mk lt s acts s' \<Longrightarrow> accounts mk (all_events s + mset (received lt acts)) (sv_history_file s) (history_answers acts) s'"
proof (induction rule: server_run.induct)
  case init
  show ?case by (auto simp: accounts_def append_batches_def intro!: exI [of _ "[]"])
next
  case (step acts s1 a s2)
  then show ?case
    using server_step_accounts [OF step.hyps(2) step.IH]
    by (simp add: received_append history_answers_append add.assoc)
qed

subsection \<open>The files after a snapshot\<close>

definition leaves_file :: "action \<Rightarrow> bool" where
  "leaves_file a \<longleftrightarrow> (case a of Packet bf \<Rightarrow> True | Clock now \<Rightarrow> True | _ \<Rightarrow> False)"

lemma settled_step: "server_step mk lt s a s' \<Longrightarrow> leaves_file a \<Longrightarrow> settled mk s \<Longrightarrow> settled mk s'"
proof (induction rule: server_step.induct)
  case (packet s bf s')
  then show ?case by (auto simp: listen_fn_def fault_simps settled_def)
next
  case (clock now s s')
  then show ?case using Tick_keeps [OF clock.hyps] by (auto simp: settled_def)
qed (simp_all add: leaves_file_def)

lemma settled_save: "server_step mk lt s (Save Written ha) s' \<Longrightarrow> settled mk s'"
  by (elim server_step_saveE) (auto simp: Snapshot_def settled_def SaveCurrentEvents_def fault_simps)

lemma server_run_settled:
  "server_run mk lt s acts s' \<Longrightarrow> acts = xs @ Save Written ha # ys \<Longrightarrow> \<forall>a\<in>set ys. leaves_file a \<Longrightarrow> settled mk s'"
proof (induction arbitrary: ys rule: server_run.induct)
  case (step acts s1 a s2)
  show ?case
  proof (cases ys rule: rev_cases)
    case Nil
    then show ?thesis using step.prems step.hyps(2) settled_save by simp
  next
    case (snoc zs z)
    then have "acts = xs @ Save Written ha # zs" "z = a" using step.prems(1) by simp_all
    then show ?thesis using step.IH [of zs] step.prems(2) snoc settled_step [OF step.hyps(2)] by simp
  qed
qed simp

text \<open>C5: in every execution of the server, with the events of the last run pushed at any time and whatever becomes of the
  writes to the files, every event of the start and every event received is, exactly once, not yet loaded, in the queue,
  among the expired ones, or in a batch that one \<open>Snapshot\<close> gave to the history file. That file holds of each batch what
  its write let through: all of it, in order, if no write of history failed; a batch whose write fails is lost, since it
  is dropped in any case. And whenever no snapshot is pending, after one whose file of events was written and with
  nothing loaded since, that file holds the whole queue and no expired event waits.\<close>

theorem server_loses_nothing:
  assumes "server_run mktime localtime s acts s'"
  shows "(\<exists>batches. length batches = length (history_answers acts)
        \<and> sv_history_file s' = append_batches mktime (zip (history_answers acts) batches) (sv_history_file s)
        \<and> mset (sv_unloaded s') + mset (sv_events s') + mset (sv_old s') + mset (concat batches)
          = mset (sv_unloaded s) + mset (sv_events s) + mset (sv_old s) + mset (received localtime acts)
        \<and> ((\<forall>ha\<in>set (history_answers acts). ha = Written) \<longrightarrow>
             sv_history_file s' = SaveOld mktime Written (concat batches) (sv_history_file s)))
    \<and> (\<forall>xs ha ys. acts = xs @ Save Written ha # ys \<and> (\<forall>a\<in>set ys. leaves_file a) \<and> \<not> sv_make_snapshot s' \<longrightarrow>
         sv_old s' = [] \<and> SaveCurrentEvents mktime Written (sv_events s') [] = Inr (sv_events_file s'))"
proof (intro conjI allI impI)
  obtain batches where "length batches = length (history_answers acts)"
    "sv_history_file s' = append_batches mktime (zip (history_answers acts) batches) (sv_history_file s)"
    "all_events s' + mset (concat batches) = all_events s + mset (received localtime acts)"
    using server_run_accounts [OF assms] by (auto simp: accounts_def)
  then show "\<exists>batches. length batches = length (history_answers acts)
        \<and> sv_history_file s' = append_batches mktime (zip (history_answers acts) batches) (sv_history_file s)
        \<and> mset (sv_unloaded s') + mset (sv_events s') + mset (sv_old s') + mset (concat batches)
          = mset (sv_unloaded s) + mset (sv_events s) + mset (sv_old s) + mset (received localtime acts)
        \<and> ((\<forall>ha\<in>set (history_answers acts). ha = Written) \<longrightarrow>
             sv_history_file s' = SaveOld mktime Written (concat batches) (sv_history_file s))"
    using append_batches_Written by (intro exI [of _ batches]) (auto simp: all_events_def)
qed (use server_run_settled [OF assms] in \<open>auto simp: settled_def\<close>)

text \<open>A failed write of history loses its batch for good.\<close>

lemma refused_history_lost:
  "Snapshot mk ea Refused s = Inr s' \<Longrightarrow> sv_old s' = [] \<and> sv_history_file s' = sv_history_file s"
  by (auto simp: Snapshot_def fault_simps SaveOld_def)

section \<open>Witnesses\<close>

definition sample_server :: "event list \<Rightarrow> server" where
  "sample_server q = \<lparr>sv_unloaded = [], sv_events = q, sv_old = [], sv_make_snapshot = False,
     sv_events_file = concat (map (dump_event sample_mktime) (rev q)), sv_history_file = []\<rparr>"

theorem tick_expires_witness:
  "\<exists>s' ex. Tick sample_mktime (6 * 10 ^ 9) (sample_server [sample_event 7 [1], sample_event 5 [2]]) = Inr s'
     \<and> mset (sv_events s') = {#sample_event 7 [1]#} \<and> mset ex = {#sample_event 5 [2]#} \<and> sv_old s' = ex"
  using tick_expires [of "sample_server [sample_event 7 [1], sample_event 5 [2]]" sample_mktime "6 * 10 ^ 9"]
  by (auto simp: sample_server_def in_range_def expired_def sample_timestamp)

text \<open>An event is loaded, another expires, and both files are written.\<close>

theorem server_loses_nothing_witness:
  "\<exists>s' b. server_run sample_mktime sample_localtime
       ((sample_server [sample_event 5 [2]])\<lparr>sv_unloaded := [sample_event 7 [1]]\<rparr>) [Load, Clock (6 * 10 ^ 9), Save Written Written] s'
     \<and> sv_history_file s' = SaveOld sample_mktime Written b []
     \<and> mset (sv_unloaded s') + mset (sv_events s') + mset (sv_old s') + mset b = {#sample_event 7 [1], sample_event 5 [2]#}
     \<and> sv_old s' = []"
proof -
  let ?start = "(sample_server [sample_event 5 [2]])\<lparr>sv_unloaded := [sample_event 7 [1]]\<rparr>"
  let ?s = "(sample_server [sample_event 5 [2]])\<lparr>sv_events := [sample_event 5 [2], sample_event 7 [1]]\<rparr>"
  let ?s1 = "?s\<lparr>sv_events := [sample_event 7 [1]], sv_old := [sample_event 5 [2]], sv_make_snapshot := True\<rparr>"
  have push: "Start_push ?start = ?s" by (simp add: sample_server_def pq_push_def)
  have tick: "Tick sample_mktime (6 * 10 ^ 9) ?s = Inr ?s1"
    by (simp add: sample_server_def Tick_def tick_loop.simps pq_pop_def SoonerCmp_def sample_timestamp
        event_timepoint_def sample_event_inject)
  obtain s2 where s2: "Snapshot sample_mktime Written Written ?s1 = Inr s2"
    by (simp add: Snapshot_def SaveCurrentEvents_def pq_pop_def)
  have "server_run sample_mktime sample_localtime ?start ([] @ [Load]) ?s"
    by (rule server_run.step [OF server_run.init]) (use server_step.load [of ?start] push in simp)
  then have "server_run sample_mktime sample_localtime ?start (([] @ [Load]) @ [Clock (6 * 10 ^ 9)]) ?s1"
    by (rule server_run.step [OF _ server_step.clock [OF tick]])
  then have run: "server_run sample_mktime sample_localtime ?start ((([] @ [Load]) @ [Clock (6 * 10 ^ 9)]) @ [Save Written Written]) s2"
    by (rule server_run.step) (rule server_step.save, simp, rule s2)
  have "\<not> sv_make_snapshot s2" using s2 by (auto simp: Snapshot_def fault_simps)
  then have "sv_old s2 = []" using server_loses_nothing [OF run] by (auto simp: Cons_eq_append_conv)
  moreover obtain batches where "sv_history_file s2 = SaveOld sample_mktime Written (concat batches) []"
    "mset (sv_unloaded s2) + mset (sv_events s2) + mset (sv_old s2) + mset (concat batches) = {#sample_event 7 [1], sample_event 5 [2]#}"
    using server_loses_nothing [OF run, THEN conjunct1] by (auto simp: sample_server_def add_mset_commute)
  ultimately show ?thesis using run by (intro exI [of _ s2] exI [of _ "concat batches"]) simp
qed

end
