(* ===== verification/Psycal_Client.thy ===== *)
theory Psycal_Client
  imports Psycal_Server
begin

text \<open>
  The rest of the calendar: the application's directories (\<^verbatim>\<open>common/xdg.cc\<close>, \<^verbatim>\<open>common/filesystem.cc\<close>,
  \<^verbatim>\<open>psycal/utils.cc\<close>), the time stamps a user types, the session with its options (\<^verbatim>\<open>psycal/session.cc\<close>) and
  \<open>main\<close>; then what an event goes through from the command line to the server's queue.
\<close>

section \<open>Application paths\<close>

text \<open>\<open>operator/\<close> of paths, which are strings; an environment variable may be missing.\<close>

definition path_append :: "string \<Rightarrow> string \<Rightarrow> string" where
  "path_append p q =
     (if q \<noteq> [] \<and> hd q = CHR ''/'' then q
      else if p = [] \<or> List.last p = CHR ''/'' then p @ q
      else p @ ''/'' @ q)"

definition GetHomePath :: "string option \<Rightarrow> string option" where
  "GetHomePath home = home"

definition GetConfigPath :: "string option \<Rightarrow> string option" where
  "GetConfigPath home = map_option (\<lambda>p. path_append p ''.config'') (GetHomePath home)"

definition MakeApplicationPath :: "string option \<Rightarrow> string \<Rightarrow> string option" where
  "MakeApplicationPath home app = map_option (\<lambda>p. path_append p app) (GetConfigPath home)"

definition kApplicationName :: string where
  "kApplicationName = ''psycal''"

definition ApplicationPath :: "string option \<Rightarrow> string result" where
  "ApplicationPath home =
     (case MakeApplicationPath home kApplicationName of
        None \<Rightarrow> Inl (Thrown ''bad_optional_access'')
      | Some p \<Rightarrow> Inr p)"

definition HistoryFilePath :: "string option \<Rightarrow> string result" where
  "HistoryFilePath home = rmap (\<lambda>p. path_append p ''history.psycal'') (ApplicationPath home)"

definition EventsFilePath :: "string option \<Rightarrow> string result" where
  "EventsFilePath home = rmap (\<lambda>p. path_append p ''events.psycal'') (ApplicationPath home)"

text \<open>
  The directories there are. \<open>create_directories\<close> makes a path and what is missing above it, in that order, where
  the system lets it (\<open>mkdir\<close>); otherwise it throws.
\<close>

definition ancestors :: "string \<Rightarrow> string list" where
  "ancestors p = [take i p. i \<leftarrow> [1..<length p], p ! i = CHR ''/'' \<and> p ! (i - 1) \<noteq> CHR ''/''] @ [p]"

definition DirExists :: "string \<Rightarrow> string list \<Rightarrow> bool" where
  "DirExists p dirs \<longleftrightarrow> p \<in> set dirs"

fun make_missing :: "(string \<Rightarrow> bool) \<Rightarrow> string list \<Rightarrow> string list \<Rightarrow> string list result" where
  "make_missing mkdir [] dirs = Inr dirs"
| "make_missing mkdir (p # ps) dirs =
     (if p \<in> set dirs then make_missing mkdir ps dirs
      else if mkdir p then make_missing mkdir ps (dirs @ [p])
      else Inl (Thrown ''filesystem_error''))"

datatype Result = Ok | Error

definition MkdirP :: "(string \<Rightarrow> bool) \<Rightarrow> string \<Rightarrow> string list \<Rightarrow> (Result \<times> string list) result" where
  "MkdirP mkdir p dirs =
     rmap (Pair (if p \<in> set dirs then Error else Ok)) (make_missing mkdir (ancestors p) dirs)"

datatype CreateAppDirStatus = OkCreate | OkExists | ErrGenConfigPath | ErrGeneral

definition CreateApplicationDirectories ::
  "string option \<Rightarrow> (string \<Rightarrow> bool) \<Rightarrow> string list \<Rightarrow> (CreateAppDirStatus \<times> string list) result"
where
  "CreateApplicationDirectories home mkdir dirs =
     (case MakeApplicationPath home kApplicationName of
        None \<Rightarrow> Inr (ErrGenConfigPath, dirs)
      | Some app_path \<Rightarrow>
          if DirExists app_path dirs then Inr (OkExists, dirs)
          else rmap (\<lambda>(_, dirs). (OkCreate, dirs)) (MkdirP mkdir app_path dirs))"

lemma make_missing_all:
  "(\<And>p. p \<in> set ps \<Longrightarrow> mkdir p) \<Longrightarrow>
   \<exists>new. make_missing mkdir ps dirs = Inr (dirs @ new) \<and> set ps \<subseteq> set dirs \<union> set new \<and> set new \<subseteq> set ps - set dirs"
proof (induction ps arbitrary: dirs)
  case (Cons p ps)
  show ?case
  proof (cases "p \<in> set dirs")
    case True
    then show ?thesis using Cons.IH [of dirs] Cons.prems by fastforce
  next
    case False
    obtain new where "make_missing mkdir ps (dirs @ [p]) = Inr ((dirs @ [p]) @ new)"
      "set ps \<subseteq> set (dirs @ [p]) \<union> set new" "set new \<subseteq> set ps - set (dirs @ [p])"
      using Cons.IH [of "dirs @ [p]"] Cons.prems by auto
    then show ?thesis using False Cons.prems by (intro exI [of _ "p # new"]) auto
  qed
qed simp

lemma create_then_exists:
  assumes "\<And>p. mkdir p"
  shows "\<exists>new. CreateApplicationDirectories (Some h) mkdir dirs =
      Inr (if DirExists (path_append (path_append h ''.config'') kApplicationName) dirs then OkExists else OkCreate, dirs @ new)
    \<and> CreateApplicationDirectories (Some h) mkdir (dirs @ new) = Inr (OkExists, dirs @ new)"
proof -
  let ?p = "path_append (path_append h ''.config'') kApplicationName"
  show ?thesis
  proof (cases "?p \<in> set dirs")
    case True
    then show ?thesis
      by (intro exI [of _ "[]"])
        (simp add: CreateApplicationDirectories_def MakeApplicationPath_def GetConfigPath_def GetHomePath_def DirExists_def)
  next
    case False
    obtain new where new: "make_missing mkdir (ancestors ?p) dirs = Inr (dirs @ new)"
      "set (ancestors ?p) \<subseteq> set dirs \<union> set new" using make_missing_all [of "ancestors ?p" mkdir dirs] assms by blast
    have "?p \<in> set (ancestors ?p)" by (simp add: ancestors_def)
    then have "?p \<in> set dirs \<union> set new" using new(2) by blast
    then show ?thesis using False new(1)
      by (intro exI [of _ new])
        (auto simp: CreateApplicationDirectories_def MakeApplicationPath_def GetConfigPath_def GetHomePath_def DirExists_def MkdirP_def)
  qed
qed

section \<open>Time stamps\<close>

text \<open>
  \<open>strptime\<close> for the directives used here, as the C library reads them: blanks, then at most \<open>n\<close> digits, and no
  further digit once ten times the value is more than the largest value allowed. The fields read before a failure
  stay in the structure. \<open>xday\<close> stands for the week day and the day of the year that the library may derive from a
  date.
\<close>

definition digit :: "char \<Rightarrow> nat" where
  "digit c = ascii c - 48"

fun number_digits :: "nat \<Rightarrow> nat \<Rightarrow> nat \<Rightarrow> string \<Rightarrow> nat \<times> string" where
  "number_digits (Suc n) hi v (c # s) =
     (if v * 10 \<le> hi \<and> is_digit c then number_digits n hi (v * 10 + digit c) s else (v, c # s))"
| "number_digits n hi v s = (v, s)"

definition get_number :: "nat \<Rightarrow> nat \<Rightarrow> nat \<Rightarrow> string \<Rightarrow> (nat \<times> string) option" where
  "get_number lo hi n s =
     (case dropWhile (\<lambda>c. c = CHR '' '') s of
        [] \<Rightarrow> None
      | c # s \<Rightarrow>
          if \<not> is_digit c then None
          else
            let (v, rest) = number_digits (n - 1) hi (digit c) s
            in if v < lo \<or> hi < v then None else Some (v, rest))"

definition read_field :: "char \<Rightarrow> string \<Rightarrow> tm \<Rightarrow> (tm \<times> string) option" where
  "read_field f s t =
     (if f = CHR ''H'' then map_option (\<lambda>(v, s). (t\<lparr>tm_hour := int v\<rparr>, s)) (get_number 0 23 2 s)
      else if f = CHR ''M'' then map_option (\<lambda>(v, s). (t\<lparr>tm_min := int v\<rparr>, s)) (get_number 0 59 2 s)
      else if f = CHR ''Y'' then map_option (\<lambda>(v, s). (t\<lparr>tm_year := int v - 1900\<rparr>, s)) (get_number 0 9999 4 s)
      else if f = CHR ''m'' then map_option (\<lambda>(v, s). (t\<lparr>tm_mon := int v - 1\<rparr>, s)) (get_number 1 12 2 s)
      else if f = CHR ''d'' then map_option (\<lambda>(v, s). (t\<lparr>tm_mday := int v\<rparr>, s)) (get_number 1 31 2 s)
      else None)"

fun strptime_fields :: "string \<Rightarrow> string \<Rightarrow> tm \<Rightarrow> string option \<times> tm" where
  "strptime_fields [] s t = (Some s, t)"
| "strptime_fields (c # fmt) s t =
     (if c = CHR ''%'' then
        (case fmt of
           [] \<Rightarrow> (None, t)
         | f # fmt \<Rightarrow> (case read_field f s t of None \<Rightarrow> (None, t) | Some (t, s) \<Rightarrow> strptime_fields fmt s t))
      else if s \<noteq> [] \<and> hd s = c then strptime_fields fmt (tl s) t
      else (None, t))"

definition strptime :: "(tm \<Rightarrow> tm) \<Rightarrow> string \<Rightarrow> string \<Rightarrow> tm \<Rightarrow> string option \<times> tm" where
  "strptime xday s fmt t =
     (case strptime_fields fmt s t of
        (None, t) \<Rightarrow> (None, t)
      | (Some rest, t) \<Rightarrow> (Some rest, if list_ex (\<lambda>c. c \<in> {CHR ''Y'', CHR ''m'', CHR ''d''}) fmt then xday t else t))"

definition zero_tm :: tm where
  "zero_tm = \<lparr>tm_sec = 0, tm_min = 0, tm_hour = 0, tm_mday = 0, tm_mon = 0, tm_year = 0, tm_wday = 0, tm_yday = 0, tm_isdst = 0\<rparr>"

text \<open>\<open>ProcessTimestamp\<close>; \<open>merge\<close> is the local time now.\<close>

definition ProcessTimestamp :: "(tm \<Rightarrow> tm) \<Rightarrow> tm \<Rightarrow> string \<Rightarrow> tm option" where
  "ProcessTimestamp xday merge timestamp =
     (case strptime xday timestamp ''%Hh%M'' zero_tm of
        (Some _, t) \<Rightarrow> Some (merge\<lparr>tm_hour := tm_hour t, tm_min := tm_min t, tm_sec := 0\<rparr>)
      | (None, t) \<Rightarrow>
          (case strptime xday timestamp ''%Y-%m-%dT%Hh%M'' t of
             (Some _, t) \<Rightarrow> Some t
           | (None, _) \<Rightarrow> None))"

subsection \<open>Reading a number\<close>

definition ends_number :: "string \<Rightarrow> bool" where
  "ends_number s \<longleftrightarrow> s = [] \<or> \<not> is_digit (hd s)"

lemma time_digit_char: "d < 10 \<Longrightarrow> is_digit (digit_char d) \<and> digit (digit_char d) = d \<and> digit_char d \<noteq> CHR '' ''"
proof -
  assume d: "d < 10"
  then have a: "ascii (digit_char d) = 48 + d" by (simp add: digit_char_ascii)
  moreover have "ascii (CHR '' '') = 32" by (simp add: ascii_def)
  ultimately show ?thesis using d by (auto simp: is_digit_def digit_def)
qed

lemma number_digits_in:
  "(\<And>d. d \<in> set ds \<Longrightarrow> d < 10) \<Longrightarrow> v * 10 ^ length ds + horner 10 ds \<le> hi \<Longrightarrow> length ds \<le> n \<Longrightarrow> ends_number s \<Longrightarrow>
   number_digits n hi v (map digit_char ds @ s) = (v * 10 ^ length ds + horner 10 ds, s)"
proof (induction ds arbitrary: v n)
  case Nil
  then show ?case by (cases n; cases s) (auto simp: ends_number_def)
next
  case (Cons d ds)
  obtain m where n: "n = Suc m" using Cons.prems(3) by (cases n) auto
  have d: "is_digit (digit_char d)" "digit (digit_char d) = d" using time_digit_char [of d] Cons.prems(1) by auto
  have hi: "(v * 10 + d) * 10 ^ length ds + horner 10 ds \<le> hi"
    using Cons.prems(2) by (simp add: horner_Cons algebra_simps)
  have "v * 10 \<le> (v * 10 + d) * 1" by simp
  also have "\<dots> \<le> (v * 10 + d) * 10 ^ length ds" by (intro mult_left_mono) auto
  finally have "v * 10 \<le> hi" using hi by linarith
  then show ?case using n d Cons.IH [of "v * 10 + d" m] Cons.prems hi
    by (simp add: horner_Cons algebra_simps)
qed

lemma get_number_print:
  assumes "lo \<le> v" "v \<le> hi" "v < 10 ^ n" "0 < n" "ends_number s"
  shows "get_number lo hi n (print_nat 10 v @ s) = Some (v, s)"
proof -
  have small: "d < 10" if "d \<in> set (to_digits 10 v)" for d using to_digits_less [of 10 d v] that by simp
  obtain d ds where ds: "to_digits 10 v = d # ds"
    using print_nat_not_Nil [of 10 v] by (cases "to_digits 10 v") (auto simp: print_nat_def)
  have val: "d * 10 ^ length ds + horner 10 ds = v"
    using horner_to_digits [of 10 v] by (simp add: ds horner_Cons)
  have len: "length ds \<le> n - 1" using length_to_digits [of 10 v n] assms(3,4) by (simp add: ds)
  have d: "is_digit (digit_char d)" "digit (digit_char d) = d" "digit_char d \<noteq> CHR '' ''"
    using time_digit_char [of d] small by (auto simp: ds)
  have "number_digits (n - 1) hi d (map digit_char ds @ s) = (v, s)"
    using number_digits_in [of ds d hi "n - 1" s] small len val assms by (simp add: ds)
  then show ?thesis using d assms by (simp add: get_number_def print_nat_def ds)
qed

lemma strptime_number:
  "read_field f s t = Some (t', s') \<Longrightarrow> strptime_fields (CHR ''%'' # f # fmt) s t = strptime_fields fmt s' t'"
  "read_field f s t = None \<Longrightarrow> strptime_fields (CHR ''%'' # f # fmt) s t = (None, t)"
  "c \<noteq> CHR ''%'' \<Longrightarrow> strptime_fields (c # fmt) (c # s) t = strptime_fields fmt s t"
  by simp_all

lemma ProcessTimestamp_cases:
  "strptime_fields ''%Hh%M'' s zero_tm = (Some r, t) \<Longrightarrow>
   ProcessTimestamp xday now s = Some (now\<lparr>tm_hour := tm_hour t, tm_min := tm_min t, tm_sec := 0\<rparr>)"
  "strptime_fields ''%Hh%M'' s zero_tm = (None, t) \<Longrightarrow> strptime_fields ''%Y-%m-%dT%Hh%M'' s t = (Some r, t') \<Longrightarrow>
   ProcessTimestamp xday now s = Some (xday t')"
  "strptime_fields ''%Hh%M'' s zero_tm = (None, t) \<Longrightarrow> strptime_fields ''%Y-%m-%dT%Hh%M'' s t = (None, t') \<Longrightarrow>
   ProcessTimestamp xday now s = None"
  by (simp_all add: ProcessTimestamp_def strptime_def del: strptime_fields.simps)

text \<open>Any number read from a printed one: what it leaves is the end of its digits, nothing only if it is the number.\<close>

lemma number_digits_any:
  "(\<And>d. d \<in> set ds \<Longrightarrow> d < 10) \<Longrightarrow> ends_number s \<Longrightarrow>
   \<exists>v' es. number_digits n hi v (map digit_char ds @ s) = (v', es @ s) \<and> set es \<subseteq> Collect is_digit
     \<and> (es = [] \<longrightarrow> v' = v * 10 ^ length ds + horner 10 ds)"
proof (induction ds arbitrary: v n)
  case Nil
  then show ?case by (cases n; cases s) (auto simp: ends_number_def)
next
  case (Cons d ds)
  have d: "is_digit (digit_char d)" "digit (digit_char d) = d" using time_digit_char [of d] Cons.prems(1) by auto
  show ?case
  proof (cases "n = 0 \<or> \<not> v * 10 \<le> hi")
    case True
    then have "number_digits n hi v (map digit_char (d # ds) @ s) = (v, map digit_char (d # ds) @ s)" by (cases n) auto
    moreover have "set (map digit_char (d # ds)) \<subseteq> Collect is_digit" using Cons.prems(1) time_digit_char by auto
    ultimately show ?thesis by blast
  next
    case False
    then obtain m where "n = Suc m" by (cases n) auto
    moreover obtain v' es where "number_digits m hi (v * 10 + d) (map digit_char ds @ s) = (v', es @ s)"
      "set es \<subseteq> Collect is_digit" "es = [] \<longrightarrow> v' = (v * 10 + d) * 10 ^ length ds + horner 10 ds"
      using Cons.IH [of m "v * 10 + d"] Cons.prems by auto
    ultimately show ?thesis using False d
      by (intro exI [of _ v'] exI [of _ es]) (simp add: horner_Cons algebra_simps)
  qed
qed

lemma get_number_any:
  assumes "ends_number s" and "get_number lo hi n (print_nat 10 x @ s) = Some (v, rest)"
  obtains es where "rest = es @ s" "set es \<subseteq> Collect is_digit" "v \<le> hi" "es = [] \<Longrightarrow> v = x"
proof -
  have small: "d < 10" if "d \<in> set (to_digits 10 x)" for d using to_digits_less [of 10 d x] that by simp
  obtain d ds where ds: "to_digits 10 x = d # ds"
    using print_nat_not_Nil [of 10 x] by (cases "to_digits 10 x") (auto simp: print_nat_def)
  have d: "is_digit (digit_char d)" "digit (digit_char d) = d" "digit_char d \<noteq> CHR '' ''"
    using time_digit_char [of d] small by (auto simp: ds)
  have val: "d * 10 ^ length ds + horner 10 ds = x"
    using horner_to_digits [of 10 x] by (simp add: ds horner_Cons)
  obtain v' es where es: "number_digits (n - 1) hi d (map digit_char ds @ s) = (v', es @ s)"
    "set es \<subseteq> Collect is_digit" "es = [] \<longrightarrow> v' = d * 10 ^ length ds + horner 10 ds"
    using number_digits_any [of ds s "n - 1" hi d] small assms(1) ds by auto
  then have "v = v'" "rest = es @ s" "v \<le> hi"
    using assms(2) d by (auto simp: get_number_def print_nat_def ds Let_def split: if_splits)
  then show ?thesis using es val by (intro that [of es]) auto
qed

lemma read_digits_stop:
  assumes "ends_number s" "get_number lo hi n (print_nat 10 x @ s) = Some (v, rest)" "\<not> is_digit c" "s \<noteq> []" "hd s \<noteq> c"
  shows "rest \<noteq> [] \<and> hd rest \<noteq> c"
  using get_number_any [OF assms(1,2)] assms(3-5) by (metis append_is_Nil_conv hd_append2 hd_in_set mem_Collect_eq self_append_conv2 subsetD)

lemma to_digits_two:
  assumes "10 \<le> m" "m < 100"
  shows "to_digits 10 m = [m div 10, m mod 10]"
proof -
  have "m div 10 < 10" using assms by presburger
  then show ?thesis using assms by (simp add: to_digits.simps [of 10 m] to_digits.simps [of 10 "m div 10"])
qed

text \<open>Minutes from 60 on: the second digit is left.\<close>

lemma get_number_minutes:
  assumes "60 \<le> m" "m < 100"
  shows "get_number 0 59 2 (print_nat 10 m) = Some (m div 10, [digit_char (m mod 10)])"
proof -
  have d: "is_digit (digit_char (m div 10))" "digit (digit_char (m div 10)) = m div 10" "digit_char (m div 10) \<noteq> CHR '' ''"
    using time_digit_char [of "m div 10"] assms by auto
  have "59 < m div 10 * 10" using assms by presburger
  then have "number_digits 1 59 (m div 10) [digit_char (m mod 10)] = (m div 10, [digit_char (m mod 10)])"
    by simp
  then show ?thesis using d assms by (simp add: get_number_def print_nat_def to_digits_two)
qed

lemma chars_not_digit: "\<not> is_digit (CHR ''h'')" "\<not> is_digit (CHR ''-'')" "\<not> is_digit (CHR ''T'')"
  by (simp_all add: is_digit_def ascii_def)

text \<open>a time of the day, printed as an hour, the letter h and a number of minutes below a hundred, is accepted
  exactly when the hour is below 24, and gives the present day with that hour; of sixty and more minutes only the
  first digit counts.\<close>

theorem short_time:
  assumes "m < 100"
  shows "ProcessTimestamp xday now (print_nat 10 h @ ''h'' @ print_nat 10 m) =
    (if h < 24
     then Some (now\<lparr>tm_hour := int h, tm_min := int (if m < 60 then m else m div 10), tm_sec := 0\<rparr>)
     else None)"
proof -
  let ?s = "''h'' @ print_nat 10 m"
  have ends: "ends_number ?s" by (simp add: ends_number_def chars_not_digit)
  have h_fields: "strptime_fields ''%Hh%M'' (print_nat 10 h @ ?s) t =
      (case get_number 0 23 2 (print_nat 10 h @ ?s) of None \<Rightarrow> (None, t)
       | Some (v, s) \<Rightarrow> strptime_fields ''h%M'' s (t\<lparr>tm_hour := int v\<rparr>))" for t
    by (simp add: read_field_def split: option.split)
  show ?thesis
  proof (cases "h < 24")
    case True
    define t where "t = zero_tm\<lparr>tm_hour := int h, tm_min := int (if m < 60 then m else m div 10)\<rparr>"
    have m: "\<exists>r. get_number 0 59 2 (print_nat 10 m) = Some (if m < 60 then m else m div 10, r)"
      using get_number_print [of 0 m 59 2 "[]"] get_number_minutes [of m] assms by (simp add: ends_number_def)
    have "get_number 0 23 2 (print_nat 10 h @ ?s) = Some (h, ?s)"
      using get_number_print [of 0 h 23 2 ?s] ends True by simp
    then have "\<exists>r. strptime_fields ''%Hh%M'' (print_nat 10 h @ ?s) zero_tm = (Some r, t)"
      unfolding h_fields using m by (auto simp: read_field_def t_def)
    then obtain r where "strptime_fields ''%Hh%M'' (print_nat 10 h @ ?s) zero_tm = (Some r, t)" ..
    from ProcessTimestamp_cases(1) [OF this] show ?thesis using True by (simp add: t_def)
  next
    case False
    obtain t where t: "strptime_fields ''%Hh%M'' (print_nat 10 h @ ?s) zero_tm = (None, t)"
    proof (cases "get_number 0 23 2 (print_nat 10 h @ ?s)")
      case None
      then show ?thesis using that unfolding h_fields by simp
    next
      case (Some r)
      obtain v rest where r: "r = (v, rest)" by fastforce
      obtain es where es: "rest = es @ ?s" "set es \<subseteq> Collect is_digit" "v \<le> 23" "es = [] \<longrightarrow> v = h"
        by (rule get_number_any [OF ends Some [unfolded r]]) blast
      have "es \<noteq> []" using es(3,4) False by auto
      then have "hd rest \<noteq> CHR ''h''" using chars_not_digit(1) es(1,2) by (cases es) auto
      then have "strptime_fields ''h%M'' rest (zero_tm\<lparr>tm_hour := int v\<rparr>) = (None, zero_tm\<lparr>tm_hour := int v\<rparr>)"
        by simp
      then show ?thesis by (intro that) (simp only: h_fields Some r option.case prod.case)
    qed
    have "\<exists>t'. strptime_fields ''%Y-%m-%dT%Hh%M'' (print_nat 10 h @ ?s) t = (None, t')"
    proof (cases "get_number 0 9999 4 (print_nat 10 h @ ?s)")
      case (Some r)
      obtain v rest where r: "r = (v, rest)" by fastforce
      have "hd rest \<noteq> CHR ''-''"
        using read_digits_stop [OF ends Some [unfolded r] chars_not_digit(2)] by simp
      then show ?thesis using Some r by (simp add: read_field_def)
    qed (simp add: read_field_def)

    then obtain t' where "strptime_fields ''%Y-%m-%dT%Hh%M'' (print_nat 10 h @ ?s) t = (None, t')" by blast
    with t have "ProcessTimestamp xday now (print_nat 10 h @ ?s) = None" by (rule ProcessTimestamp_cases(3))
    then show ?thesis using False by simp
  qed
qed

text \<open>a full time stamp, printed with a year of at most four digits and a month, day, hour and minute in
  their ranges, is accepted, whatever follows it, with exactly these fields; the structure says that daylight saving
  time is not in effect, also where it is.\<close>

theorem long_time:
  assumes "y < 10000" "1 \<le> mo" "mo \<le> 12" "1 \<le> d" "d \<le> 31" "h < 24" "mi < 60" "ends_number rest"
  shows "ProcessTimestamp xday now
      (print_nat 10 y @ ''-'' @ print_nat 10 mo @ ''-'' @ print_nat 10 d @ ''T'' @ print_nat 10 h @ ''h'' @ print_nat 10 mi @ rest) =
    Some (xday \<lparr>tm_sec = 0, tm_min = int mi, tm_hour = int h, tm_mday = int d, tm_mon = int mo - 1,
      tm_year = int y - 1900, tm_wday = 0, tm_yday = 0, tm_isdst = 0\<rparr>)"
proof -
  define s5 where "s5 = print_nat 10 mi @ rest"
  define s4 where "s4 = print_nat 10 h @ ''h'' @ s5"
  define s3 where "s3 = print_nat 10 d @ ''T'' @ s4"
  define s2 where "s2 = print_nat 10 mo @ ''-'' @ s3"
  define s1 where "s1 = print_nat 10 y @ ''-'' @ s2"
  have ends: "ends_number (''-'' @ s)" "ends_number (''T'' @ s)" "ends_number (''h'' @ s)" for s
    by (simp_all add: ends_number_def chars_not_digit)
  have short: "\<exists>v. strptime_fields ''%Hh%M'' s1 zero_tm = (None, zero_tm\<lparr>tm_hour := v\<rparr>)"
  proof (cases "get_number 0 23 2 s1")
    case None
    then have "read_field CHR ''H'' s1 zero_tm = None" by (simp add: read_field_def)
    then have "strptime_fields ''%Hh%M'' s1 zero_tm = (None, zero_tm)" by (rule strptime_number(2))
    then show ?thesis by (intro exI [of _ 0]) (simp add: zero_tm_def)
  next
    case (Some r)
    obtain v s where r: "r = (v, s)" by fastforce
    have "s \<noteq> [] \<and> hd s \<noteq> CHR ''h''"
      using read_digits_stop [OF ends(1) Some [unfolded r s1_def] chars_not_digit(1)] by simp
    moreover have "read_field CHR ''H'' s1 zero_tm = Some (zero_tm\<lparr>tm_hour := int v\<rparr>, s)"
      using Some r by (simp add: read_field_def)
    ultimately show ?thesis using strptime_number(1) [of "CHR ''H''" s1 zero_tm] by auto
  qed
  have fields:
    "read_field CHR ''Y'' s1 t = Some (t\<lparr>tm_year := int y - 1900\<rparr>, CHR ''-'' # s2)"
    "read_field CHR ''m'' s2 t = Some (t\<lparr>tm_mon := int mo - 1\<rparr>, CHR ''-'' # s3)"
    "read_field CHR ''d'' s3 t = Some (t\<lparr>tm_mday := int d\<rparr>, CHR ''T'' # s4)"
    "read_field CHR ''H'' s4 t = Some (t\<lparr>tm_hour := int h\<rparr>, CHR ''h'' # s5)"
    "read_field CHR ''M'' s5 t = Some (t\<lparr>tm_min := int mi\<rparr>, rest)" for t
    using get_number_print [of 0 y 9999 4 "''-'' @ s2"] get_number_print [of 1 mo 12 2 "''-'' @ s3"]
      get_number_print [of 1 d 31 2 "''T'' @ s4"] get_number_print [of 0 h 23 2 "''h'' @ s5"]
      get_number_print [of 0 mi 59 2 rest] assms ends
    by (simp_all add: read_field_def s1_def s2_def s3_def s4_def s5_def)
  have "strptime_fields ''%Y-%m-%dT%Hh%M'' s1 t = (Some rest,
      t\<lparr>tm_year := int y - 1900, tm_mon := int mo - 1, tm_mday := int d, tm_hour := int h, tm_min := int mi\<rparr>)" for t
    by (simp add: strptime_number fields del: strptime_fields.simps(2))
  note long = this
  obtain v where v: "strptime_fields ''%Hh%M'' s1 zero_tm = (None, zero_tm\<lparr>tm_hour := v\<rparr>)" using short by blast
  have "ProcessTimestamp xday now s1 = Some (xday (zero_tm\<lparr>tm_year := int y - 1900, tm_mon := int mo - 1,
      tm_mday := int d, tm_hour := int h, tm_min := int mi\<rparr>))"
    using ProcessTimestamp_cases(2) [OF v long] by (simp add: zero_tm_def)
  then show ?thesis unfolding s1_def s2_def s3_def s4_def s5_def by (simp add: zero_tm_def)
qed

section \<open>Session\<close>

record Session =
  foreground :: bool
  timestamp :: int
  maybe_timestamp :: "tm option"
  server_mode :: bool
  session_port :: u16
  session_host :: string
  dump_filepath :: string
  old_events_file :: string
  upcoming_events_file :: string

text \<open>\<open>MakeDirs\<close> chooses a message from the status and drops it.\<close>

definition MakeDirs :: "string option \<Rightarrow> (string \<Rightarrow> bool) \<Rightarrow> string list \<Rightarrow> string list result" where
  "MakeDirs home mkdir dirs = rmap snd (CreateApplicationDirectories home mkdir dirs)"

definition mk_session :: "string option \<Rightarrow> (string \<Rightarrow> bool) \<Rightarrow> string list \<Rightarrow> (Session \<times> string list) result" where
  "mk_session home mkdir dirs =
     rmap (Pair \<lparr>foreground = False, timestamp = 0, maybe_timestamp = None, server_mode = False, session_port = 9995,
       session_host = ''127.0.0.1'', dump_filepath = [], old_events_file = [], upcoming_events_file = []\<rparr>)
       (MakeDirs home mkdir dirs)"

text \<open>A number is extracted only where the stream has something other than white space.\<close>

definition PortStrIntoInt :: "string option \<Rightarrow> Session \<Rightarrow> Session result" where
  "PortStrIntoInt opt s =
     rmap (\<lambda>ss. if skip_space ss = [] then s else s\<lparr>session_port := of_nat (extract_unsigned 16 10 ss)\<rparr>) (deref opt)"

definition SendEvent ::
  "(tm \<Rightarrow> int) \<Rightarrow> (bytes \<Rightarrow> int) \<Rightarrow> int \<Rightarrow> bytes \<Rightarrow> event \<Rightarrow> Session \<Rightarrow> (bytes \<times> UDPClient) result"
where
  "SendEvent mktime sendto fd heap e s =
     (let buffer = IntoBuffer mktime [e]; client = mk_client fd (session_host s) (session_port s)
      in Send sendto (buffer @ heap) client)"

definition DumpEvents ::
  "(tm \<Rightarrow> int) \<Rightarrow> (int \<Rightarrow> tm) \<Rightarrow> (u64 \<Rightarrow> bool) \<Rightarrow> (nat \<Rightarrow> bytes) \<Rightarrow> (string \<Rightarrow> bytes) \<Rightarrow> string \<Rightarrow> string result"
where
  "DumpEvents mktime localtime new_ok heap files path =
     rmap (\<lambda>events. ''contents of: '' @ path @ [CHR 0x0A] @ concat (map (\<lambda>e.
         print_nat 10 (unat (GetUnixTimestamp mktime e)) @ '':'' @ map char_of_byte (ev_message e) @ [CHR 0x0A]) events))
       (ReadEventsFrom localtime new_ok heap 0 (files path))"

section \<open>The program\<close>

text \<open>What a run comes to: an exit status, the server on a port, the text of a dump, or the datagram sent.\<close>

datatype run_end = Status int | Serve u16 | Dumped string | Sent bytes

text \<open>An option, unless it ends the program.\<close>

definition psycal_option ::
  "(tm \<Rightarrow> tm) \<Rightarrow> tm \<Rightarrow> char \<times> string option \<Rightarrow> Session \<Rightarrow> (run_end + Session) result"
where
  "psycal_option xday now oa s =
     (let (opt, optarg) = oa in
      if opt = CHR ''p'' then rmap Inr (PortStrIntoInt optarg s)
      else if opt = CHR ''s'' then Inr (Inr (s\<lparr>server_mode := True\<rparr>))
      else if opt = CHR ''d'' then Inr (Inr (s\<lparr>foreground := False\<rparr>))
      else if opt = CHR ''f'' then Inr (Inr (s\<lparr>foreground := True\<rparr>))
      else if opt = CHR ''t'' then rmap (\<lambda>a. Inr (s\<lparr>maybe_timestamp := ProcessTimestamp xday now a\<rparr>)) (deref optarg)
      else if opt = CHR ''h'' then Inr (Inl (Status 0))
      else if opt = CHR ''x'' then rmap (\<lambda>a. Inr (s\<lparr>dump_filepath := a\<rparr>)) (deref optarg)
      else Inr (Inl (Status 1)))"

fun psycal_options ::
  "(tm \<Rightarrow> tm) \<Rightarrow> tm \<Rightarrow> (char \<times> string option) list \<Rightarrow> Session \<Rightarrow> (run_end + Session) result"
where
  "psycal_options xday now [] s = Inr (Inr s)"
| "psycal_options xday now (oa # oas) s =
     rbind (psycal_option xday now oa s) (\<lambda>r.
       case r of Inl e \<Rightarrow> Inr (Inl e) | Inr s \<Rightarrow> psycal_options xday now oas s)"

definition kOptions :: string where
  "kOptions = ''x:pshft:''"

text \<open>
  \<open>main\<close> for the words behind the program's name. The host gives its time functions, the socket and what is sent
  on it, the memory behind the vector that is sent, the directories and the files.
\<close>

record host_system =
  h_mktime :: "tm \<Rightarrow> int"
  h_localtime :: "int \<Rightarrow> tm"
  h_xday :: "tm \<Rightarrow> tm"
  h_now :: tm
  h_sendto :: "bytes \<Rightarrow> int"
  h_socket :: int
  h_heap :: bytes
  h_new_ok :: "u64 \<Rightarrow> bool"
  h_read_heap :: "nat \<Rightarrow> bytes"
  h_home :: "string option"
  h_mkdir :: "string \<Rightarrow> bool"
  h_files :: "string \<Rightarrow> bytes"

definition psycal_main :: "host_system \<Rightarrow> string list \<Rightarrow> string list \<Rightarrow> run_end result" where
  "psycal_main h dirs args =
     rbind (CreateApplicationDirectories (h_home h) (h_mkdir h) dirs) (\<lambda>(_, dirs).
     rbind (mk_session (h_home h) (h_mkdir h) dirs) (\<lambda>(session, dirs).
       if args = [] then Inr (Status 0)
       else
         let (oas, operands) = getopt kOptions [] args in
         rbind (psycal_options (h_xday h) (h_now h) oas session) (\<lambda>r.
           case r of
             Inl e \<Rightarrow> Inr e
           | Inr session \<Rightarrow>
               if server_mode session then Inr (Serve (session_port session))
               else if dump_filepath session \<noteq> [] then
                 rmap Dumped (DumpEvents (h_mktime h) (h_localtime h) (h_new_ok h) (h_read_heap h) (h_files h) (dump_filepath session))
               else if operands = [] then Inr (Status 1)
               else
                 case maybe_timestamp session of
                   None \<Rightarrow> Inr (Status 1)
                 | Some t \<Rightarrow>
                     rmap (\<lambda>(d, client). Sent d)
                       (SendEvent (h_mktime h) (h_sendto h) (h_socket h) (h_heap h)
                         \<lparr>ev_tm = t, ev_message = map byte_of (hd operands)\<rparr> session))))"

text \<open>What \<open>StartServer\<close> does before it listens: the file of events needs a home.\<close>

definition StartServer :: "host_system \<Rightarrow> int \<Rightarrow> int \<Rightarrow> u16 \<Rightarrow> server \<Rightarrow> (UDPListener \<times> server) result" where
  "StartServer h socket_result bind_result p s =
     rbind (mk_listener socket_result bind_result p) (\<lambda>l.
     rbind (EventsFilePath (h_home h)) (\<lambda>path.
     rmap (Pair l) (Start_load (h_localtime h) (h_new_ok h) (h_read_heap h) (s\<lparr>sv_events_file := h_files h path\<rparr>))))"

section \<open>From the command line to the server's queue\<close>

definition deliverable :: "(tm \<Rightarrow> int) \<Rightarrow> (int \<Rightarrow> tm) \<Rightarrow> event \<Rightarrow> bool" where
  "deliverable mktime localtime e \<longleftrightarrow>
     length (ev_message e) \<le> 492
     \<and> mktime (localtime (sint (GetUnixTimestamp mktime e))) = sint (GetUnixTimestamp mktime e)"

definition on_wire :: "(tm \<Rightarrow> int) \<Rightarrow> bytes \<Rightarrow> event \<Rightarrow> bytes" where
  "on_wire mktime heap e = take kMaxUDPSize (IntoBuffer mktime [e] @ heap)"

lemma length_IntoBuffer: "length (IntoBuffer mk [e]) = 16 + length (ev_message e)"
  by (simp add: IntoBuffer_records codec.length_record_bytes)

lemma SendEvent_on_wire:
  assumes "492 \<le> length (ev_message e) + length heap"
  shows "SendEvent mk sendto fd heap e s = Inr (on_wire mk heap e, mk_client fd (session_host s) (session_port s))"
proof -
  have "kMaxUDPSize \<le> length (IntoBuffer mk [e] @ heap)" using assms by (simp add: kMaxUDPSize_def length_IntoBuffer)
  from Send_reads [OF this] show ?thesis by (simp add: SendEvent_def on_wire_def Let_def)
qed

lemma length_on_wire:
  assumes "492 \<le> length (ev_message e) + length heap"
  shows "length (on_wire mk heap e) = kMaxUDPSize"
  using assms by (simp add: on_wire_def length_IntoBuffer kMaxUDPSize_def)

text \<open>The event that the server makes of the datagram of an event.\<close>

definition arrives :: "(tm \<Rightarrow> int) \<Rightarrow> (int \<Rightarrow> tm) \<Rightarrow> event \<Rightarrow> event" where
  "arrives mktime localtime e = e\<lparr>ev_tm := localtime (sint (GetUnixTimestamp mktime e))\<rparr>"

lemma arrives_same:
  "deliverable mk lt e \<Longrightarrow> ev_message (arrives mk lt e) = ev_message e \<and>
     GetUnixTimestamp mk (arrives mk lt e) = GetUnixTimestamp mk e"
  by (simp add: arrives_def deliverable_def) (simp add: GetUnixTimestamp_def)

lemma FromBuffer_on_wire:
  assumes "length (ev_message e) \<le> 492" "492 \<le> length (ev_message e) + length heap"
  shows "FromBuffer lt (udp_buffer (on_wire mk heap e)) kMaxUDPSize = Inr [arrives mk lt e]"
proof -
  have "fits e" using assms by (simp add: fits_def)
  have "on_wire mk heap e = IntoBuffer mk [e] @ take (492 - length (ev_message e)) heap"
    using assms by (simp add: on_wire_def length_IntoBuffer kMaxUDPSize_def)
  then show ?thesis
    using FromBuffer_record [OF \<open>fits e\<close>, of lt mk "take (492 - length (ev_message e)) heap" kMaxUDPSize]
      udp_buffer_full [OF length_on_wire [OF assms(2)], of mk]
    by (simp add: IntoBuffer_records arrives_def)
qed

text \<open>A packet holds one event, which the handler appends: the contract of a handler for the listener.\<close>

definition packet_event :: "(int \<Rightarrow> tm) \<Rightarrow> bytes \<Rightarrow> event result" where
  "packet_event localtime bf = rmap hd (FromBuffer localtime bf kMaxUDPSize)"

lemma FromBuffer_one: "FromBuffer lt bf n = Inr es \<Longrightarrow> \<exists>e. es = [e]"
  by (auto simp: FromBuffer_def fault_simps Let_def split: if_splits)

interpretation calendar: counting_handler
  where handler = "listen_fn localtime" and collected = sv_events and decode = "packet_event localtime"
  for localtime
proof unfold_locales
  fix bf e s
  assume "packet_event localtime bf = Inr e"
  then have "FromBuffer localtime bf kMaxUDPSize = Inr [e]"
    using FromBuffer_one [of localtime bf kMaxUDPSize] by (auto simp: packet_event_def fault_simps)
  then show "\<exists>s'. listen_fn localtime bf s = Inr s' \<and> sv_events s' = sv_events s @ [e]"
    by (simp add: listen_fn_def noexcept_def foldl_pq_push)
next
  fix bf f s
  assume "packet_event localtime bf = Inl f"
  then show "\<exists>f'. listen_fn localtime bf s = Inl f'"
    by (cases "FromBuffer localtime bf kMaxUDPSize"; cases f) (auto simp: packet_event_def listen_fn_def noexcept_def)
qed

definition received_datagrams :: "(int + bytes) list \<Rightarrow> bytes list" where
  "received_datagrams gots = concat (map (case_sum (\<lambda>_. []) (\<lambda>d. [d])) gots)"

lemma datagrams_received: "datagrams gots = map udp_buffer (received_datagrams gots)"
  by (induction gots) (auto simp: datagrams_def received_datagrams_def split: sum.splits)

lemma SendEvent_Inr:
  assumes "SendEvent mk sendto fd heap e s = Inr (d, c)"
  shows "d = on_wire mk heap e \<and> 492 \<le> length (ev_message e) + length heap"
proof (cases "492 \<le> length (ev_message e) + length heap")
  case True
  then show ?thesis using assms SendEvent_on_wire [OF True, of mk sendto fd s] by simp
next
  case False
  then have "length (IntoBuffer mk [e] @ heap) < kMaxUDPSize" by (simp add: length_IntoBuffer kMaxUDPSize_def)
  from Send_short [OF this] show ?thesis using assms by (simp add: SendEvent_def Let_def)
qed

text \<open>Where nothing may be read behind the vector, the strict reading, sending a shorter message is a fault.\<close>

lemma send_strict:
  "length (ev_message e) < 492 \<Longrightarrow> SendEvent mk sendto fd [] e s = Inl Out_Of_Bounds"
  using Send_short [of "IntoBuffer mk [e]"] by (simp add: SendEvent_def length_IntoBuffer kMaxUDPSize_def)

lemma packet_event_sent:
  assumes "SendEvent mk sendto fd heap e session = Inr (d, c)" "deliverable mk lt e"
  shows "packet_event lt (udp_buffer d) = Inr (arrives mk lt e)"
  using SendEvent_Inr [OF assms(1)] assms(2) FromBuffer_on_wire [of e heap lt mk]
  by (simp add: packet_event_def deliverable_def)

lemma sent_decode:
  "list_all2 (\<lambda>(e, heap, session) d. \<exists>c. SendEvent mk sendto fd heap e session = Inr (d, c)) sent ds \<Longrightarrow>
   \<forall>(e, heap, session)\<in>set sent. deliverable mk lt e \<Longrightarrow>
   map (packet_event lt) (map udp_buffer ds) = map Inr (map (arrives mk lt \<circ> fst) sent)"
  by (induction rule: list_all2_induct) (auto dest: packet_event_sent)

text \<open>C6: a listener that receives the datagrams of events sent by clients, whose messages have at most 492 bytes,
  queues behind what it has one event per datagram, in the order of arrival, with the message and the timestamp of
  the event sent, whatever memory the clients send behind their buffers.\<close>

theorem events_reach_server:
  assumes "list_all2 (\<lambda>(e, heap, session) d. \<exists>c. SendEvent mktime sendto fd heap e session = Inr (d, c)) sent
      (received_datagrams gots)"
    and "\<forall>(e, heap, session)\<in>set sent. deliverable mktime localtime e"
  shows "\<exists>l' s' new. ListenWith (listen_fn localtime) gots (l, s) = Inr (l', s')
    \<and> sv_events s' = sv_events s @ new
    \<and> map (event_record mktime) new = map (event_record mktime \<circ> fst) sent"
proof -
  let ?new = "map (arrives mktime localtime \<circ> fst) sent"
  have decode: "map (packet_event localtime) (datagrams gots) = map Inr ?new"
    unfolding datagrams_received using assms by (rule sent_decode)
  obtain l' s' where run: "ListenWith (listen_fn localtime) gots (l, s) = Inr (l', s')"
    using calendar.listen_total [OF decode] by blast
  obtain es where es: "map (packet_event localtime) (datagrams gots) = map Inr es" "sv_events s' = sv_events s @ es"
    using calendar.listen_collects [OF run] by blast
  have "es = ?new" using decode es(1) by (metis Inr_inject inj_map_eq_map inj_onI)
  moreover have "map (event_record mktime) ?new = map (event_record mktime \<circ> fst) sent"
    using assms(2) arrives_same by (fastforce simp: event_record_def)
  ultimately show ?thesis using run es(2) by blast
qed

subsection \<open>The program and its options\<close>

definition new_session :: Session where
  "new_session = \<lparr>foreground = False, timestamp = 0, maybe_timestamp = None, server_mode = False, session_port = 9995,
     session_host = ''127.0.0.1'', dump_filepath = [], old_events_file = [], upcoming_events_file = []\<rparr>"

lemma start_session:
  assumes "\<And>p. h_mkdir h p"
  shows "\<exists>s1 dirs1 dirs2. CreateApplicationDirectories (h_home h) (h_mkdir h) dirs = Inr (s1, dirs1)
    \<and> mk_session (h_home h) (h_mkdir h) dirs1 = Inr (new_session, dirs2)"
proof (cases "h_home h")
  case None
  then have "CreateApplicationDirectories (h_home h) (h_mkdir h) dirs' = Inr (ErrGenConfigPath, dirs')" for dirs'
    by (simp add: CreateApplicationDirectories_def MakeApplicationPath_def GetConfigPath_def GetHomePath_def)
  then show ?thesis by (simp add: mk_session_def MakeDirs_def new_session_def)
next
  case (Some home)
  obtain new where "CreateApplicationDirectories (Some home) (h_mkdir h) dirs =
      Inr (if DirExists (path_append (path_append home ''.config'') kApplicationName) dirs then OkExists else OkCreate, dirs @ new)"
    "CreateApplicationDirectories (Some home) (h_mkdir h) (dirs @ new) = Inr (OkExists, dirs @ new)"
    using create_then_exists [of "h_mkdir h" home dirs] assms by blast
  then show ?thesis using Some by (simp add: mk_session_def MakeDirs_def new_session_def)
qed

lemma psycal_main_args:
  assumes "\<And>p. h_mkdir h p" and "args \<noteq> []"
  shows "psycal_main h dirs args =
    (let (oas, operands) = getopt kOptions [] args in
     rbind (psycal_options (h_xday h) (h_now h) oas new_session) (\<lambda>r.
       case r of
         Inl e \<Rightarrow> Inr e
       | Inr session \<Rightarrow>
           if server_mode session then Inr (Serve (session_port session))
           else if dump_filepath session \<noteq> [] then
             rmap Dumped (DumpEvents (h_mktime h) (h_localtime h) (h_new_ok h) (h_read_heap h) (h_files h) (dump_filepath session))
           else if operands = [] then Inr (Status 1)
           else
             case maybe_timestamp session of
               None \<Rightarrow> Inr (Status 1)
             | Some t \<Rightarrow>
                 rmap (\<lambda>(d, client). Sent d)
                   (SendEvent (h_mktime h) (h_sendto h) (h_socket h) (h_heap h)
                     \<lparr>ev_tm = t, ev_message = map byte_of (hd operands)\<rparr> session)))"
  using start_session [of h dirs] assms by (auto simp: psycal_main_def)

lemma opt_kinds:
  "opt_kind kOptions (CHR ''t'') = Some True" "opt_kind kOptions (CHR ''p'') = Some False"
  "opt_kind kOptions (CHR ''d'') = None"
  by (simp_all add: kOptions_def)

text \<open>C32: the command with a time stamp that is accepted and a message sends one datagram, of which a server makes
  the event of that time and message, where the message has at most 492 bytes and the time functions of the host
  invert each other there.\<close>

theorem event_command:
  assumes "\<forall>p. h_mkdir h p" and "ProcessTimestamp (h_xday h) (h_now h) ts = Some t"
    and "m = [] \<or> hd m \<noteq> CHR ''-''" and "492 \<le> length m + length (h_heap h)"
    and "deliverable (h_mktime h) localtime \<lparr>ev_tm = t, ev_message = map byte_of m\<rparr>"
  shows "\<exists>d e. psycal_main h dirs [''-t'', ts, m] = Inr (Sent d)
    \<and> FromBuffer localtime (udp_buffer d) kMaxUDPSize = Inr [e]
    \<and> ev_message e = map byte_of m
    \<and> GetUnixTimestamp (h_mktime h) e = word_of_int (h_mktime h t)"
proof -
  let ?e = "\<lparr>ev_tm = t, ev_message = map byte_of m\<rparr>"
  have "getopt kOptions [] [''-t'', ts, m] = ([(CHR ''t'', Some ts)], [m])"
    using assms(3) by (simp add: getopt_words opt_kinds del: getopt.simps(3))
  then have "psycal_main h dirs [''-t'', ts, m] =
    rmap (\<lambda>(d, client). Sent d) (SendEvent (h_mktime h) (h_sendto h) (h_socket h) (h_heap h) ?e
      (new_session\<lparr>maybe_timestamp := Some t\<rparr>))"
    using assms(1,2) by (simp add: psycal_main_args psycal_option_def new_session_def)
  also have "\<dots> = Inr (Sent (on_wire (h_mktime h) (h_heap h) ?e))"
    using assms(4) by (simp add: SendEvent_on_wire)
  finally have run: "psycal_main h dirs [''-t'', ts, m] = Inr (Sent (on_wire (h_mktime h) (h_heap h) ?e))" .
  have "FromBuffer localtime (udp_buffer (on_wire (h_mktime h) (h_heap h) ?e)) kMaxUDPSize =
      Inr [arrives (h_mktime h) localtime ?e]"
    using assms(4,5) by (intro FromBuffer_on_wire) (auto simp: deliverable_def)
  moreover have "GetUnixTimestamp (h_mktime h) ?e = word_of_int (h_mktime h t)" by (simp add: GetUnixTimestamp_def)
  ultimately show ?thesis using run arrives_same [OF assms(5)] by auto
qed

text \<open>C39: of a longer message the datagram holds the first 492 bytes and the full size, so the handler of the server
  reads outside its buffer.\<close>

theorem long_message_overreads:
  assumes "492 < length (ev_message e)" and "fits e"
  shows "\<exists>d c. SendEvent mktime sendto fd heap e session = Inr (d, c) \<and> length d = kMaxUDPSize
    \<and> listen_fn localtime (udp_buffer d) s = Inl Out_Of_Bounds"
proof -
  let ?d = "on_wire mktime heap e" and ?m = "ev_message e"
  have enough: "492 \<le> length ?m + length heap" using assms(1) by simp
  have send: "SendEvent mktime sendto fd heap e session =
      Inr (?d, mk_client fd (session_host session) (session_port session))"
    by (rule SendEvent_on_wire [OF enough])
  define enc where "enc = (\<lambda>x. snd (EncodeU64LE x []))"
  let ?head = "enc (GetUnixTimestamp mktime e) @ enc (of_nat (length ?m))"
  have enc: "snd (EncodeU64LE x []) = enc x" for x by (simp add: enc_def)
  have len: "length (enc x) = 8" for x by (simp add: enc_def codec.enc_length)
  have d: "?d = ?head @ take 492 ?m"
    using assms(1) by (simp add: on_wire_def IntoBuffer_records record_bytes_def event_record_def kMaxUDPSize_def len enc)
  have same: "udp_buffer ?d = ?d" by (rule udp_buffer_full [OF length_on_wire [OF enough]])
  have "DecodeU64LE ?d 0 = Inr (Codec_Ok, GetUnixTimestamp mktime e)"
    using codec.rd_enc [of 0 "[]" "GetUnixTimestamp mktime e" "enc (of_nat (length ?m)) @ take 492 ?m"]
    by (subst DecodeU64LE_Ok) (simp add: d enc)
  moreover have "DecodeU64LE ?d 8 = Inr (Codec_Ok, of_nat (length ?m))"
    using codec.rd_enc [of 8 "enc (GetUnixTimestamp mktime e)" "of_nat (length ?m)" "take 492 ?m"]
    by (subst DecodeU64LE_Ok) (simp add: d len enc)
  moreover have "read_range ?d 16 (length ?m) = Inl Out_Of_Bounds"
    using assms(1) length_on_wire [OF enough, of mktime] by (auto simp: read_range_def kMaxUDPSize_def)
  ultimately have "FromBuffer localtime ?d kMaxUDPSize = Inl Out_Of_Bounds"
    using unat_message_size [OF assms(2)] by (simp add: FromBuffer_def)
  then show ?thesis using send same length_on_wire [OF enough, of mktime]
    by (simp add: listen_fn_def noexcept_def)
qed

text \<open>What the options do not do: the port option takes no argument and follows a null pointer, the documented
  option for a daemon is unknown, and without a home a client sends all the same while the server does not start.\<close>

lemma psycal_gaps:
  assumes "\<And>p. h_mkdir h p"
  shows "psycal_main h dirs (''-p'' # args) = Inl Null_Deref"
    and "psycal_main h dirs (''-d'' # args) = Inr (Status 1)"
    and "h_home h = None \<Longrightarrow> socket_result \<noteq> - 1 \<Longrightarrow> bind_result \<noteq> - 1 \<Longrightarrow>
      StartServer h socket_result bind_result p s = Inl (Thrown ''bad_optional_access'')"
proof -
  obtain r where "getopt kOptions [] (''-p'' # args) = apfst (Cons (CHR ''p'', None)) r"
    using getopt_words(2) [of kOptions "CHR ''p''" args] opt_kinds(2) by simp
  then show "psycal_main h dirs (''-p'' # args) = Inl Null_Deref"
    using assms by (cases r) (simp add: psycal_main_args psycal_option_def PortStrIntoInt_def deref_def)
  obtain r where "getopt kOptions [] (''-d'' # args) = apfst (Cons (CHR ''?'', None)) r"
    using opt_kinds(3) by simp
  then show "psycal_main h dirs (''-d'' # args) = Inr (Status 1)"
    using assms by (cases r) (simp add: psycal_main_args psycal_option_def)
  show "h_home h = None \<Longrightarrow> socket_result \<noteq> - 1 \<Longrightarrow> bind_result \<noteq> - 1 \<Longrightarrow>
      StartServer h socket_result bind_result p s = Inl (Thrown ''bad_optional_access'')"
    by (simp add: StartServer_def mk_listener_def EventsFilePath_def ApplicationPath_def MakeApplicationPath_def
        GetConfigPath_def GetHomePath_def)
qed

section \<open>Witnesses\<close>

theorem short_time_witness:
  "ProcessTimestamp id (sample_localtime 7) ''4h30'' = Some ((sample_localtime 7)\<lparr>tm_hour := 4, tm_min := 30, tm_sec := 0\<rparr>)
   \<and> ProcessTimestamp id (sample_localtime 7) ''4h75'' = Some ((sample_localtime 7)\<lparr>tm_hour := 4, tm_min := 7, tm_sec := 0\<rparr>)
   \<and> ProcessTimestamp id (sample_localtime 7) ''24h0'' = None"
proof -
  have "print_nat 10 4 = ''4''" "print_nat 10 30 = ''30''" "print_nat 10 75 = ''75''" "print_nat 10 24 = ''24''" "print_nat 10 0 = ''0''"
    by code_simp+
  then show ?thesis
    using short_time [of 30 id "sample_localtime 7" 4] short_time [of 75 id "sample_localtime 7" 4]
      short_time [of 0 id "sample_localtime 7" 24] by simp
qed

theorem long_time_witness:
  "ProcessTimestamp id (sample_localtime 7) ''2021-6-1T4h30'' =
    Some \<lparr>tm_sec = 0, tm_min = 30, tm_hour = 4, tm_mday = 1, tm_mon = 5, tm_year = 121, tm_wday = 0, tm_yday = 0, tm_isdst = 0\<rparr>"
proof -
  have "print_nat 10 2021 = ''2021''" "print_nat 10 6 = ''6''" "print_nat 10 1 = ''1''" "print_nat 10 4 = ''4''" "print_nat 10 30 = ''30''"
    by code_simp+
  then show ?thesis
    using long_time [of 2021 6 1 4 30 "[]" id "sample_localtime 7"] by (simp add: ends_number_def)
qed

definition sample_host :: host_system where
  "sample_host = \<lparr>h_mktime = sample_mktime, h_localtime = sample_localtime, h_xday = id, h_now = sample_localtime 7,
     h_sendto = (\<lambda>_. 508), h_socket = 3, h_heap = replicate 600 0, h_new_ok = (\<lambda>_. True), h_read_heap = (\<lambda>_. [0]),
     h_home = Some ''/root'', h_mkdir = (\<lambda>_. True), h_files = (\<lambda>_. [])\<rparr>"

lemma sample_clock: "sample_mktime (sample_localtime x) = x"
  by (simp add: sample_mktime_def sample_localtime_def)

theorem event_command_witness:
  "\<exists>d e. psycal_main sample_host [] [''-t'', ''4h30'', ''hi''] = Inr (Sent d)
    \<and> FromBuffer sample_localtime (udp_buffer d) kMaxUDPSize = Inr [e] \<and> ev_message e = [104, 105]"
proof -
  let ?t = "(sample_localtime 7)\<lparr>tm_hour := 4, tm_min := 30, tm_sec := 0\<rparr>"
  have "ProcessTimestamp id (sample_localtime 7) ''4h30'' = Some ?t" by code_simp
  moreover have "map byte_of ''hi'' = [104, 105]" by code_simp
  ultimately show ?thesis
    using event_command [of sample_host "''4h30''" ?t "''hi''" sample_localtime "[]"]
    by (simp add: sample_host_def deliverable_def sample_clock) blast
qed

definition sample_listener :: UDPListener where
  "sample_listener = \<lparr>ls_port = 9995, server_fd = 3, ls_last_error = None\<rparr>"

theorem events_reach_server_witness:
  "\<exists>l' s' new. ListenWith (listen_fn sample_localtime)
      [Inr (on_wire sample_mktime (replicate 600 0) (sample_event 5 [1])), Inl 4,
       Inr (on_wire sample_mktime (replicate 600 7) (sample_event 9 [2, 3]))] (sample_listener, sample_server []) = Inr (l', s')
    \<and> sv_events s' = new \<and> map (event_record sample_mktime) new = [(5, [1]), (9, [2, 3])]"
proof -
  have send: "\<exists>c. SendEvent sample_mktime (\<lambda>_. 0) 3 (replicate 600 b) (sample_event t m) new_session =
      Inr (on_wire sample_mktime (replicate 600 b) (sample_event t m), c)" for b t m
    by (simp add: SendEvent_on_wire)
  show ?thesis
    using events_reach_server [of sample_mktime "\<lambda>_. 0" 3
        "[(sample_event 5 [1], replicate 600 0, new_session), (sample_event 9 [2, 3], replicate 600 7, new_session)]"
        "[Inr (on_wire sample_mktime (replicate 600 0) (sample_event 5 [1])), Inl 4,
          Inr (on_wire sample_mktime (replicate 600 7) (sample_event 9 [2, 3]))]" sample_localtime sample_listener "sample_server []"] send
    by (simp add: received_datagrams_def deliverable_def sample_clock sample_message event_record_def sample_timestamp
        sample_server_def)
qed

theorem long_message_overreads_witness:
  "\<exists>d c. SendEvent sample_mktime (\<lambda>_. 508) 3 [] (sample_event 5 (replicate 493 1)) new_session = Inr (d, c)
    \<and> listen_fn sample_localtime (udp_buffer d) (sample_server []) = Inl Out_Of_Bounds"
  using long_message_overreads [of "sample_event 5 (replicate 493 1)" sample_mktime "\<lambda>_. 508" 3 "[]" new_session
      sample_localtime "sample_server []"]
  by (auto simp: fits_def sample_message)

end
