(* ===== verification/Brainfuck.thy ===== *)
theory Brainfuck
  imports Prelude
begin

text \<open>
  The interpreter of \<^verbatim>\<open>brainfuck/brainfuck.cc\<close>: its machine state, its operations, one pass
  of its run loop, and the structured language it is meant to run.
\<close>

section \<open>State\<close>

datatype status = Error | Started | Executing | Success | Failure
datatype output_mode = Raw | Text
datatype cursor_direction = Left | Right

text \<open>
  \<open>mCodePos\<close> is kept as an integer: \<open>- 1\<close> is the value \<open>SIZE_MAX\<close> that \<open>JumpRBrack\<close> reaches
  when it steps back from position 0. Input and output are the characters still to be read
  from \<open>std::cin\<close> and those written to the output stream.
\<close>

record brainfuck =
  mMaxCells :: nat
  mStatus :: status
  mCellPos :: nat
  mCodePos :: int
  mCode :: string
  mCells :: "nat \<Rightarrow> u8"
  mOutputMode :: output_mode
  mOutputStream :: string
  stdin :: string

definition init :: brainfuck where
  "init = \<lparr>mMaxCells = 300000, mStatus = Started, mCellPos = 0, mCodePos = 0, mCode = [],
     mCells = (\<lambda>_. 0), mOutputMode = Text, mOutputStream = [], stdin = []\<rparr>"

definition FromString :: "string \<Rightarrow> brainfuck \<Rightarrow> brainfuck" where
  "FromString str s = s\<lparr>mCode := str\<rparr>"

definition SetOutputMode :: "output_mode \<Rightarrow> brainfuck \<Rightarrow> brainfuck" where
  "SetOutputMode m s = s\<lparr>mOutputMode := m\<rparr>"

definition GetExitCode :: "brainfuck \<Rightarrow> int" where
  "GetExitCode s = (if mStatus s = Success then 0 else 1)"

section \<open>Operations\<close>

fun MoveCursor :: "cursor_direction \<Rightarrow> brainfuck \<Rightarrow> brainfuck" where
  "MoveCursor Right s =
     (if mCellPos s = mMaxCells s - 1 then s\<lparr>mCellPos := 0\<rparr> else s\<lparr>mCellPos := mCellPos s + 1\<rparr>)"
| "MoveCursor Left s =
     (if mCellPos s = 0 then s\<lparr>mCellPos := mMaxCells s - 1\<rparr> else s\<lparr>mCellPos := mCellPos s - 1\<rparr>)"

abbreviation cell :: "brainfuck \<Rightarrow> u8" where
  "cell s \<equiv> mCells s (mCellPos s)"

definition IncrCell :: "brainfuck \<Rightarrow> brainfuck" where
  "IncrCell s = s\<lparr>mCells := (mCells s)(mCellPos s := cell s + 1)\<rparr>"

definition DecrCell :: "brainfuck \<Rightarrow> brainfuck" where
  "DecrCell s = s\<lparr>mCells := (mCells s)(mCellPos s := cell s - 1)\<rparr>"

text \<open>\<open>std::cin >> input\<close> skips white space and leaves \<open>input\<close> zero at the end of the input.\<close>

definition InputChar :: "brainfuck \<Rightarrow> brainfuck" where
  "InputChar s =
     (case dropWhile is_space (stdin s) of
        [] \<Rightarrow> s\<lparr>stdin := [], mOutputStream := mOutputStream s @ [CHR 0x00]\<rparr>
      | c # cs \<Rightarrow> s\<lparr>stdin := cs, mOutputStream := mOutputStream s @ [c]\<rparr>)"

definition OutputChar :: "brainfuck \<Rightarrow> brainfuck" where
  "OutputChar s =
     (case mOutputMode s of
        Text \<Rightarrow> s\<lparr>mOutputStream := mOutputStream s @ print_nat 16 (unat (cell s))\<rparr>
      | Raw \<Rightarrow> s\<lparr>mOutputStream := mOutputStream s @ [char_of_byte (cell s)]\<rparr>)"

text \<open>\<open>mCode[pos]\<close>: the character, the terminating zero at \<open>size()\<close>, a fault elsewhere.\<close>

definition code_at :: "string \<Rightarrow> int \<Rightarrow> char result" where
  "code_at code pos =
     (if 0 \<le> pos \<and> pos < int (length code) then Inr (code ! nat pos)
      else if pos = int (length code) then Inr (CHR 0x00)
      else Inl Out_Of_Bounds)"

lemma code_at_bound: "code_at code pos = Inr c \<Longrightarrow> 0 \<le> pos \<and> pos \<le> int (length code)"
  by (auto simp: code_at_def split: if_splits)

fun count_bracket :: "char \<Rightarrow> char \<Rightarrow> char \<Rightarrow> nat \<Rightarrow> nat" where
  "count_bracket up down c skip = (if c = up then skip + 1 else if c = down then skip - 1 else skip)"

function scan_right :: "string \<Rightarrow> int \<Rightarrow> nat \<Rightarrow> int result" where
  "scan_right code pos skip =
     (if skip = 0 then Inr pos
      else let pos = pos + 1 in
        rbind (code_at code pos) (\<lambda>c.
          scan_right code pos (count_bracket CHR ''['' CHR '']'' c skip)))"
  by pat_completeness auto
termination
  by (relation "measure (\<lambda>(code, pos, _). nat (int (length code) + 1 - pos))")
    (auto dest: code_at_bound)

function scan_left :: "string \<Rightarrow> int \<Rightarrow> nat \<Rightarrow> int result" where
  "scan_left code pos skip =
     (if skip = 0 then Inr pos
      else rbind (code_at code pos) (\<lambda>c.
        scan_left code (pos - 1) (count_bracket CHR '']'' CHR ''['' c skip)))"
  by pat_completeness auto
termination
  by (relation "measure (\<lambda>(code, pos, _). nat (pos + 1))") (auto dest: code_at_bound)

declare scan_right.simps [simp del] scan_left.simps [simp del]

definition JumpLBrack :: "brainfuck \<Rightarrow> brainfuck result" where
  "JumpLBrack s =
     (if cell s \<noteq> 0 then Inr s
      else rmap (\<lambda>pos. s\<lparr>mCodePos := pos\<rparr>) (scan_right (mCode s) (mCodePos s) 1))"

definition JumpRBrack :: "brainfuck \<Rightarrow> brainfuck result" where
  "JumpRBrack s =
     rmap (\<lambda>pos. s\<lparr>mCodePos := pos\<rparr>) (scan_left (mCode s) (mCodePos s - 1) 1)"

definition exec_char :: "char \<Rightarrow> brainfuck \<Rightarrow> brainfuck result" where
  "exec_char c s =
     (if c = CHR ''+'' then Inr (IncrCell s)
      else if c = CHR ''-'' then Inr (DecrCell s)
      else if c = CHR ''.'' then Inr (OutputChar s)
      else if c = CHR '','' then Inr (InputChar s)
      else if c = CHR ''['' then JumpLBrack s
      else if c = CHR '']'' then JumpRBrack s
      else if c = CHR ''>'' then Inr (MoveCursor Right s)
      else if c = CHR ''<'' then Inr (MoveCursor Left s)
      else Inr s)"

text \<open>
  One pass of the loop of \<open>Run\<close>. The comparison with \<open>size()\<close> is unsigned: a position below
  zero is past every size.
\<close>

definition advance :: "brainfuck \<Rightarrow> brainfuck" where
  "advance s =
     (let s = s\<lparr>mCodePos := mCodePos s + 1\<rparr>
      in if mCodePos s < 0 \<or> mCodePos s > int (length (mCode s)) then s\<lparr>mStatus := Success\<rparr> else s)"

definition run_step :: "brainfuck \<Rightarrow> brainfuck result" where
  "run_step s =
     rbind (code_at (mCode s) (mCodePos s)) (\<lambda>c. rmap advance (exec_char c s))"

text \<open>\<open>Run\<close> with fuel: \<open>None\<close> is a run that has not ended within \<open>n\<close> passes.\<close>

fun run_loop :: "nat \<Rightarrow> brainfuck \<Rightarrow> brainfuck result option" where
  "run_loop 0 s = None"
| "run_loop (Suc n) s =
     (if mStatus s \<noteq> Executing then Some (Inr s)
      else case run_step s of Inl e \<Rightarrow> Some (Inl e) | Inr s' \<Rightarrow> run_loop n s')"

definition Run :: "nat \<Rightarrow> brainfuck \<Rightarrow> brainfuck result option" where
  "Run n s = run_loop n (s\<lparr>mStatus := Executing\<rparr>)"

definition Validate :: "brainfuck \<Rightarrow> status" where
  "Validate s =
     (let cursor = foldl (\<lambda>cursor c.
            if c = CHR ''['' then cursor + 1
            else if c = CHR '']'' then cursor - 1 else cursor) (0 :: u64) (mCode s)
      in if cursor = 0 then Success else Error)"

section \<open>Bracket depth and the two scans\<close>

definition weight :: "char \<Rightarrow> int" where
  "weight c = (if c = CHR ''['' then 1 else if c = CHR '']'' then - 1 else 0)"

definition depth :: "string \<Rightarrow> int" where
  "depth s = int (count_list s CHR ''['') - int (count_list s CHR '']'')"

definition well_bracketed :: "string \<Rightarrow> bool" where
  "well_bracketed code \<longleftrightarrow>
     list_all (\<lambda>p. 0 \<le> depth (take p code)) [0..<Suc (length code)] \<and> depth code = 0"

lemma depth_simps [simp]:
  "depth [] = 0"
  "depth (c # s) = weight c + depth s"
  "depth (s @ t) = depth s + depth t"
  by (auto simp: depth_def weight_def)

lemma well_bracketed_take: "well_bracketed code \<Longrightarrow> 0 \<le> depth (take p code)"
  by (cases "p \<le> length code") (auto simp: well_bracketed_def list_all_iff)

lemma depth_take_drop: "depth (take p s) + depth (drop p s) = depth s"
  using depth_simps(3) [of "take p s" "drop p s"] by simp

lemma code_at_append [simp]:
  "code_at (pre @ c # t) (int (length pre)) = Inr c"
  "pos = int (length pre) \<Longrightarrow> code_at (pre @ c # t) pos = Inr c"
  by (auto simp: code_at_def nth_append)

lemma count_right: "0 < k \<Longrightarrow> int (count_bracket CHR ''['' CHR '']'' c k) = int k + weight c"
  and count_left: "0 < k \<Longrightarrow> int (count_bracket CHR '']'' CHR ''['' c k) = int k - weight c"
  by (auto simp: weight_def)

declare count_bracket.simps [simp del]

lemma scan_right_Cons:
  "0 < k \<Longrightarrow> scan_right (pre @ c # t) (int (length pre) - 1) k =
     scan_right (pre @ c # t) (int (length pre)) (count_bracket CHR ''['' CHR '']'' c k)"
  by (subst scan_right.simps) simp

lemma scan_left_snoc:
  "0 < k \<Longrightarrow> scan_left (pre @ c # t) (int (length pre)) k =
     scan_left (pre @ c # t) (int (length pre) - 1) (count_bracket CHR '']'' CHR ''['' c k)"
  by (subst scan_left.simps) simp

text \<open>A stretch of code in which the depth counter stays positive is scanned through.\<close>

lemma scan_right_through:
  "(\<And>p. p \<le> length w \<Longrightarrow> 0 < int k + depth (take p w)) \<Longrightarrow>
   scan_right (pre @ w @ post) (int (length pre) - 1) k =
   scan_right (pre @ w @ post) (int (length pre + length w) - 1) (nat (int k + depth w))"
proof (induction w arbitrary: pre k)
  case Nil
  then show ?case by simp
next
  case (Cons c w)
  let ?k = "count_bracket CHR ''['' CHR '']'' c k"
  have k: "0 < k" using Cons.prems [of 0] by simp
  have "0 < int ?k + depth (take p w)" if "p \<le> length w" for p
    using Cons.prems [of "Suc p"] that count_right [OF k, of c] by simp
  from Cons.IH [OF this, of "pre @ [c]"]
  have "scan_right (pre @ c # w @ post) (int (length pre)) ?k =
      scan_right (pre @ c # w @ post) (int (length pre + length w)) (nat (int ?k + depth w))"
    by simp
  then show ?case using scan_right_Cons [OF k, of pre c "w @ post"] count_right [OF k, of c]
    by (simp add: add.assoc)
qed

lemma scan_left_through:
  "(\<And>p. p \<le> length w \<Longrightarrow> depth (drop p w) < int k) \<Longrightarrow>
   scan_left (pre @ w @ post) (int (length pre + length w) - 1) k =
   scan_left (pre @ w @ post) (int (length pre) - 1) (nat (int k - depth w))"
proof (induction w arbitrary: post k rule: rev_induct)
  case Nil
  then show ?case by simp
next
  case (snoc c w)
  let ?k = "count_bracket CHR '']'' CHR ''['' c k"
  have k: "0 < k" using snoc.prems [of "length (w @ [c])"] by simp
  have "depth (drop p w) < int ?k" if "p \<le> length w" for p
    using snoc.prems [of p] that count_left [OF k, of c] by simp
  from snoc.IH [OF this, of "c # post"]
  have "scan_left (pre @ w @ c # post) (int (length pre + length w) - 1) ?k =
      scan_left (pre @ w @ c # post) (int (length pre) - 1) (nat (int ?k - depth w))"
    by simp
  then show ?case
    using scan_left_snoc [OF k, of "pre @ w" c post] count_left [OF k, of c]
    by (simp add: algebra_simps)
qed

text \<open>So, where enough brackets follow, a scan meets the matching one.\<close>

lemma scan_right_finds:
  assumes "depth t < 0"
  shows "\<exists>q < length t. scan_right (pre @ t) (int (length pre) - 1) 1 = Inr (int (length pre + q))"
proof -
  define P where "P q \<longleftrightarrow> depth (take q t) < 0" for q
  define q where "q = (LEAST q. P q)"
  have "P (length t)" using assms by (simp add: P_def)
  then have Pq: "P q" and le: "q \<le> length t" and below: "\<And>p. p < q \<Longrightarrow> \<not> P p"
    by (auto simp: q_def intro: LeastI Least_le dest: not_less_Least)
  have "\<not> P 0" by (simp add: P_def)
  then have "q \<noteq> 0" using Pq by metis
  then obtain r where r: "q = Suc r" by (cases q) auto
  then have split: "t = take r t @ t ! r # drop (Suc r) t" and rl: "r < length t"
    using le by (auto intro: id_take_nth_drop)
  have "0 < int 1 + depth (take p (take r t))" if "p \<le> length (take r t)" for p
    using below [of "min p r"] r by (simp add: P_def less_Suc_eq_le not_less)
  from scan_right_through [of "take r t" 1 pre "t ! r # drop (Suc r) t", OF this]
  have through: "scan_right (pre @ t) (int (length pre) - 1) 1 =
      scan_right (pre @ t) (int (length pre + r) - 1) (nat (1 + depth (take r t)))"
    using split rl by simp
  let ?k = "nat (1 + depth (take r t))"
  have dr: "0 \<le> depth (take r t)" using below [of r] r by (simp add: P_def)
  then have k: "0 < ?k" by simp
  have "int (count_bracket CHR ''['' CHR '']'' (t ! r) ?k) = 1 + depth (take q t)"
    using count_right [OF k, of "t ! r"] dr rl by (simp add: r take_Suc_conv_app_nth)
  then have "count_bracket CHR ''['' CHR '']'' (t ! r) ?k = 0"
    using Pq by (simp add: P_def)
  moreover have "scan_right (pre @ t) (int (length pre + r) - 1) ?k =
      scan_right (pre @ t) (int (length pre + r)) (count_bracket CHR ''['' CHR '']'' (t ! r) ?k)"
    using scan_right_Cons [OF k, of "pre @ take r t" "t ! r" "drop (Suc r) t"] split rl by simp
  ultimately show ?thesis
    using through rl by (intro exI [of _ r]) (simp add: scan_right.simps [of _ _ 0])
qed

lemma scan_left_finds:
  assumes "0 < depth t"
  shows "\<exists>q < length t. scan_left (t @ post) (int (length t) - 1) 1 = Inr (int q - 1)"
proof -
  define P where "P q \<longleftrightarrow> 0 < depth (drop (length t - q) t)" for q
  define q where "q = (LEAST q. P q)"
  have "P (length t)" using assms by (simp add: P_def)
  then have Pq: "P q" and le: "q \<le> length t" and below: "\<And>p. p < q \<Longrightarrow> \<not> P p"
    by (auto simp: q_def intro: LeastI Least_le dest: not_less_Least)
  have "\<not> P 0" by (simp add: P_def)
  then have "q \<noteq> 0" using Pq by metis
  define r where "r = length t - q"
  have rl: "r < length t" using le \<open>q \<noteq> 0\<close> by (simp add: r_def)
  have split: "t = take r t @ t ! r # drop (Suc r) t" using rl by (rule id_take_nth_drop)
  have "depth (drop p (drop (Suc r) t)) < int 1" if "p \<le> length (drop (Suc r) t)" for p
  proof -
    have "length t - (length t - (Suc r + p)) = Suc r + p" and "length t - (Suc r + p) < q"
      using that rl le \<open>q \<noteq> 0\<close> by (auto simp: r_def)
    then show ?thesis using below [of "length t - (Suc r + p)"] by (simp add: P_def add.commute)
  qed
  note through = scan_left_through [of "drop (Suc r) t" 1 "take r t @ [t ! r]" post, OF this]
  have tp: "(take r t @ [t ! r]) @ drop (Suc r) t @ post = t @ post" by (subst (4) split) simp
  have "length (take r t @ [t ! r]) = Suc r" and "Suc r + length (drop (Suc r) t) = length t"
    using rl by auto
  with through have "scan_left (t @ post) (int (length t) - 1) 1 =
      scan_left (t @ post) (int (Suc r) - 1) (nat (int 1 - depth (drop (Suc r) t)))"
    by (simp only: tp)
  then have through: "scan_left (t @ post) (int (length t) - 1) 1 =
      scan_left (t @ post) (int r) (nat (1 - depth (drop (Suc r) t)))" by simp
  let ?k = "nat (1 - depth (drop (Suc r) t))"
  have "length t - (length t - Suc r) = Suc r" and "length t - Suc r < q"
    using rl le \<open>q \<noteq> 0\<close> by (auto simp: r_def)
  then have dr: "depth (drop (Suc r) t) \<le> 0"
    using below [of "length t - Suc r"] by (simp add: P_def)
  then have k: "0 < ?k" by simp
  have "depth (drop r t) = weight (t ! r) + depth (drop (Suc r) t)"
    using rl by (simp add: Cons_nth_drop_Suc [symmetric])
  then have "int (count_bracket CHR '']'' CHR ''['' (t ! r) ?k) = 1 - depth (drop r t)"
    using count_left [OF k, of "t ! r"] dr by (simp)
  then have "count_bracket CHR '']'' CHR ''['' (t ! r) ?k = 0"
    using Pq by (simp add: P_def r_def)
  moreover have "scan_left (t @ post) (int r) ?k =
      scan_left (t @ post) (int r - 1) (count_bracket CHR '']'' CHR ''['' (t ! r) ?k)"
  proof -
    have "take r t @ t ! r # drop (Suc r) t @ post = t @ post" by (subst (4) split) simp
    moreover have "length (take r t) = r" using rl by simp
    ultimately show ?thesis
      using scan_left_snoc [OF k, of "take r t" "t ! r" "drop (Suc r) t @ post"] by (simp only:)
  qed
  ultimately show ?thesis
    using through rl by (intro exI [of _ r]) (simp add: scan_left.simps [of _ _ 0])
qed

section \<open>A well-bracketed program never leaves its code\<close>

text \<open>
  While the run loop goes on, the position is inside the code or on its terminating zero, and
  the cursor is on the tape.
\<close>

definition running_inv :: "brainfuck \<Rightarrow> bool" where
  "running_inv s \<longleftrightarrow> well_bracketed (mCode s) \<and> 0 \<le> mCodePos s
     \<and> mCodePos s \<le> int (length (mCode s)) \<and> mCellPos s < mMaxCells s"

lemma MoveCursor_fields [simp]:
  "mCode (MoveCursor d s) = mCode s" "mCodePos (MoveCursor d s) = mCodePos s"
  "mStatus (MoveCursor d s) = mStatus s" "mMaxCells (MoveCursor d s) = mMaxCells s"
  by (cases d; simp)+

lemma MoveCursor_bound [simp]: "mCellPos s < mMaxCells s \<Longrightarrow> mCellPos (MoveCursor d s) < mMaxCells s"
  by (cases d) auto

lemma io_fields [simp]:
  "mCode (InputChar s) = mCode s" "mCodePos (InputChar s) = mCodePos s"
  "mStatus (InputChar s) = mStatus s" "mMaxCells (InputChar s) = mMaxCells s"
  "mCellPos (InputChar s) = mCellPos s" "mCells (InputChar s) = mCells s"
  "mCode (OutputChar s) = mCode s" "mCodePos (OutputChar s) = mCodePos s"
  "mStatus (OutputChar s) = mStatus s" "mMaxCells (OutputChar s) = mMaxCells s"
  "mCellPos (OutputChar s) = mCellPos s" "mCells (OutputChar s) = mCells s"
  by (auto simp: InputChar_def OutputChar_def split: list.splits output_mode.splits)

lemma code_split: "p < length code \<Longrightarrow> code = take p code @ code ! p # drop (Suc p) code"
  by (rule id_take_nth_drop)

lemma JumpLBrack_inside:
  assumes "running_inv s" and "code_at (mCode s) (mCodePos s) = Inr CHR ''[''"
  shows "\<exists>s'. JumpLBrack s = Inr s' \<and> running_inv s' \<and> mCodePos s' < int (length (mCode s))
    \<and> mCode s' = mCode s \<and> mStatus s' = mStatus s \<and> mMaxCells s' = mMaxCells s"
proof -
  let ?code = "mCode s"
  obtain p where p: "mCodePos s = int p" "p < length ?code" "?code ! p = CHR ''[''"
    using assms nonneg_int_cases [of "mCodePos s"]
    by (fastforce simp: code_at_def running_inv_def split: if_splits)
  have split: "?code = take p ?code @ CHR ''['' # drop (Suc p) ?code" using code_split [of p ?code] p by simp
  have "depth ?code = depth (take p ?code) + 1 + depth (drop (Suc p) ?code)"
    by (subst split) (simp add: weight_def)
  then have "depth (drop (Suc p) ?code) < 0"
    using assms(1) well_bracketed_take [of ?code p] by (auto simp: running_inv_def well_bracketed_def)
  from scan_right_finds [OF this, of "take p ?code @ [CHR ''['']"]
  obtain q where q: "q < length (drop (Suc p) ?code)"
    "scan_right ((take p ?code @ [CHR ''['']) @ drop (Suc p) ?code) (int (length (take p ?code @ [CHR ''[''])) - 1) 1
      = Inr (int (length (take p ?code @ [CHR ''['']) + q))" by blast
  then have "scan_right ?code (int p) 1 = Inr (int (Suc p + q))"
    using split p(2) by (simp add: min_def split: if_splits)
  then show ?thesis using assms(1) p q(1) by (auto simp: JumpLBrack_def running_inv_def)
qed

lemma JumpRBrack_inside:
  assumes "running_inv s" and "code_at (mCode s) (mCodePos s) = Inr CHR '']''"
  shows "\<exists>pos. JumpRBrack s = Inr (s\<lparr>mCodePos := pos\<rparr>) \<and> - 1 \<le> pos \<and> pos < int (length (mCode s))"
proof -
  let ?code = "mCode s"
  obtain p where p: "mCodePos s = int p" "p < length ?code" "?code ! p = CHR '']''"
    using assms nonneg_int_cases [of "mCodePos s"]
    by (fastforce simp: code_at_def running_inv_def split: if_splits)
  have split: "?code = take p ?code @ CHR '']'' # drop (Suc p) ?code" using code_split [of p ?code] p by simp
  have "depth (take (Suc p) ?code) = depth (take p ?code) - 1"
    using p by (simp add: take_Suc_conv_app_nth weight_def)
  then have "0 < depth (take p ?code)"
    using assms(1) well_bracketed_take [of ?code "Suc p"] by (auto simp: running_inv_def)
  from scan_left_finds [OF this, of "CHR '']'' # drop (Suc p) ?code"]
  obtain q where "q < length (take p ?code)" "scan_left ?code (int p - 1) 1 = Inr (int q - 1)"
    using split p(2) by auto
  then show ?thesis using p by (auto simp: JumpRBrack_def)
qed

lemma run_step_inv:
  assumes "running_inv s" and "mStatus s = Executing"
  shows "\<exists>s'. run_step s = Inr s' \<and> mCellPos s' < mMaxCells s' \<and> mCode s' = mCode s
    \<and> mMaxCells s' = mMaxCells s
    \<and> ((mStatus s' = Executing \<and> running_inv s')
       \<or> (mStatus s' = Success \<and> mCodePos s' = int (length (mCode s')) + 1))"
proof -
  have "\<exists>c. code_at (mCode s) (mCodePos s) = Inr c"
    using assms(1) by (auto simp: running_inv_def code_at_def)
  then obtain c where c: "code_at (mCode s) (mCodePos s) = Inr c" ..
  have "\<exists>s1. exec_char c s = Inr s1 \<and> mCode s1 = mCode s \<and> mStatus s1 = mStatus s
      \<and> mMaxCells s1 = mMaxCells s \<and> mCellPos s1 < mMaxCells s1
      \<and> - 1 \<le> mCodePos s1 \<and> mCodePos s1 \<le> int (length (mCode s))"
  proof (cases "c = CHR ''['' \<or> c = CHR '']''")
    case True
    then show ?thesis
      using JumpLBrack_inside [OF assms(1)] JumpRBrack_inside [OF assms(1)] c assms(1)
      by (fastforce simp: exec_char_def running_inv_def)
  next
    case False
    then show ?thesis
      using assms(1) by (auto simp: exec_char_def running_inv_def IncrCell_def DecrCell_def)
  qed
  then show ?thesis
    using c assms by (auto simp: run_step_def advance_def running_inv_def Let_def)
qed

lemma run_loop_inv:
  "running_inv s \<Longrightarrow> mStatus s = Executing \<Longrightarrow> run_loop n s = Some r \<Longrightarrow>
   \<exists>s'. r = Inr s' \<and> mStatus s' = Success \<and> mCellPos s' < mMaxCells s'
     \<and> mCodePos s' = int (length (mCode s')) + 1 \<and> mCode s' = mCode s
     \<and> mMaxCells s' = mMaxCells s"
proof (induction n arbitrary: s)
  case (Suc n)
  from run_step_inv [OF Suc.prems(1,2)] obtain s' where s': "run_step s = Inr s'"
    "mCellPos s' < mMaxCells s'" "mCode s' = mCode s" "mMaxCells s' = mMaxCells s"
    "(mStatus s' = Executing \<and> running_inv s')
       \<or> (mStatus s' = Success \<and> mCodePos s' = int (length (mCode s')) + 1)" by blast
  with Suc.prems(2,3) have rest: "run_loop n s' = Some r" by simp
  from s'(5) show ?case
  proof
    assume "mStatus s' = Executing \<and> running_inv s'"
    then show ?thesis using Suc.IH [of s'] rest s' by auto
  next
    assume "mStatus s' = Success \<and> mCodePos s' = int (length (mCode s')) + 1"
    then show ?thesis using rest s' by (cases n) auto
  qed
qed simp

text \<open>C24: a program whose brackets match never makes the interpreter read outside its code: started on a
  fresh machine, every run that ends does so normally, with status success, the position just past
  the terminating zero and the cursor on the tape.\<close>

theorem run_safe:
  assumes "well_bracketed program"
    and "Run n ((FromString program init)\<lparr>stdin := input, mOutputMode := mode\<rparr>) = Some r"
  shows "\<exists>s'. r = Inr s' \<and> mStatus s' = Success \<and> mCellPos s' < 300000
    \<and> mCodePos s' = int (length program) + 1 \<and> GetExitCode s' = 0"
proof -
  let ?s = "(FromString program init)\<lparr>stdin := input, mOutputMode := mode, mStatus := Executing\<rparr>"
  have "running_inv ?s" using assms(1) by (simp add: running_inv_def FromString_def init_def)
  from run_loop_inv [OF this, of n r] assms(2) show ?thesis
    by (auto simp: Run_def FromString_def init_def GetExitCode_def)
qed

lemma scan_sample: "scan_right ''[-]+'' 0 (Suc 0) = Inr 2"
  by code_simp

theorem run_safe_witness:
  "\<exists>r s'. Run 5 ((FromString ''[-]+'' init)\<lparr>stdin := [], mOutputMode := Raw\<rparr>) = Some r
     \<and> r = Inr s' \<and> mStatus s' = Success"
proof -
  have "well_bracketed ''[-]+''" by code_simp
  moreover have "Run 5 ((FromString ''[-]+'' init)\<lparr>stdin := [], mOutputMode := Raw\<rparr>) \<noteq> None"
  proof -
    have five: "(5 :: nat) = Suc (Suc (Suc (Suc (Suc 0))))" by simp
    show ?thesis
      using scan_sample unfolding five
      by (simp add: Run_def run_step_def code_at_def exec_char_def JumpLBrack_def
          FromString_def init_def advance_def IncrCell_def)
  qed
  ultimately show ?thesis using run_safe [where program = "''[-]+''" and n = 5 and input = "[]" and mode = Raw] by blast
qed

section \<open>The structured language\<close>

text \<open>
  What the interpreter is meant to run: sequences of plain commands and loops. \<open>flatten\<close> is
  the text of a program; \<open>eval\<close> its meaning, a loop being repeated while the current cell is
  not zero. Commands act on the machine's tape, cursor, input and output.
\<close>

datatype cmd = Op char | Loop "cmd list"

fun flat :: "cmd \<Rightarrow> string" where
  "flat (Op c) = [c]"
| "flat (Loop b) = CHR ''['' # concat (map flat b) @ [CHR '']'']"

definition flatten :: "cmd list \<Rightarrow> string" where
  "flatten cs = concat (map flat cs)"

fun plain :: "cmd \<Rightarrow> bool" where
  "plain (Op c) \<longleftrightarrow> c \<noteq> CHR ''['' \<and> c \<noteq> CHR '']''"
| "plain (Loop b) \<longleftrightarrow> list_all plain b"

definition effect :: "char \<Rightarrow> brainfuck \<Rightarrow> brainfuck" where
  "effect c s = (case exec_char c s of Inr s' \<Rightarrow> s' | Inl _ \<Rightarrow> s)"

inductive eval :: "cmd list \<Rightarrow> brainfuck \<Rightarrow> brainfuck \<Rightarrow> bool" where
  eval_Nil: "eval [] s s"
| eval_Op: "eval cs (effect c s) s' \<Longrightarrow> eval (Op c # cs) s s'"
| eval_Skip: "cell s = 0 \<Longrightarrow> eval cs s s' \<Longrightarrow> eval (Loop b # cs) s s'"
| eval_Loop: "cell s \<noteq> 0 \<Longrightarrow> eval b s s1 \<Longrightarrow> eval (Loop b # cs) s1 s' \<Longrightarrow> eval (Loop b # cs) s s'"

lemma flatten_simps [simp]:
  "flatten [] = []"
  "flatten (Op c # cs) = c # flatten cs"
  "flatten (Loop b # cs) = CHR ''['' # flatten b @ CHR '']'' # flatten cs"
  by (simp_all add: flatten_def)

lemma exec_char_effect:
  "c \<noteq> CHR ''['' \<Longrightarrow> c \<noteq> CHR '']'' \<Longrightarrow> exec_char c s = Inr (effect c s)"
  by (simp add: exec_char_def effect_def)

lemma ops_at [simp]:
  "IncrCell (s\<lparr>mCodePos := p\<rparr>) = (IncrCell s)\<lparr>mCodePos := p\<rparr>"
  "DecrCell (s\<lparr>mCodePos := p\<rparr>) = (DecrCell s)\<lparr>mCodePos := p\<rparr>"
  "MoveCursor d (s\<lparr>mCodePos := p\<rparr>) = (MoveCursor d s)\<lparr>mCodePos := p\<rparr>"
  "InputChar (s\<lparr>mCodePos := p\<rparr>) = (InputChar s)\<lparr>mCodePos := p\<rparr>"
  "OutputChar (s\<lparr>mCodePos := p\<rparr>) = (OutputChar s)\<lparr>mCodePos := p\<rparr>"
  by (auto simp: IncrCell_def DecrCell_def InputChar_def OutputChar_def
      simp del: dropWhile_eq_Nil_conv split: list.splits output_mode.splits) (cases d; simp)

lemma cell_fields [simp]:
  "mCode (IncrCell s) = mCode s" "mStatus (IncrCell s) = mStatus s"
  "mCode (DecrCell s) = mCode s" "mStatus (DecrCell s) = mStatus s"
  by (simp_all add: IncrCell_def DecrCell_def)

lemma effect_at:
  assumes "c \<noteq> CHR ''[''" and "c \<noteq> CHR '']''"
  shows "effect c (s\<lparr>mCodePos := p\<rparr>) = (effect c s)\<lparr>mCodePos := p\<rparr>"
    and "mCode (effect c s) = mCode s" and "mStatus (effect c s) = mStatus s"
  using assms by (simp_all add: effect_def exec_char_def)

text \<open>The text of a program is well bracketed, so both scans pass over it.\<close>

lemma well_bracketed_iff: "well_bracketed w \<longleftrightarrow> (\<forall>p. 0 \<le> depth (take p w)) \<and> depth w = 0"
  using well_bracketed_take [of w] by (auto simp: well_bracketed_def list_all_iff)

lemma well_bracketed_intros:
  "well_bracketed []"
  "c \<noteq> CHR ''['' \<Longrightarrow> c \<noteq> CHR '']'' \<Longrightarrow> well_bracketed w \<Longrightarrow> well_bracketed (c # w)"
  "well_bracketed v \<Longrightarrow> well_bracketed w \<Longrightarrow> well_bracketed (CHR ''['' # v @ CHR '']'' # w)"
  by (auto simp: well_bracketed_iff weight_def take_Cons' le_add_diff_inverse)

lemma well_bracketed_append: "well_bracketed v \<Longrightarrow> well_bracketed w \<Longrightarrow> well_bracketed (v @ w)"
  by (simp add: well_bracketed_iff)

lemma well_bracketed_flat: "plain c \<Longrightarrow> well_bracketed (flat c)"
proof (induction c)
  case (Op c)
  then show ?case by (auto intro: well_bracketed_intros)
next
  case (Loop b)
  then have "well_bracketed (concat (map flat b))"
    by (induction b) (auto intro: well_bracketed_intros well_bracketed_append)
  then show ?case
    using well_bracketed_intros(3) [of _ "[]"] by (simp add: well_bracketed_intros(1))
qed

lemma well_bracketed_flatten: "list_all plain cs \<Longrightarrow> well_bracketed (flatten cs)"
  by (induction cs)
    (auto simp: flatten_def intro: well_bracketed_intros well_bracketed_append well_bracketed_flat)

lemma scan_right_over:
  "well_bracketed w \<Longrightarrow> 0 < k \<Longrightarrow> scan_right (pre @ w @ post) (int (length pre) - 1) k =
     scan_right (pre @ w @ post) (int (length pre + length w) - 1) k"
  using scan_right_through [of w k pre post] by (simp add: well_bracketed_iff add_pos_nonneg)

lemma scan_left_over:
  assumes "well_bracketed w" and "0 < k"
  shows "scan_left (pre @ w @ post) (int (length pre + length w) - 1) k =
     scan_left (pre @ w @ post) (int (length pre) - 1) k"
proof -
  have "depth (drop p w) < int k" for p
  proof -
    have "0 \<le> depth (take p w)" using assms(1) by (simp add: well_bracketed_iff)
    moreover have "depth (take p w) + depth (drop p w) = 0"
      using assms(1) by (simp add: depth_take_drop well_bracketed_iff)
    ultimately show ?thesis using assms(2) by linarith
  qed
  then show ?thesis using scan_left_through [of w k pre post] assms(1) by (simp add: well_bracketed_iff)
qed

section \<open>The interpreter runs the structured language\<close>

text \<open>From \<open>s\<close> the run loop gets to \<open>s'\<close> in some number of passes.\<close>

definition reaches :: "brainfuck \<Rightarrow> brainfuck \<Rightarrow> bool" where
  "reaches s s' \<longleftrightarrow> (\<exists>n. \<forall>m. run_loop (n + m) s = run_loop m s')"

lemma reaches_refl: "reaches s s"
  by (auto simp: reaches_def intro: exI [of _ 0])

lemma reaches_trans:
  assumes "reaches s t" and "reaches t u"
  shows "reaches s u"
proof -
  from assms obtain n n' where "\<forall>m. run_loop (n + m) s = run_loop m t"
    and "\<forall>m. run_loop (n' + m) t = run_loop m u" by (auto simp: reaches_def)
  then have "\<forall>m. run_loop ((n + n') + m) s = run_loop m u" by (simp add: add.assoc)
  then show ?thesis by (auto simp: reaches_def)
qed

lemma reaches_step: "mStatus s = Executing \<Longrightarrow> run_step s = Inr s' \<Longrightarrow> reaches s s'"
  unfolding reaches_def by (rule exI [of _ 1]) simp

abbreviation at :: "brainfuck \<Rightarrow> nat \<Rightarrow> brainfuck" where
  "at s p \<equiv> s\<lparr>mCodePos := int p\<rparr>"

lemma advance_inside:
  "- 1 \<le> p \<Longrightarrow> p < int (length (mCode s)) \<Longrightarrow> advance (s\<lparr>mCodePos := p\<rparr>) = s\<lparr>mCodePos := p + 1\<rparr>"
  by (simp add: advance_def)

lemma reaches_op:
  assumes "mCode s = pre @ c # post" "mStatus s = Executing" "c \<noteq> CHR ''[''" "c \<noteq> CHR '']''"
  shows "reaches (at s (length pre)) (at (effect c s) (length pre + 1))"
proof (rule reaches_step)
  show "run_step (at s (length pre)) = Inr (at (effect c s) (length pre + 1))"
    using assms advance_inside [of "int (length pre)" "effect c s"]
    by (simp add: run_step_def exec_char_effect effect_at)
qed (use assms in simp)

lemma reaches_enter:
  assumes "mCode s = pre @ CHR ''['' # post" "mStatus s = Executing" "cell s \<noteq> 0"
  shows "reaches (at s (length pre)) (at s (length pre + 1))"
proof (rule reaches_step)
  show "run_step (at s (length pre)) = Inr (at s (length pre + 1))"
    using assms advance_inside [of "int (length pre)" s]
    by (simp add: run_step_def exec_char_def JumpLBrack_def)
qed (use assms in simp)

lemma reaches_skip:
  assumes "mCode s = pre @ CHR ''['' # w @ CHR '']'' # post" "mStatus s = Executing" "cell s = 0"
    and "well_bracketed w"
  shows "reaches (at s (length pre)) (at s (length pre + length w + 2))"
proof (rule reaches_step)
  have "scan_right (mCode s) (int (length pre)) 1 = Inr (int (length pre + length w + 1))"
    using scan_right_over [OF assms(4), of 1 "pre @ [CHR ''['']" "CHR '']'' # post"] assms(1)
      scan_right_Cons [of 1 "pre @ CHR ''['' # w" "CHR '']''" post]
    by (simp add: count_bracket.simps scan_right.simps [of _ _ 0])
  then show "run_step (at s (length pre)) = Inr (at s (length pre + length w + 2))"
    using assms advance_inside [of "int (length pre + length w + 1)" s]
    by (simp add: run_step_def exec_char_def JumpLBrack_def algebra_simps)
qed (use assms in simp)

lemma reaches_back:
  assumes "mCode s = pre @ CHR ''['' # w @ CHR '']'' # post" "mStatus s = Executing" "well_bracketed w"
  shows "reaches (at s (length pre + length w + 1)) (at s (length pre))"
proof (rule reaches_step)
  have "scan_left (mCode s) (int (length pre + length w)) 1 = Inr (int (length pre) - 1)"
    using scan_left_over [OF assms(3), of 1 "pre @ [CHR ''['']" "CHR '']'' # post"] assms(1)
      scan_left_snoc [of 1 pre "CHR ''[''" "w @ CHR '']'' # post"]
    by (simp add: count_bracket.simps scan_left.simps [of _ _ 0])
  moreover have "code_at (mCode s) (int (length pre + length w + 1)) = Inr CHR '']''"
    using assms(1) code_at_append(2) [of _ "pre @ CHR ''['' # w" "CHR '']''" post] by simp
  ultimately show "run_step (at s (length pre + length w + 1)) = Inr (at s (length pre))"
    using assms(1) advance_inside [of "int (length pre) - 1" s]
    by (simp add: run_step_def exec_char_def JumpRBrack_def)
qed (use assms in simp)

lemma eval_code:
  "eval cs s s' \<Longrightarrow> list_all plain cs \<Longrightarrow> mCode s' = mCode s \<and> mStatus s' = mStatus s"
  by (induction rule: eval.induct) (auto simp: effect_at)

text \<open>The simulation, for a program that stands anywhere in the code.\<close>

lemma eval_reaches:
  "eval cs s s' \<Longrightarrow> list_all plain cs \<Longrightarrow> mStatus s = Executing \<Longrightarrow>
   mCode s = pre @ flatten cs @ post \<Longrightarrow>
   reaches (at s (length pre)) (at s' (length pre + length (flatten cs)))"
proof (induction arbitrary: pre post rule: eval.induct)
  case (eval_Nil s)
  show ?case by (simp add: reaches_refl)
next
  case (eval_Op cs c s s')
  then have "reaches (at s (length pre)) (at (effect c s) (length pre + 1))"
    by (intro reaches_op [of _ _ _ "flatten cs @ post"]) auto
  moreover have "reaches (at (effect c s) (length (pre @ [c])))
      (at s' (length (pre @ [c]) + length (flatten cs)))"
    using eval_Op.prems by (intro eval_Op.IH [of _ post]) (auto simp: effect_at)
  ultimately show ?case by (auto intro: reaches_trans)
next
  case (eval_Skip s cs s' b)
  let ?pre = "pre @ CHR ''['' # flatten b @ [CHR '']'']"
  have "reaches (at s (length pre)) (at s (length pre + length (flatten b) + 2))"
    using eval_Skip.prems eval_Skip.hyps
    by (intro reaches_skip [of _ _ _ "flatten cs @ post"]) (auto intro: well_bracketed_flatten)
  moreover have "reaches (at s (length ?pre)) (at s' (length ?pre + length (flatten cs)))"
    using eval_Skip.prems by (intro eval_Skip.IH [of _ post]) auto
  ultimately show ?case by (auto intro: reaches_trans)
next
  case (eval_Loop s b s1 cs s')
  have code: "mCode s = (pre @ [CHR ''['']) @ flatten b @ CHR '']'' # flatten cs @ post"
    using eval_Loop.prems by simp
  have s1: "mCode s1 = mCode s" "mStatus s1 = Executing"
    using eval_code [OF eval_Loop.hyps(2)] eval_Loop.prems by auto
  have "reaches (at s (length pre)) (at s (length pre + 1))"
    using eval_Loop.prems eval_Loop.hyps
    by (intro reaches_enter [of _ _ "flatten b @ CHR '']'' # flatten cs @ post"]) auto
  moreover have "reaches (at s (length (pre @ [CHR ''['']))) (at s1 (length (pre @ [CHR ''['']) + length (flatten b)))"
    using eval_Loop.prems code by (intro eval_Loop.IH(1)) auto
  moreover have "reaches (at s1 (length pre + length (flatten b) + 1)) (at s1 (length pre))"
    using eval_Loop.prems s1
    by (intro reaches_back [of _ _ _ "flatten cs @ post"]) (auto intro: well_bracketed_flatten)
  moreover have "reaches (at s1 (length pre)) (at s' (length pre + length (flatten (Loop b # cs))))"
    using eval_Loop.prems s1 by (intro eval_Loop.IH(2) [of _ post]) auto
  ultimately show ?case by (auto intro: reaches_trans)
qed

lemma Run_eval:
  assumes "eval cs s s'" and "list_all plain cs" and "mStatus s = Executing"
    and "mCode s = flatten cs" and "mCodePos s = 0"
  shows "\<exists>n. Run n s = Some (Inr (s'\<lparr>mCodePos := int (length (flatten cs)) + 1, mStatus := Success\<rparr>))"
proof -
  let ?e = "at s' (length (flatten cs))"
  have s': "mCode s' = flatten cs" "mStatus s' = Executing" using eval_code [OF assms(1,2)] assms by auto
  have "s\<lparr>mCodePos := 0\<rparr> = s" and "s\<lparr>mStatus := Executing\<rparr> = s"
    using assms(3,5) by (metis brainfuck.surjective brainfuck.update_convs(4), metis brainfuck.surjective brainfuck.update_convs(2))
  with eval_reaches [OF assms(1,2,3), of "[]" "[]"] assms(4) obtain n
    where n: "\<And>m. run_loop (n + m) s = run_loop m ?e" by (auto simp: reaches_def)
  have "run_step ?e = Inr (s'\<lparr>mCodePos := int (length (flatten cs)) + 1, mStatus := Success\<rparr>)"
    using s' by (simp add: run_step_def code_at_def exec_char_def advance_def Let_def)
  then have "run_loop 2 ?e = Some (Inr (s'\<lparr>mCodePos := int (length (flatten cs)) + 1, mStatus := Success\<rparr>))"
    using s' by (simp add: numeral_2_eq_2)
  with n [of 2] have "run_loop (n + 2) s
      = Some (Inr (s'\<lparr>mCodePos := int (length (flatten cs)) + 1, mStatus := Success\<rparr>))" by (simp only:)
  then show ?thesis
    unfolding Run_def \<open>s\<lparr>mStatus := Executing\<rparr> = s\<close> by (rule exI)
qed

text \<open>C1: the interpreter implements the structured language: whenever a program has a meaning, running
  its text ends, with status success, in the tape, cursor, input and output the meaning gives.\<close>

theorem run_refines:
  assumes "eval cs s s'" and "list_all plain cs" and "mStatus s = Executing"
    and "mCode s = flatten cs" and "mCodePos s = 0"
  shows "\<exists>n. Run n s = Some (Inr (s'\<lparr>mCodePos := int (length (flatten cs)) + 1, mStatus := Success\<rparr>))"
  using assms by (rule Run_eval)

theorem run_refines_witness:
  "\<exists>n s'. Run n (init\<lparr>mStatus := Executing, mCode := ''+[-]''\<rparr>) = Some (Inr s')
     \<and> mStatus s' = Success \<and> cell s' = 0"
proof -
  let ?s = "init\<lparr>mStatus := Executing, mCode := ''+[-]''\<rparr>"
  let ?cs = "[Op CHR ''+'', Loop [Op CHR ''-'']]"
  let ?s1 = "effect CHR ''+'' ?s" and ?s2 = "effect CHR ''-'' (effect CHR ''+'' ?s)"
  have cells: "cell ?s1 \<noteq> 0" "cell ?s2 = 0"
    by (simp_all add: effect_def exec_char_def IncrCell_def DecrCell_def init_def)
  have body: "eval [Op CHR ''-''] ?s1 ?s2" by (rule eval_Op [OF eval_Nil])
  have out: "eval [Loop [Op CHR ''-'']] ?s2 ?s2" by (rule eval_Skip [OF cells(2) eval_Nil])
  have ev: "eval ?cs ?s ?s2" by (rule eval_Op [OF eval_Loop [OF cells(1) body out]])
  have "list_all plain ?cs" and "mStatus ?s = Executing" and "mCode ?s = flatten ?cs" and "mCodePos ?s = 0"
    by (simp_all add: init_def)
  from run_refines [OF ev this] obtain n
    where "Run n ?s = Some (Inr (?s2\<lparr>mCodePos := int (length (flatten ?cs)) + 1, mStatus := Success\<rparr>))" ..
  then show ?thesis using cells(2) by (intro exI conjI) (assumption, simp, simp)
qed

section \<open>Validation\<close>

text \<open>\<open>Validate\<close> compares the numbers of the two brackets, modulo the width of its counter; it accepts
  a program that closes a bracket before opening it, and running that program reads outside the
  code at its first step.\<close>

theorem validate_is_counting:
  "(Validate s = Success \<longleftrightarrow> (of_int (depth (mCode s)) :: u64) = 0)
   \<and> Validate (FromString '']['' init) = Success
   \<and> Run 1 (FromString '']['' init) = Some (Inl Out_Of_Bounds)"
proof (intro conjI)
  have "foldl (\<lambda>cursor c. if c = CHR ''['' then cursor + 1 else if c = CHR '']'' then cursor - 1 else cursor) a code
      = a + (of_int (depth code) :: u64)" for a code
    by (induction code arbitrary: a) (auto simp: weight_def)
  then show "Validate s = Success \<longleftrightarrow> (of_int (depth (mCode s)) :: u64) = 0"
    by (simp add: Validate_def)
  show "Validate (FromString '']['' init) = Success"
    by (simp add: Validate_def FromString_def)
  show "Run 1 (FromString '']['' init) = Some (Inl Out_Of_Bounds)"
    by (simp add: Run_def FromString_def init_def run_step_def code_at_def exec_char_def
        JumpRBrack_def scan_left.simps [of _ _ "Suc 0"])
qed

end
