(* ===== verification/Bigint.thy ===== *)
theory Bigint
  imports Prelude
begin

text \<open>
  The unbounded integers of \<^verbatim>\<open>ds/bigint.cc\<close>: decimal digits, most significant first, each an
  \<open>int8_t\<close>, here a byte read as a signed number where the code compares or prints it.
\<close>

section \<open>Model\<close>

text \<open>The second constructor leaves \<open>sign_\<close> uninitialised: \<open>None\<close>.\<close>

record bigint =
  bi_digits :: "u8 list"
  bi_sign :: "u8 option"

definition BigInt :: "string \<Rightarrow> bigint result" where
  "BigInt str =
     (if \<exists>c\<in>set str. \<not> is_digit c
      then Inl (Thrown ''bigint input should be purely numeric'')
      else Inr \<lparr>bi_digits = foldl (\<lambda>ds c. (byte_of c - 0x30) # ds) [] (rev str), bi_sign = Some 0\<rparr>)"

definition BigInt_of_digits :: "u8 list \<Rightarrow> bigint" where
  "BigInt_of_digits ds = \<lparr>bi_digits = ds, bi_sign = None\<rparr>"

definition ToString :: "bigint \<Rightarrow> string" where
  "ToString b = concat (map (\<lambda>d. print_int (sint d)) (bi_digits b))"

text \<open>
  The first loop of \<open>operator+\<close> runs over both numbers from the least significant digit on
  and pushes the sums to the front; the arguments here are the digits still to come, least
  significant first.
\<close>

fun sum_digits :: "u8 list \<Rightarrow> u8 list \<Rightarrow> u8 list \<Rightarrow> u8 list" where
  "sum_digits [] small_it ret = ret"
| "sum_digits (big # bigger_it) small_it ret =
     (case small_it of
        [] \<Rightarrow> sum_digits bigger_it [] ((big + 0) # ret)
      | small # small_it \<Rightarrow> sum_digits bigger_it small_it ((big + small) # ret))"

text \<open>The carry loop, over the sums from the least significant on.\<close>

fun carry_digits :: "u8 \<Rightarrow> u8 list \<Rightarrow> u8 list \<times> u8" where
  "carry_digits carry [] = ([], carry)"
| "carry_digits carry (d # ds) =
     (let d = d + carry;
          (d, carry) = (if 10 \<le> sint d then (d - 10, 1) else (d, 0));
          (ds, carry) = carry_digits carry ds
      in (d # ds, carry))"

definition plus_bigint :: "bigint \<Rightarrow> bigint \<Rightarrow> bigint" where
  "plus_bigint this other =
     (let smaller = (if length (bi_digits other) < length (bi_digits this) then other else this);
          bigger = (if length (bi_digits other) \<ge> length (bi_digits this) then other else this);
          ret = sum_digits (rev (bi_digits bigger)) (rev (bi_digits smaller)) [];
          (ret, carry) = carry_digits 0 (rev ret);
          ret = rev ret;
          ret = (if carry = 1 then carry # ret else ret)
      in BigInt_of_digits ret)"

definition minus_bigint :: "bigint \<Rightarrow> bigint \<Rightarrow> bigint" where
  "minus_bigint this other = BigInt_of_digits []"

section \<open>Values\<close>

definition digits_ok :: "u8 list \<Rightarrow> bool" where
  "digits_ok ds \<longleftrightarrow> (\<forall>d\<in>set ds. unat d < 10)"

definition bigint_value :: "bigint \<Rightarrow> nat" where
  "bigint_value b = horner 10 (map unat (bi_digits b))"

text \<open>The value of digits given least significant first.\<close>

fun le_decimal :: "u8 list \<Rightarrow> nat" where
  "le_decimal [] = 0"
| "le_decimal (d # ds) = unat d + 10 * le_decimal ds"

lemma horner_rev: "horner 10 (map unat (rev ds)) = le_decimal ds"
  by (induction ds) simp_all

lemma le_decimal_snoc: "le_decimal (ds @ [d]) = le_decimal ds + unat d * 10 ^ length ds"
  by (induction ds) simp_all

lemma bigint_value_rev: "bigint_value b = le_decimal (rev (bi_digits b))"
  using horner_rev [of "rev (bi_digits b)"] by (simp add: bigint_value_def)

lemma sint_le_iff: "unat (d :: u8) < 128 \<Longrightarrow> 10 \<le> sint d \<longleftrightarrow> 10 \<le> unat d"
  unfolding sint_small by linarith

lemma unat_add_small: "unat a + unat b < 256 \<Longrightarrow> unat (a + b :: u8) = unat a + unat b"
  by (simp add: unat_word_ariths)

text \<open>The sums, least significant first, as a list of their own.\<close>

fun sums :: "u8 list \<Rightarrow> u8 list \<Rightarrow> u8 list" where
  "sums [] ss = []"
| "sums (b # bs) [] = b # bs"
| "sums (b # bs) (s # ss) = (b + s) # sums bs ss"

lemma sum_digits_Nil: "sum_digits bs [] ret = rev bs @ ret"
  by (induction bs arbitrary: ret) simp_all

lemma sum_digits_sums: "sum_digits bs ss ret = rev (sums bs ss) @ ret"
proof (induction bs ss arbitrary: ret rule: sums.induct)
  case (2 b bs)
  then show ?case by (simp add: sum_digits_Nil)
qed simp_all

lemma sums_ok:
  "digits_ok bs \<Longrightarrow> digits_ok ss \<Longrightarrow> length ss \<le> length bs \<Longrightarrow>
   le_decimal (sums bs ss) = le_decimal bs + le_decimal ss \<and> (\<forall>d\<in>set (sums bs ss). unat d < 19)"
  by (induction bs ss rule: sums.induct) (fastforce simp: digits_ok_def unat_add_small)+

lemma carry_digits_ok:
  assumes "\<forall>d\<in>set ds. unat d < 19" and "unat c \<le> 1" and "carry_digits c ds = (r, c')"
  shows "digits_ok r \<and> unat c' \<le> 1 \<and> length r = length ds
    \<and> le_decimal r + unat c' * 10 ^ length ds = le_decimal ds + unat c"
  using assms
proof (induction c ds arbitrary: r c' rule: carry_digits.induct)
  case (1 c)
  then show ?case by (simp add: digits_ok_def)
next
  case (2 c d ds)
  have sum: "unat (d + c) = unat d + unat c" using 2(2,3) by (intro unat_add_small) auto
  then have small: "unat (d + c) < 20" using 2(2,3) by auto
  then have cmp: "10 \<le> sint (d + c) \<longleftrightarrow> 10 \<le> unat (d + c)" by (intro sint_le_iff) simp
  show ?case
  proof (cases "10 \<le> unat (d + c)")
    case True
    obtain r1 c1 where r1: "carry_digits 1 ds = (r1, c1)" by fastforce
    have "unat (d + c - 10) = unat (d + c) - 10"
      using True by (simp add: unat_sub word_le_nat_alt)
    then show ?thesis
      using 2(1) [of "d + c" "(d + c - 10, 1)" "d + c - 10" 1 r1 c1] 2(2,4) True cmp r1 sum small
      by (auto simp: digits_ok_def)
  next
    case False
    obtain r1 c1 where r1: "carry_digits 0 ds = (r1, c1)" by fastforce
    then show ?thesis
      using 2(1) [of "d + c" "(d + c, 0)" "d + c" 0 r1 c1] 2(2,4) False cmp sum
      by (auto simp: digits_ok_def)
  qed
qed


lemma plus_bigint_ok:
  assumes "digits_ok (bi_digits a)" and "digits_ok (bi_digits b)"
  shows "bigint_value (plus_bigint a b) = bigint_value a + bigint_value b
    \<and> digits_ok (bi_digits (plus_bigint a b))"
proof -
  define s where "s = (if length (bi_digits b) < length (bi_digits a) then b else a)"
  define g where "g = (if length (bi_digits b) \<ge> length (bi_digits a) then b else a)"
  have sum: "bigint_value a + bigint_value b = bigint_value g + bigint_value s"
    and ok: "digits_ok (rev (bi_digits g))" "digits_ok (rev (bi_digits s))"
    and len: "length (rev (bi_digits s)) \<le> length (rev (bi_digits g))"
    using assms by (auto simp: s_def g_def digits_ok_def)
  let ?t = "sums (rev (bi_digits g)) (rev (bi_digits s))"
  obtain r c where r: "carry_digits 0 ?t = (r, c)" by fastforce
  have "le_decimal ?t = bigint_value g + bigint_value s" and "\<forall>d\<in>set ?t. unat d < 19"
    using sums_ok [OF ok len] by (simp_all add: bigint_value_rev)
  with carry_digits_ok [OF _ _ r] have r_ok: "digits_ok r" "unat c \<le> 1"
    "le_decimal r + unat c * 10 ^ length r = bigint_value a + bigint_value b"
    by (auto simp: sum)
  have c: "c = 1 \<longleftrightarrow> unat c = 1" by (metis unsigned_1 unsigned_word_eqI)
  have plus: "bi_digits (plus_bigint a b) = (if c = 1 then c # rev r else rev r)"
    by (simp add: plus_bigint_def Let_def sum_digits_sums r BigInt_of_digits_def flip: s_def g_def)
  show ?thesis
    using r_ok c by (cases "unat c = 1"; cases "unat c") (auto simp: plus bigint_value_rev digits_ok_def le_decimal_snoc)
qed

section \<open>Strings\<close>

lemma foldl_push_front: "foldl (\<lambda>ds c. f c # ds) ds xs = rev (map f xs) @ ds"
  by (induction xs arbitrary: ds) simp_all

lemma BigInt_digits: "BigInt s = Inr b \<Longrightarrow> bi_digits b = map (\<lambda>c. byte_of c - 0x30) s"
  by (auto simp: BigInt_def foldl_push_front rev_map split: if_splits)

lemma unat_digit: "is_digit c \<Longrightarrow> unat (byte_of c - 0x30) = ascii c - 48 \<and> ascii c - 48 < 10"
proof -
  assume c: "is_digit c"
  have "unat (byte_of c) = ascii c" by (simp add: byte_of_def unat_of_nat)
  moreover have "(0x30 :: u8) \<le> byte_of c"
    using c calculation by (simp add: is_digit_def word_le_nat_alt)
  ultimately show ?thesis using c by (auto simp: unat_sub is_digit_def)
qed

lemma digit_val_digit: "is_digit c \<Longrightarrow> digit_val c = Some (ascii c - 48)"
  by (simp add: digit_val_def is_digit_def)

lemma print_int_digit: "unat (d :: u8) < 10 \<Longrightarrow> print_int (sint d) = [digit_char (unat d)]"
proof -
  assume d: "unat d < 10"
  then have "sint d = int (unat d)" by (intro sint_small) simp
  then have "nat (sint d) = unat d" "\<not> sint d < 0" by linarith+
  with d show ?thesis by (simp add: print_int_def print_nat_def to_digits.simps [of 10 "unat d"])
qed

lemma digit_char_digit: "is_digit c \<Longrightarrow> digit_char (ascii c - 48) = c"
  by (auto simp: digit_char_def is_digit_def ascii_def)

lemma ToString_digits: "digits_ok (bi_digits b) \<Longrightarrow> ToString b = map (\<lambda>d. digit_char (unat d)) (bi_digits b)"
  unfolding ToString_def digits_ok_def
  by (induction "bi_digits b" arbitrary: b) (simp_all add: print_int_digit concat_map_singleton cong: map_cong)

lemma BigInt_ok:
  assumes "BigInt s = Inr b"
  shows "digits_ok (bi_digits b) \<and> bigint_value b = digits_value 10 s \<and> ToString b = s"
proof -
  have ds: "\<forall>c\<in>set s. is_digit c" using assms by (auto simp: BigInt_def split: if_splits)
  then have ok: "digits_ok (bi_digits b)"
    by (auto simp: BigInt_digits [OF assms] digits_ok_def unat_digit)
  have "map (unat \<circ> (\<lambda>c. byte_of c - 0x30)) s = map (\<lambda>c. the (digit_val c)) s"
    using ds by (auto simp: digit_val_digit dest!: unat_digit)
  then have "bigint_value b = digits_value 10 s"
    by (simp add: bigint_value_def BigInt_digits [OF assms] digits_value_def del: map_eq_conv)
  moreover have "ToString b = s"
    using ds by (simp add: ToString_digits [OF ok] BigInt_digits [OF assms] comp_def unat_digit
        digit_char_digit map_idI)
  ultimately show ?thesis using ok by simp
qed

lemma ToString_value: "digits_ok (bi_digits b) \<Longrightarrow>
    (\<forall>c\<in>set (ToString b). is_digit c) \<and> digits_value 10 (ToString b) = bigint_value b"
proof -
  assume ok: "digits_ok (bi_digits b)"
  then have lt: "\<And>d. d \<in> set (map unat (bi_digits b)) \<Longrightarrow> d < 10" by (auto simp: digits_ok_def)
  then have "digits_value 10 (map digit_char (map unat (bi_digits b))) = bigint_value b"
    by (subst digits_value_digit_chars) (fastforce simp: bigint_value_def)+
  moreover have "\<forall>c\<in>set (ToString b). is_digit c"
    using ok by (auto simp: ToString_digits [OF ok] is_digit_def digit_char_ascii digits_ok_def)
  ultimately show ?thesis by (simp add: ToString_digits [OF ok] comp_def)
qed

text \<open>A string becomes a number exactly when all its characters are decimal digits, and is printed
  back unchanged, leading zeros included; any other string throws.\<close>

theorem bigint_string_roundtrip:
  "rmap ToString (BigInt s) =
     (if list_all is_digit s then Inr s
      else Inl (Thrown ''bigint input should be purely numeric''))"
proof (cases "BigInt s")
  case (Inl e)
  then show ?thesis by (auto simp: BigInt_def list_all_iff split: if_splits)
next
  case (Inr b)
  then have "list_all is_digit s" by (auto simp: BigInt_def list_all_iff split: if_splits)
  then show ?thesis using BigInt_ok [OF Inr] Inr by simp
qed

text \<open>C20:
  Adding two numbers given as strings of digits of any length gives a number whose digits are
  all decimal and whose printed form is the sum of the two: the eight-bit digits never overflow
  and no carry is lost.\<close>

theorem bigint_add:
  assumes "BigInt s = Inr a" and "BigInt t = Inr b"
  shows "list_all is_digit (ToString (plus_bigint a b))
    \<and> digits_value 10 (ToString (plus_bigint a b)) = digits_value 10 s + digits_value 10 t"
proof -
  have "digits_ok (bi_digits a)" "digits_ok (bi_digits b)"
    using BigInt_ok [OF assms(1)] BigInt_ok [OF assms(2)] by simp_all
  note plus = plus_bigint_ok [OF this]
  then show ?thesis
    using ToString_value [of "plus_bigint a b"] BigInt_ok [OF assms(1)] BigInt_ok [OF assms(2)]
    by (simp add: list_all_iff)
qed

theorem bigint_add_witness:
  "\<exists>a b. BigInt ''999'' = Inr a \<and> BigInt ''27'' = Inr b
    \<and> digits_value 10 (ToString (plus_bigint a b)) = 1026"
proof -
  obtain a b where ab: "BigInt ''999'' = Inr a" "BigInt ''27'' = Inr b"
    by (simp add: BigInt_def is_digit_def ascii_def)
  have v: "digits_value 10 ''999'' = 999" "digits_value 10 ''27'' = 27" by code_simp+
  show ?thesis using ab bigint_add [OF ab] by (simp add: v)
qed

end
