(* ===== verification/Hashes.thy ===== *)
theory Hashes
  imports Prelude
begin

text \<open>
  The checksums of \<^verbatim>\<open>ds/hashes.cc\<close>, each a loop over the bytes on words of the width the code
  uses. \<open>poly_hash\<close> is the contract \<open>djb2\<close> and \<open>sdbm\<close> share: a step that multiplies by an
  invertible constant and adds the byte.
\<close>

section \<open>Model\<close>

definition djb2 :: "bytes \<Rightarrow> u64" where
  "djb2 bytes = foldl (\<lambda>hash byte. (push_bit 5 hash + hash) + ucast byte) 5381 bytes"

definition sdbm :: "bytes \<Rightarrow> u64" where
  "sdbm bytes = foldl (\<lambda>hash byte. ucast byte + push_bit 6 hash + push_bit 16 hash - hash) 0 bytes"

definition loselose :: "bytes \<Rightarrow> u64" where
  "loselose bytes = foldl (\<lambda>hash byte. hash + ucast byte) 0 bytes"

definition fletcher16 :: "bytes \<Rightarrow> u16" where
  "fletcher16 bytes =
     (let (c0, c1) =
        foldl (\<lambda>(c0 :: u8, c1 :: u8) byte.
                 let c0 = c0 + byte; c1 = c1 + c0 in (c0, c1)) (0, 0) bytes
      in ucast c0 OR push_bit 8 (ucast c1))"

definition fletcher32 :: "bytes \<Rightarrow> u32" where
  "fletcher32 bytes =
     (let (c0, c1) =
        foldl (\<lambda>(c0 :: u16, c1 :: u16) byte.
                 let c0 = c0 + ucast byte; c1 = c1 + c0 in (c0, c1)) (0, 0) bytes
      in ucast c0 OR push_bit 16 (ucast c1))"

section \<open>Multiplicative hashes\<close>

locale poly_hash =
  fixes step :: "u64 \<Rightarrow> u8 \<Rightarrow> u64" and mult :: u64 and inverse_mult :: u64
  assumes step: "step h b = mult * h + ucast b"
    and inverse: "inverse_mult * mult = 1"
begin

lemma step_inj_hash: "step h b = step h' b \<longleftrightarrow> h = h'"
proof
  assume "step h b = step h' b"
  then have "inverse_mult * (mult * h) = inverse_mult * (mult * h')" by (simp add: step)
  then show "h = h'" by (simp add: inverse flip: mult.assoc)
qed simp

lemma step_inj_byte: "step h b = step h c \<longleftrightarrow> b = c"
proof
  assume "step h b = step h c"
  then have "unat (ucast b :: u64) = unat (ucast c :: u64)" by (simp add: step)
  then show "b = c" by (simp add: unat_ucast_u8 word_unat_eq_iff)
qed simp

lemma foldl_inj: "foldl step h bs = foldl step h' bs \<longleftrightarrow> h = h'"
  by (induction bs arbitrary: h h') (simp_all add: step_inj_hash)

lemma single_byte: "foldl step h (xs @ b # ys) = foldl step h (xs @ c # ys) \<longleftrightarrow> b = c"
  by (simp add: foldl_inj step_inj_byte)

lemma foldl_poly:
  "foldl step h bs = mult ^ length bs * h
     + (\<Sum>i<length bs. mult ^ (length bs - 1 - i) * ucast (bs ! i))"
proof (induction bs rule: rev_induct)
  case Nil
  show ?case by simp
next
  case (snoc b bs)
  have "mult ^ (length bs - i) * ucast ((bs @ [b]) ! i)
      = mult * (mult ^ (length bs - 1 - i) * (ucast (bs ! i) :: u64))" if "i < length bs" for i
  proof -
    have "length bs - i = Suc (length bs - 1 - i)" using that by simp
    then show ?thesis using that by (simp add: nth_append mult.assoc)
  qed
  then have "(\<Sum>i<length bs. mult ^ (length bs - i) * ucast ((bs @ [b]) ! i))
      = mult * (\<Sum>i<length bs. mult ^ (length bs - 1 - i) * (ucast (bs ! i) :: u64))"
    by (simp add: sum_distrib_left)
  moreover have "foldl step h (bs @ [b]) = mult * foldl step h bs + ucast b"
    by (simp, rule step)
  ultimately show ?case unfolding snoc by (simp add: distrib_left mult.assoc)
qed

end

lemma djb2_step: "push_bit 5 h + h + ucast (b :: u8) = (33 :: u64) * h + ucast b"
  by (simp add: push_bit_eq_mult)

lemma sdbm_step:
  "ucast (b :: u8) + push_bit 6 h + push_bit 16 h - h = (65599 :: u64) * h + ucast b"
  by (simp add: push_bit_eq_mult)

interpretation djb2: poly_hash
  "\<lambda>hash byte. (push_bit 5 hash + hash) + ucast byte" 33 1117984489315730401
  by unfold_locales (simp_all only: djb2_step, simp)

interpretation sdbm: poly_hash
  "\<lambda>hash byte. ucast byte + push_bit 6 hash + push_bit 16 hash - hash" 65599 16079000890114764735
  by unfold_locales (simp_all only: sdbm_step, simp)

text \<open>\<open>djb2\<close> and \<open>sdbm\<close> evaluate the message as a polynomial in 33 and in 65599 modulo \<open>2 ^ 64\<close>,
  the first byte the most significant.\<close>

theorem djb2_sdbm_polynomial:
  "djb2 bs = 33 ^ length bs * 5381
     + (\<Sum>i<length bs. 33 ^ (length bs - 1 - i) * ucast (bs ! i))
   \<and> sdbm bs = (\<Sum>i<length bs. 65599 ^ (length bs - 1 - i) * ucast (bs ! i))"
  by (simp add: djb2_def sdbm_def djb2.foldl_poly sdbm.foldl_poly)

text \<open>Changing one byte of a message, wherever it stands and however long the message is, always
  changes its \<open>djb2\<close> and its \<open>sdbm\<close> hash: no two bytes collide in any context.\<close>

theorem djb2_sdbm_single_byte:
  "(djb2 (xs @ b # ys) = djb2 (xs @ c # ys)) = (b = c)
   \<and> (sdbm (xs @ b # ys) = sdbm (xs @ c # ys)) = (b = c)"
  unfolding djb2_def sdbm_def djb2.single_byte sdbm.single_byte by simp

section \<open>Sums\<close>

lemma loselose_sum: "loselose bs = of_nat (\<Sum>b\<leftarrow>bs. unat b)"
proof -
  have "foldl (\<lambda>hash byte. hash + ucast byte) h bs = h + of_nat (\<Sum>b\<leftarrow>bs. unat b)" for h :: u64
    by (induction bs arbitrary: h) (simp_all add: add.assoc)
  then show ?thesis by (simp add: loselose_def)
qed

text \<open>The sum of the bytes and the sum of the running totals over the prefixes of the message.\<close>

definition fletcher_sums :: "bytes \<Rightarrow> nat \<times> nat" where
  "fletcher_sums bs =
     (\<Sum>x\<leftarrow>bs. unat x, \<Sum>k\<le>length bs. \<Sum>x\<leftarrow>take k bs. unat x)"

lemma loselose_fst: "loselose bs = of_nat (fst (fletcher_sums bs))"
  by (simp only: loselose_sum fletcher_sums_def fst_conv)

lemma fletcher_sums_snoc:
  "fletcher_sums (bs @ [x]) =
     (let (s0, s1) = fletcher_sums bs; s0 = s0 + unat x in (s0, s1 + s0))"
  by (simp add: fletcher_sums_def Let_def)

lemma fletcher_loop:
  "foldl (\<lambda>(c0 :: 'a::len word, c1 :: 'a word) byte :: u8.
            let c0 = c0 + ucast byte; c1 = c1 + c0 in (c0, c1)) (0, 0) bs
   = (of_nat (fst (fletcher_sums bs)), of_nat (snd (fletcher_sums bs)))"
proof (induction bs rule: rev_induct)
  case Nil
  show ?case by (simp add: fletcher_sums_def)
next
  case (snoc x bs)
  then show ?case by (simp add: fletcher_sums_snoc Let_def case_prod_unfold)
qed

text \<open>C40:
  \<open>fletcher16\<close> and \<open>fletcher32\<close> hold the sum of the bytes and the sum of its running totals,
  reduced modulo \<open>2 ^ 8\<close> and \<open>2 ^ 16\<close>, where the published checksums reduce modulo 255 and 65535;
  \<open>loselose\<close> is the sum of the bytes.\<close>

theorem fletcher_closed_form:
  "unat (fletcher16 bs) =
     fst (fletcher_sums bs) mod 2 ^ 8 + 2 ^ 8 * (snd (fletcher_sums bs) mod 2 ^ 8)
   \<and> unat (fletcher32 bs) =
     fst (fletcher_sums bs) mod 2 ^ 16 + 2 ^ 16 * (snd (fletcher_sums bs) mod 2 ^ 16)
   \<and> unat (loselose bs) = fst (fletcher_sums bs) mod 2 ^ 64"
proof -
  have 1: "unat ((ucast c0 :: u16) OR push_bit 8 (ucast c1)) = unat c0 + 2 ^ 8 * unat c1"
    for c0 c1 :: u8
    using unat_or_push_bit [of "ucast c0 :: u16" 8 "ucast c1"] unat_u8_less [of c0] unat_u8_less [of c1]
    by (simp add: unat_ucast_u8)
  have 2: "unat ((ucast c0 :: u32) OR push_bit 16 (ucast c1)) = unat c0 + 2 ^ 16 * unat c1"
    for c0 c1 :: u16
  proof -
    have "unat c0 < 65536" "unat c1 < 65536"
      using unsigned_less [of c0, where ?'a = nat] unsigned_less [of c1, where ?'a = nat] by simp_all
    moreover from this have "take_bit 32 (unat c0) = unat c0" "take_bit 32 (unat c1) = unat c1"
      by (auto intro: take_bit_nat_eq_self)
    ultimately show ?thesis
      using unat_or_push_bit [of "ucast c0 :: u32" 16 "ucast c1 :: u32"]
      by (simp add: unsigned_ucast_eq)
  qed
  show ?thesis
    using fletcher_loop [of bs, where ?'a = 8] fletcher_loop [of bs, where ?'a = 16]
    by (simp add: fletcher16_def fletcher32_def 1 2 loselose_fst unat_of_nat)
qed

end
