(* ===== verification/Md5.thy ===== *)
theory Md5
  imports Prelude
begin

text \<open>
  The MD5 digest of \<^verbatim>\<open>ds/md5.cc\<close>: the padding, the chunk extraction, the four unrolled
  rounds with their constants, the block loop with its 32-bit counter and the printing of the
  digest. The rounds are proved equal to the sixty-four table-driven steps of RFC 1321.
\<close>

section \<open>Constants and round functions\<close>

definition kSine :: "u32 list" where
  "kSine = [
    0xd76aa478, 0xe8c7b756, 0x242070db, 0xc1bdceee,
    0xf57c0faf, 0x4787c62a, 0xa8304613, 0xfd469501,
    0x698098d8, 0x8b44f7af, 0xffff5bb1, 0x895cd7be,
    0x6b901122, 0xfd987193, 0xa679438e, 0x49b40821,
    0xf61e2562, 0xc040b340, 0x265e5a51, 0xe9b6c7aa,
    0xd62f105d, 0x02441453, 0xd8a1e681, 0xe7d3fbc8,
    0x21e1cde6, 0xc33707d6, 0xf4d50d87, 0x455a14ed,
    0xa9e3e905, 0xfcefa3f8, 0x676f02d9, 0x8d2a4c8a,
    0xfffa3942, 0x8771f681, 0x6d9d6122, 0xfde5380c,
    0xa4beea44, 0x4bdecfa9, 0xf6bb4b60, 0xbebfbc70,
    0x289b7ec6, 0xeaa127fa, 0xd4ef3085, 0x04881d05,
    0xd9d4d039, 0xe6db99e5, 0x1fa27cf8, 0xc4ac5665,
    0xf4292244, 0x432aff97, 0xab9423a7, 0xfc93a039,
    0x655b59c3, 0x8f0ccc92, 0xffeff47d, 0x85845dd1,
    0x6fa87e4f, 0xfe2ce6e0, 0xa3014314, 0x4e0811a1,
    0xf7537e82, 0xbd3af235, 0x2ad7d2bb, 0xeb86d391]"

definition kA0 :: u32 where "kA0 = 0x67452301"
definition kB0 :: u32 where "kB0 = 0xefcdab89"
definition kC0 :: u32 where "kC0 = 0x98badcfe"
definition kD0 :: u32 where "kD0 = 0x10325476"

definition LeftRotate :: "u32 \<Rightarrow> u32 \<Rightarrow> u32" where
  "LeftRotate v shift_size =
     push_bit (unat shift_size) v OR drop_bit (unat (32 - shift_size)) v"

definition kS11 :: u32 where "kS11 = 7"
definition kS12 :: u32 where "kS12 = 12"
definition kS13 :: u32 where "kS13 = 17"
definition kS14 :: u32 where "kS14 = 22"
definition kS21 :: u32 where "kS21 = 5"
definition kS22 :: u32 where "kS22 = 9"
definition kS23 :: u32 where "kS23 = 14"
definition kS24 :: u32 where "kS24 = 20"
definition kS31 :: u32 where "kS31 = 4"
definition kS32 :: u32 where "kS32 = 11"
definition kS33 :: u32 where "kS33 = 16"
definition kS34 :: u32 where "kS34 = 23"
definition kS41 :: u32 where "kS41 = 6"
definition kS42 :: u32 where "kS42 = 10"
definition kS43 :: u32 where "kS43 = 15"
definition kS44 :: u32 where "kS44 = 21"

definition F :: "u32 \<Rightarrow> u32 \<Rightarrow> u32 \<Rightarrow> u32" where
  "F x y z = (x AND y) OR (NOT x AND z)"

definition G :: "u32 \<Rightarrow> u32 \<Rightarrow> u32 \<Rightarrow> u32" where
  "G x y z = (x AND z) OR (y AND NOT z)"

definition H :: "u32 \<Rightarrow> u32 \<Rightarrow> u32 \<Rightarrow> u32" where
  "H x y z = x XOR y XOR z"

definition I :: "u32 \<Rightarrow> u32 \<Rightarrow> u32 \<Rightarrow> u32" where
  "I x y z = y XOR (x OR NOT z)"

text \<open>The updates of \<open>a\<close>, which the code passes by reference.\<close>

definition FF :: "u32 \<Rightarrow> u32 \<Rightarrow> u32 \<Rightarrow> u32 \<Rightarrow> u32 \<Rightarrow> u32 \<Rightarrow> u32 \<Rightarrow> u32" where
  "FF a b c d x s ac =
     (let a = a + (F b c d + x + ac);
          a = LeftRotate a s
      in a + b)"

definition GG :: "u32 \<Rightarrow> u32 \<Rightarrow> u32 \<Rightarrow> u32 \<Rightarrow> u32 \<Rightarrow> u32 \<Rightarrow> u32 \<Rightarrow> u32" where
  "GG a b c d x s ac =
     (let a = a + (G b c d + x + ac);
          a = LeftRotate a s
      in a + b)"

definition HH :: "u32 \<Rightarrow> u32 \<Rightarrow> u32 \<Rightarrow> u32 \<Rightarrow> u32 \<Rightarrow> u32 \<Rightarrow> u32 \<Rightarrow> u32" where
  "HH a b c d x s ac =
     (let a = a + (H b c d + x + ac);
          a = LeftRotate a s
      in a + b)"

definition II :: "u32 \<Rightarrow> u32 \<Rightarrow> u32 \<Rightarrow> u32 \<Rightarrow> u32 \<Rightarrow> u32 \<Rightarrow> u32 \<Rightarrow> u32" where
  "II a b c d x s ac =
     (let a = a + (I b c d + x + ac);
          a = LeftRotate a s
      in a + b)"

section \<open>The four rounds of a block\<close>

type_synonym regs = "u32 \<times> u32 \<times> u32 \<times> u32"

definition Round1 :: "u32 list \<Rightarrow> regs \<Rightarrow> regs" where
  "Round1 x r =
     (let (a, b, c, d) = r;
          a = FF a b c d (x ! 0) kS11 0xd76aa478;
          d = FF d a b c (x ! 1) kS12 0xe8c7b756;
          c = FF c d a b (x ! 2) kS13 0x242070db;
          b = FF b c d a (x ! 3) kS14 0xc1bdceee;
          a = FF a b c d (x ! 4) kS11 0xf57c0faf;
          d = FF d a b c (x ! 5) kS12 0x4787c62a;
          c = FF c d a b (x ! 6) kS13 0xa8304613;
          b = FF b c d a (x ! 7) kS14 0xfd469501;
          a = FF a b c d (x ! 8) kS11 0x698098d8;
          d = FF d a b c (x ! 9) kS12 0x8b44f7af;
          c = FF c d a b (x ! 10) kS13 0xffff5bb1;
          b = FF b c d a (x ! 11) kS14 0x895cd7be;
          a = FF a b c d (x ! 12) kS11 0x6b901122;
          d = FF d a b c (x ! 13) kS12 0xfd987193;
          c = FF c d a b (x ! 14) kS13 0xa679438e;
          b = FF b c d a (x ! 15) kS14 0x49b40821
      in (a, b, c, d))"

definition Round2 :: "u32 list \<Rightarrow> regs \<Rightarrow> regs" where
  "Round2 x r =
     (let (a, b, c, d) = r;
          a = GG a b c d (x ! 1) kS21 0xf61e2562;
          d = GG d a b c (x ! 6) kS22 0xc040b340;
          c = GG c d a b (x ! 11) kS23 0x265e5a51;
          b = GG b c d a (x ! 0) kS24 0xe9b6c7aa;
          a = GG a b c d (x ! 5) kS21 0xd62f105d;
          d = GG d a b c (x ! 10) kS22 0x2441453;
          c = GG c d a b (x ! 15) kS23 0xd8a1e681;
          b = GG b c d a (x ! 4) kS24 0xe7d3fbc8;
          a = GG a b c d (x ! 9) kS21 0x21e1cde6;
          d = GG d a b c (x ! 14) kS22 0xc33707d6;
          c = GG c d a b (x ! 3) kS23 0xf4d50d87;
          b = GG b c d a (x ! 8) kS24 0x455a14ed;
          a = GG a b c d (x ! 13) kS21 0xa9e3e905;
          d = GG d a b c (x ! 2) kS22 0xfcefa3f8;
          c = GG c d a b (x ! 7) kS23 0x676f02d9;
          b = GG b c d a (x ! 12) kS24 0x8d2a4c8a
      in (a, b, c, d))"

definition Round3 :: "u32 list \<Rightarrow> regs \<Rightarrow> regs" where
  "Round3 x r =
     (let (a, b, c, d) = r;
          a = HH a b c d (x ! 5) kS31 0xfffa3942;
          d = HH d a b c (x ! 8) kS32 0x8771f681;
          c = HH c d a b (x ! 11) kS33 0x6d9d6122;
          b = HH b c d a (x ! 14) kS34 0xfde5380c;
          a = HH a b c d (x ! 1) kS31 0xa4beea44;
          d = HH d a b c (x ! 4) kS32 0x4bdecfa9;
          c = HH c d a b (x ! 7) kS33 0xf6bb4b60;
          b = HH b c d a (x ! 10) kS34 0xbebfbc70;
          a = HH a b c d (x ! 13) kS31 0x289b7ec6;
          d = HH d a b c (x ! 0) kS32 0xeaa127fa;
          c = HH c d a b (x ! 3) kS33 0xd4ef3085;
          b = HH b c d a (x ! 6) kS34 0x4881d05;
          a = HH a b c d (x ! 9) kS31 0xd9d4d039;
          d = HH d a b c (x ! 12) kS32 0xe6db99e5;
          c = HH c d a b (x ! 15) kS33 0x1fa27cf8;
          b = HH b c d a (x ! 2) kS34 0xc4ac5665
      in (a, b, c, d))"

definition Round4 :: "u32 list \<Rightarrow> regs \<Rightarrow> regs" where
  "Round4 x r =
     (let (a, b, c, d) = r;
          a = II a b c d (x ! 0) kS41 0xf4292244;
          d = II d a b c (x ! 7) kS42 0x432aff97;
          c = II c d a b (x ! 14) kS43 0xab9423a7;
          b = II b c d a (x ! 5) kS44 0xfc93a039;
          a = II a b c d (x ! 12) kS41 0x655b59c3;
          d = II d a b c (x ! 3) kS42 0x8f0ccc92;
          c = II c d a b (x ! 10) kS43 0xffeff47d;
          b = II b c d a (x ! 1) kS44 0x85845dd1;
          a = II a b c d (x ! 8) kS41 0x6fa87e4f;
          d = II d a b c (x ! 15) kS42 0xfe2ce6e0;
          c = II c d a b (x ! 6) kS43 0xa3014314;
          b = II b c d a (x ! 13) kS44 0x4e0811a1;
          a = II a b c d (x ! 4) kS41 0xf7537e82;
          d = II d a b c (x ! 11) kS42 0xbd3af235;
          c = II c d a b (x ! 2) kS43 0x2ad7d2bb;
          b = II b c d a (x ! 9) kS44 0xeb86d391
      in (a, b, c, d))"

section \<open>Padding, chunks and the digest\<close>

text \<open>Sizes of vectors are natural numbers; the bit count wraps as the 64-bit product does.\<close>

definition PadMessage :: "bytes \<Rightarrow> bytes" where
  "PadMessage message =
     (let msg_size = length message;
          num_blocks = drop_bit 6 (msg_size + 8) + 1;
          total_len = push_bit 6 num_blocks - msg_size;
          surplus_bytes = total_len - 8 - 1;
          padded = message @ [0x80];
          padded = padded @ replicate surplus_bytes 0;
          msg_size_64 = (of_nat msg_size :: u64) * 8;
          hi = ucast (drop_bit 32 (0xffffffff00000000 AND msg_size_64)) :: u32;
          lo = ucast (0x00000000ffffffff AND msg_size_64) :: u32;
          padded = padded @
            [ucast (0xff AND lo), ucast (drop_bit 8 (0xff00 AND lo)),
             ucast (drop_bit 16 (0xff0000 AND lo)), ucast (drop_bit 24 (0xff000000 AND lo))];
          padded = padded @
            [ucast (0xff AND hi), ucast (0xff AND drop_bit 8 hi),
             ucast (0xff AND drop_bit 16 hi), ucast (0xff AND drop_bit 24 hi)]
      in padded)"

definition chunk_word :: "bytes \<Rightarrow> nat \<Rightarrow> u32" where
  "chunk_word message i =
     ((ucast (message ! (i + 0)) OR push_bit 8 (ucast (message ! (i + 1))))
        OR push_bit 16 (ucast (message ! (i + 2)))) OR push_bit 24 (ucast (message ! (i + 3)))"

function ExtractChunk_loop :: "bytes \<Rightarrow> nat \<Rightarrow> nat \<Rightarrow> nat \<Rightarrow> u32 list \<Rightarrow> u32 list" where
  "ExtractChunk_loop message i to k chunk =
     (if i < to
      then ExtractChunk_loop message (i + 4) to (k + 1)
             (chunk[k := chunk_word message i])
      else chunk)"
  by auto
termination
  by (relation "measure (\<lambda>(message, i, to, k, chunk). to - i)") auto

declare ExtractChunk_loop.simps [simp del]

definition ExtractChunk :: "bytes \<Rightarrow> nat \<Rightarrow> nat \<Rightarrow> u32 list \<Rightarrow> u32 list" where
  "ExtractChunk message from to chunk = ExtractChunk_loop message from to 0 chunk"

text \<open>
  The loop over the blocks. Its counter has 32 bits and is compared with the 64-bit size of
  the padded message, so the loop may run forever.
\<close>

partial_function (option) digest_loop ::
  "bytes \<Rightarrow> u32 \<Rightarrow> u32 list \<Rightarrow> regs \<Rightarrow> regs option" where
  "digest_loop padded_message i x r =
     (if unat i < length padded_message
      then
        (let (A0, B0, C0, D0) = r;
             x = ExtractChunk padded_message (unat i) (unat (i + 64)) x;
             (a, b, c, d) = Round4 x (Round3 x (Round2 x (Round1 x (A0, B0, C0, D0))))
         in digest_loop padded_message (i + 64) x (A0 + a, B0 + b, C0 + c, D0 + d))
      else Some r)"

definition Digest :: "bytes \<Rightarrow> u32 list option" where
  "Digest message =
     map_option (\<lambda>(A0, B0, C0, D0). [A0, B0, C0, D0])
       (digest_loop (PadMessage message) 0 (replicate 16 0) (kA0, kB0, kC0, kD0))"

text \<open>\<open>%02x\<close> of a value below 256.\<close>

definition hex2 :: "u32 \<Rightarrow> string" where
  "hex2 v = setw 2 CHR ''0'' (print_nat 16 (unat v))"

definition hex_word :: "u32 \<Rightarrow> string" where
  "hex_word w =
     hex2 (w AND 0x000000ff) @ hex2 (drop_bit 8 (w AND 0x0000ff00)) @
     hex2 (drop_bit 16 (w AND 0x00ff0000)) @ hex2 (drop_bit 24 (w AND 0xff000000))"

definition DigestToString :: "u32 list \<Rightarrow> string" where
  "DigestToString digest =
     hex_word (digest ! 0) @ hex_word (digest ! 1) @ hex_word (digest ! 2) @ hex_word (digest ! 3)"

section \<open>The reference: sixty-four steps from tables\<close>

definition rfc_index :: "nat \<Rightarrow> nat" where
  "rfc_index i =
     (if i < 16 then i else if i < 32 then (5 * i + 1) mod 16
      else if i < 48 then (3 * i + 5) mod 16 else 7 * i mod 16)"

definition rfc_shift :: "nat \<Rightarrow> nat" where
  "rfc_shift i = [[7, 12, 17, 22], [5, 9, 14, 20], [4, 11, 16, 23], [6, 10, 15, 21]]
     ! (i div 16) ! (i mod 4)"

definition rfc_row :: "nat \<Rightarrow> nat \<times> nat \<times> u32" where
  "rfc_row i = (rfc_index i, rfc_shift i, kSine ! i)"

fun rfc_step :: "(u32 \<Rightarrow> u32 \<Rightarrow> u32 \<Rightarrow> u32) \<Rightarrow> u32 list \<Rightarrow> regs \<Rightarrow> nat \<times> nat \<times> u32 \<Rightarrow> regs" where
  "rfc_step f x (a, b, c, d) (k, s, t) =
     (d, b + word_rotl s (a + f b c d + x ! k + t), b, c)"

definition rfc_round :: "(u32 \<Rightarrow> u32 \<Rightarrow> u32 \<Rightarrow> u32) \<Rightarrow> nat \<Rightarrow> u32 list \<Rightarrow> regs \<Rightarrow> regs" where
  "rfc_round f n x r = foldl (rfc_step f x) r (map rfc_row [16 * n..<16 * n + 16])"

definition rfc_words :: "bytes \<Rightarrow> u32 list" where
  "rfc_words block = map (\<lambda>j. le_value (take 4 (drop (4 * j) block))) [0..<16]"

fun rfc_block :: "regs \<Rightarrow> bytes \<Rightarrow> regs" where
  "rfc_block (A0, B0, C0, D0) block =
     (let x = rfc_words block;
          (a, b, c, d) =
            rfc_round I 3 x (rfc_round H 2 x (rfc_round G 1 x (rfc_round F 0 x (A0, B0, C0, D0))))
      in (A0 + a, B0 + b, C0 + c, D0 + d))"

definition rfc_blocks :: "bytes \<Rightarrow> bytes list" where
  "rfc_blocks p = map (\<lambda>j. take 64 (drop (64 * j) p)) [0..<length p div 64]"

text \<open>
  The padding of the standard: a one bit, zeros up to eight bytes before the end of a block, and the number of bits,
  low bytes first.
\<close>

definition rfc_pad :: "bytes \<Rightarrow> bytes" where
  "rfc_pad message =
     message @ [0x80] @ replicate ((119 - length message mod 64) mod 64) 0 @ le_bytes 8 (of_nat (8 * length message) :: u64)"

definition rfc_digest :: "bytes \<Rightarrow> u32 list" where
  "rfc_digest message =
     (let (a, b, c, d) =
        foldl rfc_block (0x67452301, 0xefcdab89, 0x98badcfe, 0x10325476)
          (rfc_blocks (rfc_pad message))
      in [a, b, c, d])"

section \<open>The rounds\<close>

lemma LeftRotate_rotl: "0 < unat s \<Longrightarrow> unat s < 32 \<Longrightarrow> LeftRotate v s = word_rotl (unat s) v"
proof -
  assume s: "0 < unat s" "unat s < 32"
  then have "s \<le> 32" by (simp add: word_le_nat_alt)
  then have d: "unat (32 - s) = 32 - unat s" by (simp add: unat_sub)
  show ?thesis
  proof (rule bit_word_eqI)
    fix n assume n: "n < LENGTH(32)"
    show "bit (LeftRotate v s) n = bit (word_rotl (unat s) v) n"
    proof (cases "n < unat s")
      case True
      then have "(n + (32 - unat s)) mod 32 = 32 - unat s + n" using s by simp
      then show ?thesis using s n True by (simp add: LeftRotate_def d bit_simps bit_word_rotl_iff)
    next
      case False
      then have "(n + (32 - unat s)) mod 32 = n - unat s" using s n by (simp add: mod_if)
      moreover have "\<not> bit v (32 - unat s + n)" using s False by (auto dest: bit_imp_le_length)
      ultimately show ?thesis
        using s n False by (simp add: LeftRotate_def d bit_simps bit_word_rotl_iff)
    qed
  qed
qed

definition shift_ok :: "u32 \<Rightarrow> bool" where
  "shift_ok s \<longleftrightarrow> 0 < unat s \<and> unat s < 32"

lemma rfc_step_FF: "shift_ok s \<Longrightarrow> rfc_step F x (a, b, c, d) (k, unat s, t)
    = (let a = FF a b c d (x ! k) s t in (d, a, b, c))"
  by (simp add: shift_ok_def FF_def LeftRotate_rotl add.assoc add.commute [of b])

lemma rfc_step_GG: "shift_ok s \<Longrightarrow> rfc_step G x (a, b, c, d) (k, unat s, t)
    = (let a = GG a b c d (x ! k) s t in (d, a, b, c))"
  by (simp add: shift_ok_def GG_def LeftRotate_rotl add.assoc add.commute [of b])

lemma rfc_step_HH: "shift_ok s \<Longrightarrow> rfc_step H x (a, b, c, d) (k, unat s, t)
    = (let a = HH a b c d (x ! k) s t in (d, a, b, c))"
  by (simp add: shift_ok_def HH_def LeftRotate_rotl add.assoc add.commute [of b])

lemma rfc_step_II: "shift_ok s \<Longrightarrow> rfc_step I x (a, b, c, d) (k, unat s, t)
    = (let a = II a b c d (x ! k) s t in (d, a, b, c))"
  by (simp add: shift_ok_def II_def LeftRotate_rotl add.assoc add.commute [of b])

lemma rfc_step_let: "rfc_step f x (Let e g) row = Let e (\<lambda>v. rfc_step f x (g v) row)"
  by (simp add: Let_def)

lemma let_tuple: "(let (a, b, c, d) = (p, q, r, s) in f a b c d) = f p q r s"
  by simp

lemma shifts_ok:
  "shift_ok kS11" "shift_ok kS12" "shift_ok kS13" "shift_ok kS14"
  "shift_ok kS21" "shift_ok kS22" "shift_ok kS23" "shift_ok kS24"
  "shift_ok kS31" "shift_ok kS32" "shift_ok kS33" "shift_ok kS34"
  "shift_ok kS41" "shift_ok kS42" "shift_ok kS43" "shift_ok kS44"
  by (simp_all add: shift_ok_def kS11_def kS12_def kS13_def kS14_def kS21_def kS22_def kS23_def
      kS24_def kS31_def kS32_def kS33_def kS34_def kS41_def kS42_def kS43_def kS44_def)

lemmas unroll = foldl_Cons foldl_Nil rfc_step_let let_tuple prod.case shifts_ok

lemma rows1: "map rfc_row [16 * 0..<16 * 0 + 16] =
     [(0, unat kS11, 0xd76aa478),
      (1, unat kS12, 0xe8c7b756),
      (2, unat kS13, 0x242070db),
      (3, unat kS14, 0xc1bdceee),
      (4, unat kS11, 0xf57c0faf),
      (5, unat kS12, 0x4787c62a),
      (6, unat kS13, 0xa8304613),
      (7, unat kS14, 0xfd469501),
      (8, unat kS11, 0x698098d8),
      (9, unat kS12, 0x8b44f7af),
      (10, unat kS13, 0xffff5bb1),
      (11, unat kS14, 0x895cd7be),
      (12, unat kS11, 0x6b901122),
      (13, unat kS12, 0xfd987193),
      (14, unat kS13, 0xa679438e),
      (15, unat kS14, 0x49b40821)]"
  by code_simp

lemma Round1_rfc: "Round1 x r = rfc_round F 0 x r"
  by (cases r) (simp only: rfc_round_def Round1_def rows1 rfc_step_FF unroll)

lemma rows2: "map rfc_row [16 * 1..<16 * 1 + 16] =
     [(1, unat kS21, 0xf61e2562),
      (6, unat kS22, 0xc040b340),
      (11, unat kS23, 0x265e5a51),
      (0, unat kS24, 0xe9b6c7aa),
      (5, unat kS21, 0xd62f105d),
      (10, unat kS22, 0x2441453),
      (15, unat kS23, 0xd8a1e681),
      (4, unat kS24, 0xe7d3fbc8),
      (9, unat kS21, 0x21e1cde6),
      (14, unat kS22, 0xc33707d6),
      (3, unat kS23, 0xf4d50d87),
      (8, unat kS24, 0x455a14ed),
      (13, unat kS21, 0xa9e3e905),
      (2, unat kS22, 0xfcefa3f8),
      (7, unat kS23, 0x676f02d9),
      (12, unat kS24, 0x8d2a4c8a)]"
  by code_simp

lemma Round2_rfc: "Round2 x r = rfc_round G 1 x r"
  by (cases r) (simp only: rfc_round_def Round2_def rows2 rfc_step_GG unroll)

lemma rows3: "map rfc_row [16 * 2..<16 * 2 + 16] =
     [(5, unat kS31, 0xfffa3942),
      (8, unat kS32, 0x8771f681),
      (11, unat kS33, 0x6d9d6122),
      (14, unat kS34, 0xfde5380c),
      (1, unat kS31, 0xa4beea44),
      (4, unat kS32, 0x4bdecfa9),
      (7, unat kS33, 0xf6bb4b60),
      (10, unat kS34, 0xbebfbc70),
      (13, unat kS31, 0x289b7ec6),
      (0, unat kS32, 0xeaa127fa),
      (3, unat kS33, 0xd4ef3085),
      (6, unat kS34, 0x4881d05),
      (9, unat kS31, 0xd9d4d039),
      (12, unat kS32, 0xe6db99e5),
      (15, unat kS33, 0x1fa27cf8),
      (2, unat kS34, 0xc4ac5665)]"
  by code_simp

lemma Round3_rfc: "Round3 x r = rfc_round H 2 x r"
  by (cases r) (simp only: rfc_round_def Round3_def rows3 rfc_step_HH unroll)

lemma rows4: "map rfc_row [16 * 3..<16 * 3 + 16] =
     [(0, unat kS41, 0xf4292244),
      (7, unat kS42, 0x432aff97),
      (14, unat kS43, 0xab9423a7),
      (5, unat kS44, 0xfc93a039),
      (12, unat kS41, 0x655b59c3),
      (3, unat kS42, 0x8f0ccc92),
      (10, unat kS43, 0xffeff47d),
      (1, unat kS44, 0x85845dd1),
      (8, unat kS41, 0x6fa87e4f),
      (15, unat kS42, 0xfe2ce6e0),
      (6, unat kS43, 0xa3014314),
      (13, unat kS44, 0x4e0811a1),
      (4, unat kS41, 0xf7537e82),
      (11, unat kS42, 0xbd3af235),
      (2, unat kS43, 0x2ad7d2bb),
      (9, unat kS44, 0xeb86d391)]"
  by code_simp

lemma Round4_rfc: "Round4 x r = rfc_round I 3 x r"
  by (cases r) (simp only: rfc_round_def Round4_def rows4 rfc_step_II unroll)

section \<open>Padding\<close>

definition pad_zeros :: "nat \<Rightarrow> nat" where
  "pad_zeros n = 64 * ((n + 8) div 64 + 1) - n - 9"

lemma pad_zeros_bounds: "n + 9 + pad_zeros n = 64 * ((n + 8) div 64 + 1) \<and> pad_zeros n < 64"
proof -
  have "(n + 8) div 64 * 64 + (n + 8) mod 64 = n + 8" by (rule div_mult_mod_eq)
  moreover have "(n + 8) mod 64 < 64" by simp
  ultimately have "n + 9 \<le> 64 * ((n + 8) div 64 + 1)" and "64 * ((n + 8) div 64 + 1) < n + 73"
    unfolding distrib_left by arith+
  then show ?thesis unfolding pad_zeros_def by arith
qed

lemma le_bytes_8: "le_bytes 8 (x :: u64) =
  [ucast x, ucast (drop_bit 8 x), ucast (drop_bit 16 x), ucast (drop_bit 24 x), ucast (drop_bit 32 x),
   ucast (drop_bit 40 x), ucast (drop_bit 48 x), ucast (drop_bit 56 x)]"
  by (simp add: numeral_eq_Suc drop_bit_drop_bit)

lemma pad_size_bytes:
  fixes x :: u64
  defines "hi \<equiv> ucast (drop_bit 32 (0xffffffff00000000 AND x)) :: u32"
    and "lo \<equiv> ucast (0x00000000ffffffff AND x) :: u32"
  shows "[ucast (0xff AND lo), ucast (drop_bit 8 (0xff00 AND lo)),
      ucast (drop_bit 16 (0xff0000 AND lo)), ucast (drop_bit 24 (0xff000000 AND lo))] @
      [ucast (0xff AND hi), ucast (0xff AND drop_bit 8 hi),
       ucast (0xff AND drop_bit 16 hi), ucast (0xff AND drop_bit 24 hi)] = le_bytes 8 x"
proof -
  have masks: "(0xff :: u32) = mask 8" "(0xff00 :: u32) = push_bit 8 (mask 8)"
    "(0xff0000 :: u32) = push_bit 16 (mask 8)" "(0xff000000 :: u32) = push_bit 24 (mask 8)"
    "(0xffffffff :: u64) = mask 32" "(0xffffffff00000000 :: u64) = push_bit 32 (mask 32)"
    by (simp_all add: mask_eq_exp_minus_1 push_bit_eq_mult)
  show ?thesis
    unfolding le_bytes_8 hi_def lo_def masks append_Cons append_Nil list.inject
    by (intro conjI bit_word_eqI) (auto simp: bit_simps)
qed

lemma PadMessage_eq:
  "PadMessage m = m @ [0x80] @ replicate (pad_zeros (length m)) 0 @ le_bytes 8 (of_nat (8 * length m) :: u64)"
proof -
  have "push_bit 6 (drop_bit 6 (length m + 8) + 1) - length m - 8 - 1 = pad_zeros (length m)"
    unfolding pad_zeros_def by (simp add: push_bit_eq_mult drop_bit_eq_div algebra_simps)
  moreover have "(of_nat (length m) :: u64) * 8 = of_nat (8 * length m)" by (simp add: mult.commute)
  ultimately show ?thesis
    unfolding PadMessage_def Let_def append_assoc pad_size_bytes by (simp only:)
qed

lemma pad_zeros_rfc: "pad_zeros n = (119 - n mod 64) mod 64"
proof -
  define q where "q = n div 64"
  define r where "r = n mod 64"
  have n: "n = 64 * q + r" and r: "r < 64" by (simp_all add: q_def r_def)
  show ?thesis
  proof (cases "r < 56")
    case True
    have "(n + 8) div 64 = (r + 8 + q * 64) div 64" by (simp add: n)
    then have "(n + 8) div 64 = q" using True by simp
    moreover have "(119 - r) mod 64 = 55 - r"
    proof -
      have "119 - r = 55 - r + 64" using True by linarith
      then have "(119 - r) mod 64 = (55 - r + 64) mod 64" by (rule arg_cong)
      also have "\<dots> = (55 - r) mod 64" by (rule mod_add_self2)
      also have "\<dots> = 55 - r" by (rule mod_less) linarith
      finally show ?thesis .
    qed
    ultimately show ?thesis using True by (simp add: pad_zeros_def n r)
  next
    case False
    have "(n + 8) div 64 = (r - 56 + (q + 1) * 64) div 64" using False by (simp add: n)
    then have "(n + 8) div 64 = q + 1" using r by simp
    moreover have "(119 - r) mod 64 = 119 - r" using False by simp
    ultimately show ?thesis using False r by (simp add: pad_zeros_def n)
  qed
qed

lemma PadMessage_rfc: "PadMessage m = rfc_pad m"
  by (simp add: PadMessage_eq rfc_pad_def pad_zeros_rfc)

lemma length_PadMessage: "length (PadMessage m) = 64 * ((length m + 8) div 64 + 1)"
  using pad_zeros_bounds [of "length m"] by (simp add: PadMessage_eq)

text \<open>Padding appends the byte 0x80, fewer than 64 zero bytes and the bit length of the message as
  eight little-endian bytes, and reaches a positive multiple of 64 bytes.\<close>

theorem pad_message_spec:
  "\<exists>k<64. PadMessage m = m @ [0x80] @ replicate k 0 @ le_bytes 8 (of_nat (8 * length m) :: u64)
     \<and> length (PadMessage m) mod 64 = 0 \<and> length m + 9 \<le> length (PadMessage m)"
proof -
  have "length (PadMessage m) mod 64 = 0" "length m + 9 \<le> length (PadMessage m)"
    using pad_zeros_bounds [of "length m"] by (simp_all add: length_PadMessage)
  then show ?thesis
    using pad_zeros_bounds [of "length m"]
    by (intro exI [of _ "pad_zeros (length m)"]) (simp add: PadMessage_eq)
qed

section \<open>Chunks\<close>

lemma drop_4: "i + 4 \<le> length m \<Longrightarrow> take 4 (drop i m) = [m ! i, m ! (i + 1), m ! (i + 2), m ! (i + 3)]"
  by (intro nth_equalityI) (auto simp: less_Suc_eq numeral_eq_Suc)

lemma chunk_word_le: "i + 4 \<le> length m \<Longrightarrow> chunk_word m i = le_value (take 4 (drop i m))"
  by (simp add: drop_4 chunk_word_def push_bit_or or.assoc)

lemma ExtractChunk_loop_words:
  "k + n = length chunk \<Longrightarrow>
   ExtractChunk_loop m i (i + 4 * n) k chunk = take k chunk @ map (\<lambda>j. chunk_word m (i + 4 * j)) [0..<n]"
proof (induction n arbitrary: i k chunk)
  case 0
  then show ?case by (simp add: ExtractChunk_loop.simps [of _ i])
next
  case (Suc n)
  have "i + 4 * Suc n = (i + 4) + 4 * n" by simp
  moreover have "take (Suc k) (chunk[k := w]) = take k chunk @ [w]" for w
    using Suc.prems by (simp add: take_Suc_conv_app_nth)
  moreover have "map (\<lambda>j. chunk_word m (i + 4 * j)) [0..<Suc n]
      = chunk_word m i # map (\<lambda>j. chunk_word m (i + 4 + 4 * j)) [0..<n]"
    by (simp add: upt_conv_Cons map_Suc_upt [symmetric] algebra_simps del: upt_Suc map_Suc_upt)
  ultimately show ?case
    using Suc.IH [of "Suc k" "chunk[k := chunk_word m i]" "i + 4"] Suc.prems
    by (simp add: ExtractChunk_loop.simps [of _ i] add.assoc)
qed

lemma ExtractChunk_words:
  assumes "i + 64 \<le> length m" and "length x = 16"
  shows "ExtractChunk m i (i + 64) x = rfc_words (take 64 (drop i m))"
proof -
  have "ExtractChunk m i (i + 64) x = map (\<lambda>j. chunk_word m (i + 4 * j)) [0..<16]"
    using ExtractChunk_loop_words [of 0 16 x m i] assms(2) by (simp add: ExtractChunk_def)
  moreover have "chunk_word m (i + 4 * j) = le_value (take 4 (drop (4 * j) (take 64 (drop i m))))"
    if "j < 16" for j
    using that assms(1) by (simp add: chunk_word_le drop_take add.commute min_def)
  ultimately show ?thesis by (simp add: rfc_words_def)
qed

section \<open>The digest\<close>

lemma digest_loop_step:
  assumes "unat i < length p" and "ExtractChunk p (unat i) (unat (i + 64)) x = rfc_words block"
  shows "digest_loop p i x r = digest_loop p (i + 64) (rfc_words block) (rfc_block r block)"
proof -
  obtain a b c d where r: "r = (a, b, c, d)" by (cases r)
  show ?thesis
    using assms unfolding r
    by (subst digest_loop.simps)
      (simp add: Round1_rfc Round2_rfc Round3_rfc Round4_rfc Let_def split: prod.splits)
qed

lemma digest_loop_blocks:
  assumes "length p = 64 * (j + n)" and "length p < 2 ^ 32" and "length x = 16" and "unat i = 64 * j"
  shows "digest_loop p i x r = Some (foldl rfc_block r (drop j (rfc_blocks p)))"
  using assms
proof (induction n arbitrary: i j x r)
  case 0
  then show ?case
    by (subst digest_loop.simps) (simp add: rfc_blocks_def)
next
  case (Suc n)
  have next_i: "unat (i + 64) = 64 * j + 64"
    using Suc.prems by (simp add: unat_word_ariths)
  let ?block = "take 64 (drop (64 * j) p)"
  have chunk: "ExtractChunk p (unat i) (unat (i + 64)) x = rfc_words ?block"
    using Suc.prems ExtractChunk_words [of "64 * j" p x] by (simp add: next_i)
  have "drop j (rfc_blocks p) = rfc_blocks p ! j # drop (Suc j) (rfc_blocks p)"
    using Suc.prems by (intro Cons_nth_drop_Suc [symmetric]) (simp add: rfc_blocks_def)
  moreover have "rfc_blocks p ! j = ?block"
    using Suc.prems by (simp add: rfc_blocks_def del: upt_Suc)
  moreover have "digest_loop p (i + 64) (rfc_words ?block) (rfc_block r ?block)
      = Some (foldl rfc_block (rfc_block r ?block) (drop (Suc j) (rfc_blocks p)))"
    using Suc.prems by (intro Suc.IH) (simp_all add: next_i rfc_words_def)
  ultimately show ?case
    using digest_loop_step [OF _ chunk, of r] Suc.prems by simp
qed

lemma digest_loop_forever:
  assumes "2 ^ 32 \<le> length p"
  shows "digest_loop p i x r = None"
proof -
  have "length p < 2 ^ 32" if "digest_loop p i x r = Some y" for y
  proof (rule digest_loop.raw_induct [of "\<lambda>p i x r y. length p < 2 ^ 32" "(((p, i), x), r)" y,
        unfolded prod.case, OF _ that])
    fix loop and p :: bytes and i :: u32 and x and r :: regs and y
    assume 1: "\<And>p i x r y. loop p i x r = Some y \<Longrightarrow> length p < 2 ^ 32"
      "(if unat i < length p
        then let (A0, B0, C0, D0) = r; x = ExtractChunk p (unat i) (unat (i + 64)) x;
                 (a, b, c, d) = Round4 x (Round3 x (Round2 x (Round1 x (A0, B0, C0, D0))))
             in loop p (i + 64) x (A0 + a, B0 + b, C0 + c, D0 + d)
        else Some r) = Some y"
    have "unat (i :: u32) < 2 ^ 32" using unsigned_less [of i] by simp
    then show "length p < 2 ^ 32"
      using 1(2) by (cases "unat i < length p") (auto simp: Let_def split: prod.splits dest!: 1(1))
  qed
  then show ?thesis using assms by (cases "digest_loop p i x r") auto
qed

lemma Digest_rfc:
  "length m < 2 ^ 32 - 72 \<Longrightarrow> Digest m = Some (rfc_digest m)"
proof -
  assume m: "length m < 2 ^ 32 - 72"
  let ?p = "PadMessage m"
  have "length ?p < 2 ^ 32"
    using m pad_zeros_bounds [of "length m"] by (simp add: length_PadMessage)
  then have "digest_loop ?p 0 (replicate 16 0) (kA0, kB0, kC0, kD0)
      = Some (foldl rfc_block (kA0, kB0, kC0, kD0) (drop 0 (rfc_blocks ?p)))"
    by (intro digest_loop_blocks [of _ _ "(length m + 8) div 64 + 1"]) (simp_all add: length_PadMessage)
  then show ?thesis
    by (simp add: Digest_def rfc_digest_def kA0_def kB0_def kC0_def kD0_def flip: PadMessage_rfc)
qed

text \<open>C2:
  The digest of every message whose padded form is shorter than 4 GiB is the one RFC 1321
  describes: its padding, and sixty-four table-driven steps per 64-byte block, with the indices, rotations and
  sine constants of the standard, chained over the blocks of the padded message.\<close>

theorem digest_refines_rfc:
  "length m < 2 ^ 32 - 72 \<Longrightarrow> Digest m = Some (rfc_digest m)"
  by (rule Digest_rfc)

theorem digest_refines_rfc_witness:
  "map_option DigestToString (Digest []) = Some ''d41d8cd98f00b204e9800998ecf8427e''"
proof -
  have "DigestToString (rfc_digest []) = ''d41d8cd98f00b204e9800998ecf8427e''" by code_simp
  then show ?thesis using digest_refines_rfc [of "[]"] by simp
qed

text \<open>C34:
  For a message of \<open>2 ^ 32 - 8\<close> bytes or more the digest never returns: the 32-bit block counter
  wraps before it can reach the size of the padded message.\<close>

theorem digest_diverges: "2 ^ 32 - 8 \<le> length m \<Longrightarrow> Digest m = None"
proof -
  assume m: "2 ^ 32 - 8 \<le> length m"
  have "2 ^ 32 \<le> length (PadMessage m)"
    using m pad_zeros_bounds [of "length m"] by (simp add: length_PadMessage)
  then show ?thesis by (simp add: Digest_def digest_loop_forever)
qed

theorem digest_diverges_witness: "Digest (replicate (2 ^ 32) 0) = None"
  using digest_diverges [of "replicate (2 ^ 32) 0"] by simp

section \<open>Printing\<close>

lemma hex2_bytes:
  "hex2 (w AND 0x000000ff) = hex2 (ucast (ucast w :: u8))"
  "hex2 (drop_bit 8 (w AND 0x0000ff00)) = hex2 (ucast (ucast (drop_bit 8 w) :: u8))"
  "hex2 (drop_bit 16 (w AND 0x00ff0000)) = hex2 (ucast (ucast (drop_bit 16 w) :: u8))"
  "hex2 (drop_bit 24 (w AND 0xff000000)) = hex2 (ucast (ucast (drop_bit 24 w) :: u8))"
proof -
  have masks: "(0xff :: u32) = mask 8" "(0xff00 :: u32) = push_bit 8 (mask 8)"
    "(0xff0000 :: u32) = push_bit 16 (mask 8)" "(0xff000000 :: u32) = push_bit 24 (mask 8)"
    by (simp_all add: mask_eq_exp_minus_1 push_bit_eq_mult)
  show "hex2 (w AND 0x000000ff) = hex2 (ucast (ucast w :: u8))"
    "hex2 (drop_bit 8 (w AND 0x0000ff00)) = hex2 (ucast (ucast (drop_bit 8 w) :: u8))"
    "hex2 (drop_bit 16 (w AND 0x00ff0000)) = hex2 (ucast (ucast (drop_bit 16 w) :: u8))"
    "hex2 (drop_bit 24 (w AND 0xff000000)) = hex2 (ucast (ucast (drop_bit 24 w) :: u8))"
    unfolding masks
    by (rule arg_cong [where f = hex2], rule bit_word_eqI, auto simp: bit_simps)+
qed

lemma le_bytes_4: "le_bytes 4 (w :: u32) =
  [ucast w, ucast (drop_bit 8 w), ucast (drop_bit 16 w), ucast (drop_bit 24 w)]"
  by (simp add: numeral_eq_Suc drop_bit_drop_bit)

definition hex_byte :: "u8 \<Rightarrow> string" where
  "hex_byte b = hex2 (ucast b)"

lemma hex_word_bytes: "hex_word w = concat (map hex_byte (le_bytes 4 w))"
  by (simp add: hex_word_def hex2_bytes le_bytes_4 hex_byte_def)

lemma hex_byte_digits:
  "length (hex_byte b) = 2 \<and> (\<forall>c\<in>set (hex_byte b). is_base_digit 16 c)
   \<and> digits_value 16 (hex_byte b) = unat b"
proof -
  have len: "length (print_nat 16 (unat b)) \<le> 2"
    using length_to_digits [of 16 "unat b" 2] unat_u8_less [of b] by (simp add: print_nat_def)
  have eq: "hex_byte b = map digit_char (replicate (2 - length (print_nat 16 (unat b))) 0
      @ to_digits 16 (unat b))"
    by (simp add: hex_byte_def hex2_def setw_def unat_ucast_u8 print_nat_def digit_char_0)
  have "d < 16" if "d \<in> set (to_digits 16 (unat b))" for d using to_digits_less [OF _ that] by simp
  then have "digits_value 16 (hex_byte b) = unat b"
    unfolding eq by (subst digits_value_digit_chars) auto
  moreover have "\<forall>c\<in>set (hex_byte b). is_base_digit 16 c"
    using \<open>\<And>d. _ \<Longrightarrow> d < 16\<close> by (auto simp: eq)
  moreover have "length (hex_byte b) = 2" using len by (simp add: eq print_nat_def)
  ultimately show ?thesis by simp
qed

lemma hex_byte_inj: "hex_byte b = hex_byte c \<Longrightarrow> b = c"
  by (metis hex_byte_digits word_unat_eq_iff)

lemma concat_hex_inj:
  "concat (map hex_byte bs) = concat (map hex_byte cs) \<Longrightarrow> bs = cs"
proof (induction bs arbitrary: cs)
  case Nil
  then show ?case using hex_byte_digits by (cases cs) (auto, metis list.size(3) zero_neq_numeral)
next
  case (Cons b bs)
  then obtain c cs' where cs: "cs = c # cs'"
    using hex_byte_digits by (cases cs) (auto, metis list.size(3) zero_neq_numeral)
  then have "hex_byte b = hex_byte c \<and> concat (map hex_byte bs) = concat (map hex_byte cs')"
    using Cons.prems hex_byte_digits by (intro append_eq_append_conv [THEN iffD1]) auto
  then show ?case using Cons.IH hex_byte_inj cs by blast
qed

lemma le_bytes_4_inj: "le_bytes 4 v = le_bytes 4 w \<Longrightarrow> v = (w :: u32)"
proof -
  assume eq: "le_bytes 4 v = le_bytes 4 w"
  have "le_value (le_bytes 4 x) = x" for x :: u32
    by (rule le_value_le_bytes_full) simp
  then show ?thesis using arg_cong [OF eq, of "le_value :: bytes \<Rightarrow> u32"] by (simp only:)
qed

lemma concat_words_inj:
  "length d = length e \<Longrightarrow>
   concat (map (le_bytes 4) d) = concat (map (le_bytes 4) e) \<Longrightarrow> d = (e :: u32 list)"
proof (induction d e rule: list_induct2)
  case (Cons v d w e)
  then have "le_bytes 4 v = le_bytes 4 w \<and> concat (map (le_bytes 4) d) = concat (map (le_bytes 4) e)"
    by (intro append_eq_append_conv [THEN iffD1] disjI1)
      (simp_all only: list.map concat.simps length_le_bytes)
  then show ?case using Cons.IH le_bytes_4_inj [of v w] by simp
qed simp

lemma DigestToString_bytes:
  "length d = 4 \<Longrightarrow> DigestToString d = concat (map hex_byte (concat (map (le_bytes 4) d)))"
  by (auto simp: DigestToString_def hex_word_bytes numeral_eq_Suc length_Suc_conv)

text \<open>A digest prints as 32 lowercase hexadecimal characters, the bytes of each word least significant
  first, and two digests print alike only when they are equal.\<close>

theorem digest_string_faithful:
  assumes "length d = 4" and "length e = 4"
  shows "length (DigestToString d) = 32
    \<and> DigestToString d = concat (map hex_byte (concat (map (le_bytes 4) d)))
    \<and> (DigestToString d = DigestToString e) = (d = e)"
proof -
  have "length (concat (map hex_byte bs)) = 2 * length bs" for bs
    by (induction bs) (use hex_byte_digits in auto)
  moreover have "length (concat (map (le_bytes 4) ws)) = 4 * length ws" for ws :: "u32 list"
    by (induction ws) (simp_all only: list.map concat.simps length_append length_le_bytes list.size, simp_all)
  ultimately have len: "length (DigestToString d) = 32"
    by (simp only: DigestToString_bytes [OF assms(1)] assms(1))
  have "d = e" if "DigestToString d = DigestToString e"
    using that assms concat_words_inj [of d e] concat_hex_inj
    unfolding DigestToString_bytes [OF assms(1)] DigestToString_bytes [OF assms(2)]
    by metis
  then show ?thesis using DigestToString_bytes [OF assms(1)] len by metis
qed

theorem digest_string_faithful_witness:
  "DigestToString [1, 2, 3, 4] \<noteq> DigestToString [1, 2, 3, 5]"
proof -
  have "(DigestToString [1, 2, 3, 4] = DigestToString [1, 2, 3, 5]) = ([1, 2, 3, 4 :: u32] = [1, 2, 3, 5])"
    using digest_string_faithful [of "[1, 2, 3, 4]" "[1, 2, 3, 5]", THEN conjunct2, THEN conjunct2]
    by (simp only: list.size)
  then show ?thesis by simp
qed

end
