(* ===== verification/Uuid.thy ===== *)
theory Uuid
  imports Prelude
begin

text \<open>
  The UUID library of \<^verbatim>\<open>uuid/uuid.cc\<close> and the MAC address parser of \<^verbatim>\<open>uuid/mac.cc\<close>: parsing,
  printing, the comparison operators and the generator, whose node address file is an argument.
\<close>

section \<open>Model\<close>

datatype Method = method_time | method_name | method_rand | method_nil

record UUID =
  uuid_method :: Method
  uuid_raw :: "u64 \<times> u64"

text \<open>
  The loop of \<open>FromString\<close> over the characters still to read. After a last single character the
  code steps over the end of the string and goes on reading behind it.
\<close>

fun parse_pairs :: "string \<Rightarrow> nat \<Rightarrow> u64 \<times> u64 \<Rightarrow> (u64 \<times> u64) result" where
  "parse_pairs [] n arr = Inr arr"
| "parse_pairs (c # s) n arr =
     (if c = CHR ''-'' then parse_pairs s n arr
      else case s of
        [] \<Rightarrow> Inl Out_Of_Bounds
      | c' # s' \<Rightarrow>
          rbind (stoull [c, c'] 16) (\<lambda>v.
            let v = ucast v :: u8;
                (hi, lo) = arr;
                arr = (if n \<ge> 8 then (hi, push_bit 8 lo OR ucast v)
                       else (push_bit 8 hi OR ucast v, lo))
            in parse_pairs s' (n + 1) arr))"

definition uuid_chars :: string where
  "uuid_chars = ''0123456789abcdef-''"

definition FromString :: "string \<Rightarrow> UUID result" where
  "FromString str =
     (if \<not> set str \<subseteq> set uuid_chars
      then Inl (Thrown (''non uuid character in: '' @ str))
      else if length str \<noteq> 36 then Inl (Thrown (''malformed uuid: '' @ str))
      else if str ! 8 \<noteq> CHR ''-'' \<or> str ! 13 \<noteq> CHR ''-'' \<or> str ! 18 \<noteq> CHR ''-'' \<or> str ! 23 \<noteq> CHR ''-''
      then Inl (Thrown (''malformed uuid (check hyphens): '' @ str))
      else rmap (\<lambda>arr. \<lparr>uuid_method = method_name, uuid_raw = arr\<rparr>) (parse_pairs str 0 (0, 0)))"

definition insert_at :: "nat \<Rightarrow> string \<Rightarrow> string \<Rightarrow> string" where
  "insert_at i x s = take i s @ x @ drop i s"

definition String :: "UUID \<Rightarrow> string" where
  "String u =
     (let ret = setw 16 CHR ''0'' (print_nat 16 (unat (fst (uuid_raw u))));
          ret = ret @ setw 16 CHR ''0'' (print_nat 16 (unat (snd (uuid_raw u))));
          ret = insert_at 8 ''-'' ret;
          ret = insert_at (8 + 4 + 1) ''-'' ret;
          ret = insert_at (8 + 4 + 4 + 2) ''-'' ret;
          ret = insert_at (8 + 4 + 4 + 4 + 3) ''-'' ret
      in ret)"

definition uuid_lt :: "UUID \<Rightarrow> UUID \<Rightarrow> bool" where
  "uuid_lt u v \<longleftrightarrow> fst (uuid_raw u) < fst (uuid_raw v) \<and> snd (uuid_raw u) < snd (uuid_raw v)"

definition uuid_gt :: "UUID \<Rightarrow> UUID \<Rightarrow> bool" where
  "uuid_gt u v \<longleftrightarrow> fst (uuid_raw u) > fst (uuid_raw v) \<and> snd (uuid_raw u) > snd (uuid_raw v)"

definition uuid_eq :: "UUID \<Rightarrow> UUID \<Rightarrow> bool" where
  "uuid_eq u v \<longleftrightarrow> fst (uuid_raw u) = fst (uuid_raw v) \<and> snd (uuid_raw u) = snd (uuid_raw v)"

definition uuid_neq :: "UUID \<Rightarrow> UUID \<Rightarrow> bool" where
  "uuid_neq u v \<longleftrightarrow> \<not> uuid_eq u v"

definition uuid_le :: "UUID \<Rightarrow> UUID \<Rightarrow> bool" where
  "uuid_le u v \<longleftrightarrow> fst (uuid_raw u) \<le> fst (uuid_raw v) \<and> snd (uuid_raw u) \<le> snd (uuid_raw v)"

definition uuid_ge :: "UUID \<Rightarrow> UUID \<Rightarrow> bool" where
  "uuid_ge u v \<longleftrightarrow> fst (uuid_raw u) \<ge> fst (uuid_raw v) \<and> snd (uuid_raw u) \<ge> snd (uuid_raw v)"

text \<open>
  The loop over the octets before a delimiter, with the text from \<open>start\<close> on; it also returns
  whether \<open>start\<close> is still 0.
\<close>

function mac_loop :: "string \<Rightarrow> u64 \<Rightarrow> bool \<Rightarrow> (string \<times> u64 \<times> bool) result" where
  "mac_loop s ret at_start =
     (let octet = takeWhile (\<lambda>c. c \<noteq> CHR '':'') s
      in if octet = s then Inr (s, ret, at_start)
         else rbind (stoull octet 16) (\<lambda>v.
                mac_loop (drop (length octet + 1) s) (push_bit 8 ret OR v) False))"
  by pat_completeness auto
termination
proof (relation "measure (\<lambda>(s, ret, at_start). length s)", goal_cases)
  case (2 s ret at_start octet v)
  then have "s \<noteq> []" by auto
  with 2 show ?case by simp
qed simp

declare mac_loop.simps [simp del]

text \<open>
  \<open>start < size - 1\<close> holds when two characters are left, and for the empty string, where the
  subtraction wraps; \<open>substr (start, size - 1)\<close> reaches to the end unless \<open>start\<close> is 0.
\<close>

definition MacStringToInt :: "string \<Rightarrow> u64 result" where
  "MacStringToInt mac_string =
     rbind (mac_loop mac_string 0 True) (\<lambda>(rest, ret, at_start).
       if 2 \<le> length rest \<or> mac_string = []
       then rmap (\<lambda>v. push_bit 8 ret OR v)
              (stoull (if at_start then take (length mac_string - 1) rest else rest) 16)
       else Inr ret)"

text \<open>
  The time is a signed 64-bit count of nanoseconds: \<open>tt\<close> is what \<open>mktime\<close> gives for 15 October 1582 in seconds and
  \<open>now\<close> the clock. The count of tenths of microseconds between them is only printed, on the standard output.
\<close>

definition nanoseconds :: "int \<Rightarrow> int result" where
  "nanoseconds ns = (if - (2 ^ 63) \<le> ns \<and> ns < 2 ^ 63 then Inr ns else Inl Overflow)"

definition GenMAC_time :: "int \<Rightarrow> int \<Rightarrow> string result" where
  "GenMAC_time tt now =
     rbind (nanoseconds (tt * 10 ^ 9)) (\<lambda>tp.
     rbind (nanoseconds (now - tp)) (\<lambda>since.
       Inr (print_int (sgn since * (\<bar>since\<bar> div 100)) @ [CHR 0x0A])))"

text \<open>\<open>address\<close> is what the file below \<^verbatim>\<open>/sys/class/net\<close> holds, empty when it cannot be read.\<close>

definition GenMAC :: "int \<Rightarrow> int \<Rightarrow> string \<Rightarrow> (string \<times> u64 \<times> u64) result" where
  "GenMAC tt now address =
     rbind (GenMAC_time tt now) (\<lambda>out. rmap (\<lambda>mac. (out, 0, 0)) (MacStringToInt address))"

definition GenRand :: "u64 \<times> u64" where "GenRand = (0, 0)"

definition GenHash :: "u64 \<times> u64" where "GenHash = (0, 0)"

definition Nil_uuid :: "u64 \<times> u64" where "Nil_uuid = (0, 0)"

definition Generate :: "int \<Rightarrow> int \<Rightarrow> string \<Rightarrow> Method \<Rightarrow> (string \<times> UUID) result" where
  "Generate tt now address m =
     (case m of
        method_nil \<Rightarrow> rmap (\<lambda>(out, arr). (out, \<lparr>uuid_method = method_nil, uuid_raw = arr\<rparr>)) (GenMAC tt now address)
      | _ \<Rightarrow> Inr ([], \<lparr>uuid_method = method_nil, uuid_raw = Nil_uuid\<rparr>))"

section \<open>Parsing pairs of digits\<close>

lemma shift_or_byte: "push_bit 8 w OR (ucast (v :: u8) :: u64) = w * 256 + ucast v"
  using push_bit_or_eq_add [of "ucast v :: u64" 8 w] ucast_u8_less [of v, where 'a = 64]
  by (simp add: push_bit_eq_mult)

lemma small_byte: "v < 256 \<Longrightarrow> (ucast (ucast (of_nat v :: u64) :: u8) :: u64) = of_nat v"
proof -
  assume v: "v < 256"
  then have "take_bit 64 v = v" "take_bit 8 v = v" by (auto intro: take_bit_nat_eq_self)
  then show ?thesis by (simp add: unsigned_of_nat)
qed

lemma shift_or_pair: "v < 256 \<Longrightarrow>
    push_bit 8 w OR ucast (ucast (of_nat v :: u64) :: u8) = w * 256 + (of_nat v :: u64)"
  using shift_or_byte [of w "ucast (of_nat v :: u64)"] by (simp only: small_byte)

lemma digit_char_not_hyphen: "d < 16 \<Longrightarrow> digit_char d \<noteq> CHR ''-''"
  using is_base_digit_not_sign [of 16 "digit_char d"] by simp

lemma parse_pair:
  "d < 16 \<Longrightarrow> e < 16 \<Longrightarrow> parse_pairs (digit_char d # digit_char e # s) n (hi, lo) =
     parse_pairs s (n + 1)
       (if n \<ge> 8 then (hi, lo * 256 + of_nat (16 * d + e)) else (hi * 256 + of_nat (16 * d + e), lo))"
  by (simp add: stoull_two_digits digit_char_not_hyphen Let_def shift_or_pair
      del: of_nat_add of_nat_mult)

lemma parse_hyphen: "parse_pairs (CHR ''-'' # s) n arr = parse_pairs s n arr"
  by simp

declare parse_pairs.simps(2) [simp del]

lemma parse_digits:
  assumes "length ds = 2 * k" and "\<forall>d\<in>set ds. d < 16" and "n + k \<le> 8 \<or> 8 \<le> n"
  shows "parse_pairs (map digit_char ds @ s) n (hi, lo) =
    parse_pairs s (n + k)
      (if 8 \<le> n then (hi, lo * of_nat (256 ^ k) + of_nat (horner 16 ds))
       else (hi * of_nat (256 ^ k) + of_nat (horner 16 ds), lo))"
  using assms
proof (induction k arbitrary: ds n hi lo)
  case 0
  then show ?case by simp
next
  case (Suc k)
  then obtain d e ds' where ds: "ds = d # e # ds'" "length ds' = 2 * k" "d < 16" "e < 16"
    "\<forall>d\<in>set ds'. d < 16"
    by (cases ds; cases "tl ds") auto
  have "(16 :: nat) ^ (2 * k) = (16 ^ 2) ^ k" by (rule power_mult)
  then have pow: "(16 :: nat) ^ (2 * k) = 256 ^ k" by simp
  have horner: "horner 16 ds = (16 * d + e) * 256 ^ k + horner 16 ds'"
    unfolding ds horner_Cons by (simp add: ds(2) pow distrib_right)
  show ?case
  proof (cases "k = 0")
    case True
    then show ?thesis using ds by (simp add: horner_Cons parse_pair mult.commute)
  next
    case False
    then show ?thesis
      using Suc.IH [OF ds(2,5), of "n + 1"] Suc.prems(3) horner
      by (auto simp: ds parse_pair algebra_simps)
  qed
qed

text \<open>The text of a UUID, from its two halves as lists of sixteen digits.\<close>

definition uuid_text :: "nat list \<Rightarrow> nat list \<Rightarrow> string" where
  "uuid_text ds es =
     map digit_char (take 8 ds) @ CHR ''-'' # map digit_char (take 4 (drop 8 ds)) @ CHR ''-'' #
     map digit_char (drop 12 ds) @ CHR ''-'' # map digit_char (take 4 es) @ CHR ''-'' #
     map digit_char (drop 4 es)"

lemma String_text:
  assumes "setw 16 CHR ''0'' (print_nat 16 (unat (fst (uuid_raw u)))) = map digit_char ds"
    and "setw 16 CHR ''0'' (print_nat 16 (unat (snd (uuid_raw u)))) = map digit_char es"
    and "length ds = 16" and "length es = 16"
  shows "String u = uuid_text ds es"
  by (simp add: String_def Let_def assms insert_at_def uuid_text_def take_map drop_map drop_take)

lemma split_16: "take 8 ds @ take 4 (drop 8 ds) @ drop 12 ds = ds"
proof -
  have "drop 12 ds = drop 4 (drop 8 ds)" by simp
  then show ?thesis by (simp only: append_take_drop_id)
qed

lemma uuid_text_parse:
  assumes "length ds = 16" and "length es = 16" and "\<forall>d\<in>set ds. d < 16" and "\<forall>d\<in>set es. d < 16"
  shows "parse_pairs (uuid_text ds es) 0 (0, 0) = Inr (of_nat (horner 16 ds), of_nat (horner 16 es))"
proof -
  have small: "\<forall>d\<in>set (take n ds). d < 16" "\<forall>d\<in>set (drop n ds). d < 16"
    "\<forall>d\<in>set (take n es). d < 16" "\<forall>d\<in>set (drop n es). d < 16" "\<forall>d\<in>set (take 4 (drop n ds)). d < 16" for n
    using assms(3,4) by (meson in_set_takeD in_set_dropD)+
  have ds: "horner 16 ds = (horner 16 (take 8 ds) * 16 ^ 4 + horner 16 (take 4 (drop 8 ds))) * 16 ^ 4
      + horner 16 (drop 12 ds)"
    using assms(1) by (subst split_16 [of ds, symmetric]) (simp add: horner_append algebra_simps)
  have es: "horner 16 es = horner 16 (take 4 es) * 16 ^ 12 + horner 16 (drop 4 es)"
    using assms(2) horner_append [of 16 "take 4 es" "drop 4 es"] by simp
  have last: "parse_pairs (map digit_char (drop 4 es)) n (hi, lo)
      = parse_pairs [] (n + 6) (hi, lo * of_nat (256 ^ 6) + of_nat (horner 16 (drop 4 es)))"
    if "8 \<le> n" for n hi lo
    using parse_digits [of "drop 4 es" 6 n "[]" hi lo] that assms(2) small by simp
  show ?thesis
    using assms(1,2) small
    by (simp add: uuid_text_def parse_digits [where k = 4] parse_digits [where k = 2] last ds es
        parse_hyphen algebra_simps)
qed

lemma set_uuid_chars: "set uuid_chars = insert CHR ''-'' (digit_char ` {..<16})"
proof -
  have eq: "uuid_chars = map digit_char [0..<16] @ ''-''" by code_simp
  show ?thesis
    unfolding eq set_append set_map set_upt atLeast0LessThan list.set by blast
qed

lemma uuid_text_FromString:
  assumes "length ds = 16" and "length es = 16" and "\<forall>d\<in>set ds. d < 16" and "\<forall>d\<in>set es. d < 16"
  shows "FromString (uuid_text ds es) =
    Inr \<lparr>uuid_method = method_name, uuid_raw = (of_nat (horner 16 ds), of_nat (horner 16 es))\<rparr>"
proof -
  have "set (map digit_char (take n ds)) \<subseteq> digit_char ` {..<16}"
    "set (map digit_char (drop n ds)) \<subseteq> digit_char ` {..<16}"
    "set (map digit_char (take n (drop m ds))) \<subseteq> digit_char ` {..<16}"
    "set (map digit_char (take n es)) \<subseteq> digit_char ` {..<16}"
    "set (map digit_char (drop n es)) \<subseteq> digit_char ` {..<16}" for n m
    using assms(3,4) by (auto dest!: in_set_takeD in_set_dropD)
  then have "set (uuid_text ds es) \<subseteq> set uuid_chars"
    unfolding set_uuid_chars uuid_text_def set_append list.set by blast
  moreover have "length (uuid_text ds es) = 36" using assms(1,2) by (simp add: uuid_text_def)
  moreover have "uuid_text ds es ! 8 = CHR ''-''" "uuid_text ds es ! 13 = CHR ''-''"
    "uuid_text ds es ! 18 = CHR ''-''" "uuid_text ds es ! 23 = CHR ''-''"
    using assms(1,2) by (simp_all add: uuid_text_def nth_append)
  ultimately show ?thesis by (simp add: FromString_def uuid_text_parse [OF assms])
qed

section \<open>Round trips\<close>

lemma raw_digits:
  "\<exists>ds. setw 16 CHR ''0'' (print_nat 16 (unat (x :: u64))) = map digit_char ds \<and> length ds = 16
     \<and> (\<forall>d\<in>set ds. d < 16) \<and> horner 16 ds = unat x"
  using setw_print_nat [of 16 "unat x" 16] unsigned_less [of x, where ?'a = nat] by simp

text \<open>C13:
  Every UUID survives printing and parsing: the two halves come back unchanged, and the parsed
  value is always marked with the method \<open>name\<close>.\<close>

theorem uuid_value_roundtrip:
  "FromString (String u) = Inr (u\<lparr>uuid_method := method_name\<rparr>)"
proof -
  obtain ds es where
    "setw 16 CHR ''0'' (print_nat 16 (unat (fst (uuid_raw u)))) = map digit_char ds" "length ds = 16"
    "\<forall>d\<in>set ds. d < 16" "horner 16 ds = unat (fst (uuid_raw u))"
    "setw 16 CHR ''0'' (print_nat 16 (unat (snd (uuid_raw u)))) = map digit_char es" "length es = 16"
    "\<forall>d\<in>set es. d < 16" "horner 16 es = unat (snd (uuid_raw u))"
    using raw_digits by metis
  then show ?thesis
    by (cases u) (simp add: String_text uuid_text_FromString)
qed

definition hex_chars :: string where
  "hex_chars = ''0123456789abcdef''"

lemma digit_char_in_hex: "d < 16 \<Longrightarrow> digit_char d \<in> set hex_chars"
  unfolding hex_chars_def set_hex_digits by simp

definition canonical :: "string \<Rightarrow> bool" where
  "canonical s \<longleftrightarrow> length s = 36 \<and>
     list_all (\<lambda>i. if i = 8 \<or> i = 13 \<or> i = 18 \<or> i = 23 then s ! i = CHR ''-''
                   else s ! i \<in> set hex_chars) [0..<36]"

lemma canonical_range:
  "canonical s \<Longrightarrow> i + n \<le> 36 \<Longrightarrow> (\<And>j. j < n \<Longrightarrow> i + j \<noteq> 8 \<and> i + j \<noteq> 13 \<and> i + j \<noteq> 18 \<and> i + j \<noteq> 23)
    \<Longrightarrow> set (take n (drop i s)) \<subseteq> digit_char ` {..<16}"
  unfolding canonical_def hex_chars_def set_hex_digits by (auto simp: in_set_conv_nth list_all_iff)

lemma canonical_split:
  assumes "length s = 36" and "s ! 8 = h" and "s ! 13 = h" and "s ! 18 = h" and "s ! 23 = h"
  shows "s = take 8 (drop 0 s) @ h # take 4 (drop 9 s) @ h # take 4 (drop 14 s) @ h #
    take 4 (drop 19 s) @ h # take 12 (drop 24 s)"
proof -
  have step: "drop i s = take n (drop i s) @ s ! (i + n) # drop (i + n + 1) s" if "i + n < 36" for i n
    using that assms(1) by (metis Cons_nth_drop_Suc Suc_eq_plus1 append_take_drop_id drop_drop add.commute)
  show ?thesis
    using step [of 0 8] step [of 9 4] step [of 14 4] step [of 19 4] assms by simp
qed

lemma canonical_text:
  assumes "canonical s"
  shows "\<exists>ds es. s = uuid_text ds es \<and> length ds = 16 \<and> length es = 16
    \<and> (\<forall>d\<in>set ds. d < 16) \<and> (\<forall>d\<in>set es. d < 16)"
proof -
  have len: "length s = 36" using assms by (simp add: canonical_def)
  have part: "\<exists>ds. take n (drop i s) = map digit_char ds \<and> (\<forall>d\<in>set ds. d < 16)"
    if "i + n \<le> 36" "\<And>j. j < n \<Longrightarrow> i + j \<noteq> 8 \<and> i + j \<noteq> 13 \<and> i + j \<noteq> 18 \<and> i + j \<noteq> 23" for i n
    using canonical_range [OF assms that] by (rule hex_chars_digits)
  obtain a where a: "take 8 (drop 0 s) = map digit_char a" "\<forall>d\<in>set a. d < 16" using part [of 0 8] by auto
  obtain b where b: "take 4 (drop 9 s) = map digit_char b" "\<forall>d\<in>set b. d < 16" using part [of 9 4] by auto
  obtain c where c: "take 4 (drop 14 s) = map digit_char c" "\<forall>d\<in>set c. d < 16" using part [of 14 4] by auto
  obtain d where d: "take 4 (drop 19 s) = map digit_char d" "\<forall>d\<in>set d. d < 16" using part [of 19 4] by auto
  obtain e where e: "take 12 (drop 24 s) = map digit_char e" "\<forall>d\<in>set e. d < 16" using part [of 24 12] by auto
  have lens: "length a = 8" "length b = 4" "length c = 4" "length d = 4" "length e = 12"
    using len arg_cong [OF a(1), of length] arg_cong [OF b(1), of length] arg_cong [OF c(1), of length]
      arg_cong [OF d(1), of length] arg_cong [OF e(1), of length] by simp_all
  have "list_all (\<lambda>i. i < 36 \<longrightarrow> i = 8 \<or> i = 13 \<or> i = 18 \<or> i = 23 \<longrightarrow> s ! i = CHR ''-'') [8, 13, 18, 23]"
    using assms unfolding canonical_def by (auto simp: list_all_iff split: if_splits)
  then have "s = uuid_text (a @ b @ c) (d @ e)"
    using canonical_split [OF len, of "CHR ''-''"] a b c d e lens
    by (simp add: uuid_text_def)
  then show ?thesis using a b c d e lens by (intro exI [of _ "a @ b @ c"] exI [of _ "d @ e"]) auto
qed

lemma list_16: "length ds = 16 \<Longrightarrow>
  ds = [ds ! 0, ds ! 1, ds ! 2, ds ! 3, ds ! 4, ds ! 5, ds ! 6, ds ! 7, ds ! 8, ds ! 9, ds ! 10,
    ds ! 11, ds ! 12, ds ! 13, ds ! 14, ds ! 15]"
  by (intro nth_equalityI) (auto simp: nth_Cons' numeral_eq_Suc less_Suc_eq)

lemma canonical_uuid_text:
  assumes "length ds = 16" and "length es = 16" and "\<forall>d\<in>set ds. d < 16" and "\<forall>d\<in>set es. d < 16"
  shows "canonical (uuid_text ds es)"
proof -
  have "ds ! i < 16" "es ! i < 16" if "i < 16" for i using assms that by auto
  then show ?thesis
    by (subst list_16 [OF assms(1)], subst list_16 [OF assms(2)])
      (simp add: uuid_text_def canonical_def digit_char_in_hex upt_conv_Cons)
qed

lemma String_ex_text:
  "\<exists>ds es. String u = uuid_text ds es \<and> length ds = 16 \<and> length es = 16
    \<and> (\<forall>d\<in>set ds. d < 16) \<and> (\<forall>d\<in>set es. d < 16)
    \<and> horner 16 ds = unat (fst (uuid_raw u)) \<and> horner 16 es = unat (snd (uuid_raw u))"
  using raw_digits [of "fst (uuid_raw u)"] raw_digits [of "snd (uuid_raw u)"] String_text by metis

lemma FromString_canonical:
  assumes "canonical s"
  shows "rmap String (FromString s) = Inr s"
proof -
  obtain ds es where s: "s = uuid_text ds es" "length ds = 16" "length es = 16"
    "\<forall>d\<in>set ds. d < 16" "\<forall>d\<in>set es. d < 16" using canonical_text [OF assms] by auto
  define u where "u = \<lparr>uuid_method = method_name,
    uuid_raw = (of_nat (horner 16 ds) :: u64, of_nat (horner 16 es) :: u64)\<rparr>"
  obtain ds' es' where u: "String u = uuid_text ds' es'" "length ds' = 16" "length es' = 16"
    "\<forall>d\<in>set ds'. d < 16" "\<forall>d\<in>set es'. d < 16"
    "horner 16 ds' = unat (fst (uuid_raw u))" "horner 16 es' = unat (snd (uuid_raw u))"
    using String_ex_text [of u] by auto
  have "horner 16 ds < 16 ^ length ds" "horner 16 es < 16 ^ length es"
    using s by (blast intro: horner_less)+
  then have "horner 16 ds' = horner 16 ds" "horner 16 es' = horner 16 es"
    using s(2,3) u(6,7) by (simp_all add: u_def unat_of_nat)
  then have "ds' = ds" "es' = es" using s u by (auto intro: horner_inj)
  then show ?thesis using uuid_text_FromString [OF s(2-5)] u(1) by (simp add: s(1) u_def)
qed

text \<open>A text is parsed and printed back unchanged exactly when it has the canonical form: 36
  characters, hyphens at 8, 13, 18 and 23 and nowhere else, lowercase hexadecimal digits elsewhere.\<close>

theorem uuid_text_roundtrip:
  "(rmap String (FromString s) = Inr s) = canonical s"
proof
  assume "rmap String (FromString s) = Inr s"
  then obtain u where "s = String u" by (auto simp: fault_simps)
  then show "canonical s" using String_ex_text [of u] canonical_uuid_text by auto
qed (rule FromString_canonical)

text \<open>The parser accepts a text with hyphens beyond the four it checks: it skips them, reads a
  hyphen as the second character of a pair, and steps over the end of the text when an odd number of
  characters is left.\<close>

theorem uuid_extra_hyphens:
  "FromString ''00000000-0000-0000-0000--00000000000'' = Inl Out_Of_Bounds
   \<and> rmap uuid_raw (FromString ''00000000-0000-0000-0000-00000000001-'') = Inr (0, 1)"
proof
  let ?z = "\<lambda>n. replicate n (digit_char 0)"
  have zeros: "parse_pairs (?z (2 * k) @ s) n (0, 0) = parse_pairs s (n + k) (0, 0)" for k n s
    by (induction k arbitrary: n) (simp_all add: parse_pair)  have a: "''00000000-0000-0000-0000--00000000000'' = ?z (2 * 4) @ CHR ''-'' # ?z (2 * 2) @ CHR ''-'' #
      ?z (2 * 2) @ CHR ''-'' # ?z (2 * 2) @ CHR ''-'' # CHR ''-'' # ?z (2 * 5) @ ''0''"
    and b: "''00000000-0000-0000-0000-00000000001-'' = ?z (2 * 4) @ CHR ''-'' # ?z (2 * 2) @ CHR ''-'' #
      ?z (2 * 2) @ CHR ''-'' # ?z (2 * 2) @ CHR ''-'' # ?z (2 * 5) @ ''1-''"
    by code_simp+
  have "parse_pairs ''0'' n arr = Inl Out_Of_Bounds" for n arr by (simp add: parse_pairs.simps)
  then have "parse_pairs ''00000000-0000-0000-0000--00000000000'' 0 (0, 0) = Inl Out_Of_Bounds"
    unfolding a by (simp only: zeros parse_hyphen)
  moreover have "set ''00000000-0000-0000-0000--00000000000'' \<subseteq> set uuid_chars" by code_simp
  ultimately show "FromString ''00000000-0000-0000-0000--00000000000'' = Inl Out_Of_Bounds"
    by (simp add: FromString_def del: list.set)
  have "scan_number 16 ''1-'' = Some (False, 1)" by code_simp
  then have "stoull ''1-'' 16 = Inr 1" by (simp add: stoull_def)
  then have "parse_pairs ''1-'' (0 + 4 + 2 + 2 + 2 + 5) (0, 0) = Inr (0, 1)"
    by (simp add: parse_pairs.simps)
  then have "parse_pairs ''00000000-0000-0000-0000-00000000001-'' 0 (0, 0) = Inr (0, 1)"
    unfolding b by (simp only: zeros parse_hyphen)
  moreover have "set ''00000000-0000-0000-0000-00000000001-'' \<subseteq> set uuid_chars" by code_simp
  ultimately show "rmap uuid_raw (FromString ''00000000-0000-0000-0000-00000000001-'') = Inr (0, 1)"
    by (simp add: FromString_def del: list.set)
qed
section \<open>Order\<close>

text \<open>The comparison operators compare the halves independently: they are not a strict weak order as
  sorting and ordered containers need, since incomparability is not transitive, and \<open>\<le>\<close> holds
  between two different values neither of which is below the other.\<close>

theorem uuid_order_not_weak:
  "\<exists>u v w. \<not> uuid_lt u v \<and> \<not> uuid_gt u v \<and> \<not> uuid_lt v w \<and> \<not> uuid_gt v w \<and> uuid_lt u w
     \<and> uuid_le u v \<and> uuid_neq u v"
proof -
  define mk where "mk h l = \<lparr>uuid_method = method_nil, uuid_raw = (h, l)\<rparr>" for h l
  show ?thesis
    by (rule exI [of _ "mk 0 0"], rule exI [of _ "mk 0 1"], rule exI [of _ "mk 1 1"])
      (simp add: mk_def uuid_lt_def uuid_gt_def uuid_le_def uuid_neq_def uuid_eq_def)
qed

section \<open>Addresses and generation\<close>

text \<open>The text of an address: two hexadecimal digits for each octet, with colons between them.\<close>

fun mac_text :: "u8 list \<Rightarrow> string" where
  "mac_text [] = []"
| "mac_text [b] = setw 2 CHR ''0'' (print_nat 16 (unat b))"
| "mac_text (b # bs) = setw 2 CHR ''0'' (print_nat 16 (unat b)) @ CHR '':'' # mac_text bs"

lemma octet_text:
  "\<exists>d e. setw 2 CHR ''0'' (print_nat 16 (unat b)) = [digit_char d, digit_char e]
     \<and> d < 16 \<and> e < 16 \<and> 16 * d + e = unat (b :: u8)"
proof -
  obtain ds where ds: "setw 2 CHR ''0'' (print_nat 16 (unat b)) = map digit_char ds" "length ds = 2"
    "\<forall>d\<in>set ds. d < 16" "horner 16 ds = unat b"
    using setw_print_nat [of 16 "unat b" 2] unat_u8_less [of b] by auto
  then obtain d e where "ds = [d, e]" by (cases ds; cases "tl ds") auto
  with ds show ?thesis by (auto simp: horner_Cons mult.commute)
qed

lemma digit_char_not_colon: "d < 16 \<Longrightarrow> digit_char d \<noteq> CHR '':''"
proof -
  assume "d < 16"
  then have "is_base_digit 16 (digit_char d)" by simp
  moreover have "\<not> is_base_digit 16 CHR '':''" by code_simp
  ultimately show ?thesis by auto
qed
lemma octet_stoull: "stoull (setw 2 CHR ''0'' (print_nat 16 (unat b))) 16 = Inr (ucast (b :: u8))"
proof -
  obtain d e where de: "setw 2 CHR ''0'' (print_nat 16 (unat b)) = [digit_char d, digit_char e]"
    "d < 16" "e < 16" "16 * d + e = unat b" using octet_text by blast
  have "(of_nat (unat b) :: u64) = ucast b" by simp
  then show ?thesis using stoull_two_digits [OF de(2,3)] by (simp only: de(1,4))
qed

lemma mac_loop_octet:
  "mac_loop (setw 2 CHR ''0'' (print_nat 16 (unat (b :: u8))) @ CHR '':'' # s) ret at_start
   = mac_loop s (push_bit 8 ret OR ucast b) False"
proof -
  obtain d e where de: "setw 2 CHR ''0'' (print_nat 16 (unat b)) = [digit_char d, digit_char e]"
    "d < 16" "e < 16" using octet_text by blast
  show ?thesis
    using octet_stoull [of b] digit_char_not_colon de
    by (simp add: mac_loop.simps [of "_ # _"])
qed

lemma mac_loop_last:
  "mac_loop (setw 2 CHR ''0'' (print_nat 16 (unat (b :: u8)))) ret at_start
   = Inr (setw 2 CHR ''0'' (print_nat 16 (unat b)), ret, at_start)"
proof -
  obtain d e where de: "setw 2 CHR ''0'' (print_nat 16 (unat b)) = [digit_char d, digit_char e]"
    "d < 16" "e < 16" using octet_text by blast
  show ?thesis using digit_char_not_colon de by (simp add: mac_loop.simps [of "_ # _"])
qed

lemma mac_loop_text:
  assumes "bs \<noteq> []" and "\<not> at_start \<or> 2 \<le> length bs"
  shows "mac_loop (mac_text bs) ret at_start =
    Inr (mac_text [last bs], foldl (\<lambda>r b. push_bit 8 r OR ucast b) ret (butlast bs), False)"
  using assms
proof (induction bs arbitrary: ret at_start rule: mac_text.induct)
  case (3 b b' bs)
  have "mac_loop (mac_text (b' # bs)) (push_bit 8 ret OR ucast b) False =
    Inr (mac_text [last (b' # bs)],
      foldl (\<lambda>r b. push_bit 8 r OR ucast b) (push_bit 8 ret OR ucast b) (butlast (b' # bs)), False)"
    by (rule 3) simp_all
  then show ?case
    by (simp only: mac_text.simps mac_loop_octet last.simps butlast.simps foldl_Cons list.simps if_False)
next
  case (2 b)
  then show ?case by (simp add: mac_loop_last)
qed simp

lemma foldl_octets: "foldl (\<lambda>r b. push_bit 8 r OR ucast (b :: u8)) (of_nat n :: u64) bs =
    of_nat (foldl (\<lambda>a d. a * 256 + d) n (map unat bs))"
proof (induction bs arbitrary: n)
  case (Cons b bs)
  have "push_bit 8 (of_nat n) OR ucast b = (of_nat (n * 256 + unat b) :: u64)"
    by (simp add: shift_or_byte)
  then show ?case by (simp only: foldl_Cons list.map Cons)
qed simp

text \<open>The address of two or more octets, written as two hexadecimal digits each with colons between,
  is read as the number those octets spell with the first octet the most significant, modulo \<open>2 ^ 64\<close>.\<close>

theorem mac_address_value:
  "2 \<le> length bs \<Longrightarrow> MacStringToInt (mac_text bs) = Inr (of_nat (horner 256 (map unat bs)))"
proof -
  assume bs: "2 \<le> length bs"
  then have "bs \<noteq> []" by auto
  moreover have "length (mac_text [last bs]) = 2" using octet_text [of "last bs"] by auto
  moreover have "foldl (\<lambda>r b. push_bit 8 r OR ucast b) (0 :: u64) bs =
      push_bit 8 (foldl (\<lambda>r b. push_bit 8 r OR ucast b) 0 (butlast bs)) OR ucast (last bs)"
    using \<open>bs \<noteq> []\<close> by (cases bs rule: rev_cases) simp_all
  moreover have "foldl (\<lambda>r b. push_bit 8 r OR ucast b) (0 :: u64) bs = of_nat (horner 256 (map unat bs))"
  proof -
    have "(0 :: u64) = of_nat 0" by simp
    then show ?thesis using foldl_octets [of 0 bs] by (simp only: horner_def)
  qed
  ultimately show ?thesis
    using octet_stoull [of "last bs"]
    unfolding MacStringToInt_def mac_loop_text [OF \<open>bs \<noteq> []\<close> disjI2 [OF bs]]
    by (simp only: rbind.simps rmap.simps prod.case if_False mac_text.simps order_refl simp_thms if_True)
qed

theorem mac_address_value_witness:
  "MacStringToInt (mac_text [170, 187, 1]) = Inr 11188993"
proof -
  have "horner 256 (map unat [170, 187, 1 :: u8]) = 11188993" by (simp add: horner_Cons)
  then show ?thesis using mac_address_value [of "[170, 187, 1]"] by simp
qed

text \<open>An address of one octet loses its last digit, a last octet of one digit is dropped.\<close>

lemma mac_short_octets:
  "MacStringToInt ''aa'' = Inr 10" "MacStringToInt ''aa:b'' = Inr 170"
  "MacStringToInt [] = Inl (Thrown ''invalid_argument'')"
proof -
  have "scan_number 16 ''a'' = Some (False, 10)" "scan_number 16 ''aa'' = Some (False, 170)"
    "scan_number 16 [] = None" by code_simp+
  then have "stoull ''a'' 16 = Inr 10" "stoull ''aa'' 16 = Inr 170"
    "stoull [] 16 = Inl (Thrown ''invalid_argument'')" by (simp_all add: stoull_def)
  then show "MacStringToInt ''aa'' = Inr 10" "MacStringToInt ''aa:b'' = Inr 170"
    "MacStringToInt [] = Inl (Thrown ''invalid_argument'')"
    by (simp_all add: MacStringToInt_def mac_loop.simps)
qed

text \<open>Whatever the method, the generator returns a UUID whose 128 bits are all zero, marked with the
  method \<open>nil\<close>, or fails; it fails only when the method is \<open>nil\<close>, and then where the address cannot be read as a number
  or the time overflows, as it does on every host whose \<open>mktime\<close> knows the year 1582.\<close>

theorem generate_only_nil:
  "(case Generate tt now address m of
      Inl e \<Rightarrow> m = method_nil
    | Inr (out, u) \<Rightarrow> u = \<lparr>uuid_method = method_nil, uuid_raw = (0, 0)\<rparr> \<and> (m \<noteq> method_nil \<longrightarrow> out = []))
   \<and> (tt < - 9223372037 \<longrightarrow> Generate tt now address method_nil = Inl Overflow)"
proof
  show "case Generate tt now address m of
      Inl e \<Rightarrow> m = method_nil
    | Inr (out, u) \<Rightarrow> u = \<lparr>uuid_method = method_nil, uuid_raw = (0, 0)\<rparr> \<and> (m \<noteq> method_nil \<longrightarrow> out = [])"
    by (cases m; cases "GenMAC_time tt now"; cases "MacStringToInt address") (simp_all add: Generate_def GenMAC_def Nil_uuid_def)
  show "tt < - 9223372037 \<longrightarrow> Generate tt now address method_nil = Inl Overflow"
    by (simp add: Generate_def GenMAC_def GenMAC_time_def nanoseconds_def)
qed

end
