(* ===== verification/Tvm.thy ===== *)
theory Tvm
  imports Prelude
begin

text \<open>
  The assembler of \<^verbatim>\<open>tvm/tvm.cc\<close>: classification of tokens, the tokenizer, the parser into
  instruction rows, the symbol table and the encoder, composed as \<^verbatim>\<open>tvm/tvmc.cc\<close> does. Pointers
  to tokens are indices into the token list, which is what the rows of the code point into; a
  null pointer is \<open>None\<close>. What the code prints to the console is left out.
\<close>

section \<open>Opcodes and registers\<close>

datatype OpCode =
    kAdd | kAnd | kBr | kBrn | kBrz | kBrp | kBrnp | kBrnz | kBrzp | kBrnzp
  | kJmp | kLd | kLdi | kLdr | kLea | kSt | kNot
  | kTrap | kTrapGetc | kTrapOut | kTrapPuts | kTrapIn | kTrapPutsp | kTrapHalt
  | kRet | kIllegal

fun opcode_value :: "OpCode \<Rightarrow> u16" where
  "opcode_value kAdd = 0b0001000000000000"
| "opcode_value kAnd = 0b0101000000000000"
| "opcode_value kBr = 0b0000000000000000"
| "opcode_value kBrn = 0b0000100000000000"
| "opcode_value kBrz = 0b0000010000000000"
| "opcode_value kBrp = 0b0000001000000000"
| "opcode_value kBrnp = 0b0000000000000000 OR 0b0000100000000000 OR 0b0000001000000000"
| "opcode_value kBrnz = 0b0000000000000000 OR 0b0000100000000000 OR 0b0000010000000000"
| "opcode_value kBrzp = 0b0000000000000000 OR 0b0000010000000000 OR 0b0000001000000000"
| "opcode_value kBrnzp =
     0b0000000000000000 OR 0b0000100000000000 OR 0b0000010000000000 OR 0b0000001000000000"
| "opcode_value kJmp = 0b0100000000000000"
| "opcode_value kLd = 0b0010000000000000"
| "opcode_value kLdi = 0b1010000000000000"
| "opcode_value kLdr = 0b0110000000000000"
| "opcode_value kLea = 0b1110000000000000"
| "opcode_value kSt = 0b0011000000000000"
| "opcode_value kNot = 0b1001000000000000"
| "opcode_value kTrap = 0b1111000000000000"
| "opcode_value kTrapGetc = 0b1111000000000000 OR 0x20"
| "opcode_value kTrapOut = 0b1111000000000000 OR 0x21"
| "opcode_value kTrapPuts = 0b1111000000000000 OR 0x22"
| "opcode_value kTrapIn = 0b1111000000000000 OR 0x23"
| "opcode_value kTrapPutsp = 0b1111000000000000 OR 0x24"
| "opcode_value kTrapHalt = 0b1111000000000000 OR 0x25"
| "opcode_value kRet = 0b1100000111000000"
| "opcode_value kIllegal = 0b1101000000000000"

definition StringToOpcode :: "string \<Rightarrow> OpCode" where
  "StringToOpcode opstr =
     (if opstr = ''AND'' then kAnd
      else if opstr = ''ADD'' then kAdd
      else if opstr = ''BR'' then kBr
      else if opstr = ''BRn'' then kBrn
      else if opstr = ''BRz'' then kBrz
      else if opstr = ''BRp'' then kBrp
      else if opstr = ''BRnp'' then kBrnp
      else if opstr = ''BRnz'' then kBrnz
      else if opstr = ''BRzp'' then kBrzp
      else if opstr = ''JMP'' then kJmp
      else if opstr = ''LD'' then kLd
      else if opstr = ''LDI'' then kLdi
      else if opstr = ''LDR'' then kLdr
      else if opstr = ''LEA'' then kLea
      else if opstr = ''ST'' then kSt
      else if opstr = ''NOT'' then kNot
      else if opstr = ''GETC'' then kTrapGetc
      else if opstr = ''OUT'' then kTrapOut
      else if opstr = ''PUTS'' then kTrapPuts
      else if opstr = ''IN'' then kTrapIn
      else if opstr = ''PUTSP'' then kTrapPutsp
      else if opstr = ''HALT'' then kTrapHalt
      else kIllegal)"

text \<open>\<open>regstr[1] - 0x30\<close>, a signed character in an \<open>int\<close> cut to 16 bits.\<close>

definition StringToRegister :: "string \<Rightarrow> u16 result" where
  "StringToRegister regstr =
     (if length regstr < 2 then Inl Aborted
      else Inr (scast (byte_of (regstr ! 1)) - 0x30))"

definition AsSR1 :: "u16 \<Rightarrow> u16" where "AsSR1 sr1 = push_bit 6 sr1"

definition AsDR :: "u16 \<Rightarrow> u16" where "AsDR dr = push_bit 9 dr"

section \<open>Tokens\<close>

datatype Type =
    Segment | Instruction | Register | Label | NumberLiteral | HexNumber | Punct
  | StringLiteral | Unknown

text \<open>\<open>opcode_\<close> is set for instructions only, \<open>None\<close> otherwise.\<close>

record Token =
  tok_value :: string
  tok_line :: nat
  tok_type :: Type
  tok_opcode :: "OpCode option"
  tok_address :: u16

text \<open>The regular expressions, as predicates on whole strings.\<close>

fun kSegment :: "string \<Rightarrow> bool" where
  "kSegment (d # c # cs) \<longleftrightarrow>
     d = CHR ''.'' \<and> is_upper c \<and> cs \<noteq> [] \<and> list_all (\<lambda>c. is_upper c \<or> is_digit c) cs"
| "kSegment _ \<longleftrightarrow> False"

definition kInstruction :: "string \<Rightarrow> bool" where
  "kInstruction s \<longleftrightarrow> s \<in> set
     [''AND'', ''ADD'', ''BR'', ''BRn'', ''BRzp'', ''BRnz'', ''BRp'', ''BRz'', ''BRnp'', ''HALT'',
      ''JMP'', ''LD'', ''LDI'', ''LEA'', ''LDR'', ''PUTS'', ''ST'', ''NOT'']"

definition kRegister :: "string \<Rightarrow> bool" where
  "kRegister s \<longleftrightarrow> s \<in> set [''R0'', ''R1'', ''R2'', ''R3'']"

fun kLabel :: "string \<Rightarrow> bool" where
  "kLabel (c # cs) \<longleftrightarrow>
     (is_upper c \<and> c \<noteq> CHR ''R'' \<or> c = CHR ''_'') \<and> cs \<noteq> []
     \<and> list_all (\<lambda>c. is_upper c \<or> is_digit c \<or> c = CHR ''_'') cs"
| "kLabel [] \<longleftrightarrow> False"

definition opt_char :: "char \<Rightarrow> string \<Rightarrow> string" where
  "opt_char c s = (case s of [] \<Rightarrow> [] | d # ds \<Rightarrow> if d = c then ds else s)"

definition kNumberLiteral :: "string \<Rightarrow> bool" where
  "kNumberLiteral s \<longleftrightarrow>
     (case opt_char CHR ''-'' (opt_char CHR ''#'' s) of
        [] \<Rightarrow> False
      | d # ds \<Rightarrow> (d = CHR ''0'' \<and> ds = []) \<or> (is_digit d \<and> d \<noteq> CHR ''0'' \<and> list_all is_digit ds))"

fun kHexNumber :: "string \<Rightarrow> bool" where
  "kHexNumber (x # cs) \<longleftrightarrow> x = CHR ''x'' \<and> cs \<noteq> [] \<and> list_all (is_base_digit 16) cs"
| "kHexNumber [] \<longleftrightarrow> False"

definition kPunct :: "string \<Rightarrow> bool" where
  "kPunct s \<longleftrightarrow> s \<in> set ['','', ''.'', '':'', '';'']"

definition kString :: "string \<Rightarrow> bool" where
  "kString s \<longleftrightarrow>
     2 \<le> length s \<and> hd s = CHR 0x22 \<and> last s = CHR 0x22
     \<and> list_all (\<lambda>c. is_upper c \<or> is_lower c \<or> is_digit c \<or> is_punct c
                   \<or> c = CHR '' '' \<or> c = CHR 0x09) (butlast (tl s))"

definition classify_type :: "string \<Rightarrow> Type" where
  "classify_type v =
     (if kSegment v then Segment
      else if kInstruction v then Instruction
      else if kRegister v then Register
      else if kHexNumber v then HexNumber
      else if kLabel v then Label
      else if kNumberLiteral v then NumberLiteral
      else if kPunct v then Punct
      else if kString v then StringLiteral
      else Unknown)"

definition Classify :: "Token \<Rightarrow> Token" where
  "Classify t =
     (let t = t\<lparr>tok_type :=
                (if classify_type (tok_value t) = Unknown then tok_type t
                 else classify_type (tok_value t))\<rparr>
      in if tok_type t = Instruction then t\<lparr>tok_opcode := Some (StringToOpcode (tok_value t))\<rparr> else t)"

definition mk_token :: "string \<Rightarrow> nat \<Rightarrow> Token" where
  "mk_token tok ln = Classify
     \<lparr>tok_value = tok, tok_line = ln, tok_type = Unknown, tok_opcode = None, tok_address = 0\<rparr>"

definition TypeString :: "Token \<Rightarrow> string" where
  "TypeString t =
     (case tok_type t of
        Segment \<Rightarrow> ''segment''
      | Instruction \<Rightarrow> ''instruction''
      | Register \<Rightarrow> ''register''
      | Label \<Rightarrow> ''label''
      | NumberLiteral \<Rightarrow> ''number-lit''
      | HexNumber \<Rightarrow> ''hexnumber-lit''
      | Punct \<Rightarrow> ''punct''
      | StringLiteral \<Rightarrow> ''string-lit''
      | Unknown \<Rightarrow> ''unknown'')"

text \<open>\<open>value_.substr (1)\<close>\<close>

definition substr1 :: "string \<Rightarrow> string result" where
  "substr1 s = (if s = [] then Inl (Thrown ''out_of_range'') else Inr (tl s))"

definition HexToU16 :: "Token \<Rightarrow> u16 result" where
  "HexToU16 t = rmap (\<lambda>s. of_nat (extract_unsigned 16 16 s)) (substr1 (tok_value t))"

definition LitValue :: "Token \<Rightarrow> u16 result" where
  "LitValue t = rmap (\<lambda>s. of_nat (extract_unsigned 16 10 s)) (substr1 (tok_value t))"

definition U16Value :: "Token \<Rightarrow> u16" where
  "U16Value t = of_nat (extract_unsigned 16 10 (tok_value t))"

section \<open>Tokenizer\<close>

text \<open>The code behind \<open>flush_buffer\<close>.\<close>

definition flush_buffer :: "string \<Rightarrow> nat \<Rightarrow> bool \<Rightarrow> bool \<Rightarrow> Token list \<Rightarrow> Token list \<times> nat" where
  "flush_buffer buffer line_number incr_line_number colon tokens =
     (let tokens = (if length buffer > 0 then tokens @ [mk_token buffer line_number] else tokens);
          line_number = (if incr_line_number then line_number + 1 else line_number);
          tokens = (if colon then tokens @ [mk_token '':'' line_number] else tokens)
      in (tokens, line_number))"

definition in_string :: "char \<Rightarrow> bool" where
  "in_string c \<longleftrightarrow> c \<noteq> CHR 0x22 \<and> c \<noteq> CHR 0x0A"

text \<open>
  The loop of \<open>Tokenize\<close> over the characters still to read. A comment leaves the buffer alone. At
  the end of the input a failed read leaves \<open>c\<close> as it was, so a string that ends
  the input right after its opening quote is closed with that same quote.
\<close>

function Tokenize_loop :: "string \<Rightarrow> string \<Rightarrow> nat \<Rightarrow> Token list \<Rightarrow> Token list result" where
  "Tokenize_loop [] buffer line_number tokens =
     Inr (if length buffer > 0 then tokens @ [mk_token buffer line_number] else tokens)"
| "Tokenize_loop (c # s) buffer line_number tokens =
     (if c = CHR '';'' then
        (case dropWhile (\<lambda>c. c \<noteq> CHR 0x0A) s of
           [] \<Rightarrow> Tokenize_loop [] buffer line_number tokens
         | nl # s' \<Rightarrow> Tokenize_loop s' buffer (line_number + 1) tokens)
      else if c = CHR 0x22 then
        (let buffer = (buffer @ [c]) @ takeWhile in_string s in
         case dropWhile in_string s of
           [] \<Rightarrow>
             (let c = last (c # takeWhile in_string s);
                  buffer = (if c = CHR 0x22 then buffer @ [c] else buffer);
                  (tokens, line_number) = flush_buffer buffer line_number False False tokens
              in Tokenize_loop [] [] line_number tokens)
         | c # s' \<Rightarrow>
             if c = CHR 0x0A then Inl Exited
             else
               (let (tokens, line_number) =
                  flush_buffer (buffer @ [c]) line_number False False tokens
                in Tokenize_loop s' [] line_number tokens))
      else if c = CHR '':'' then
        (let (tokens, line_number) = flush_buffer buffer line_number False True tokens
         in Tokenize_loop s [] line_number tokens)
      else if c = CHR 0x0A then
        (let (tokens, line_number) = flush_buffer buffer line_number True False tokens
         in Tokenize_loop s [] line_number tokens)
      else if c = CHR '','' \<or> c = CHR '' '' \<or> c = CHR 0x09 then
        (let (tokens, line_number) = flush_buffer buffer line_number False False tokens
         in Tokenize_loop s [] line_number tokens)
      else Tokenize_loop s (buffer @ [c]) line_number tokens)"
  by pat_completeness auto

termination
  by (relation "measure (\<lambda>(s, buffer, line_number, tokens). length s)")
    (auto dest: dropWhile_shorter)

definition Tokenize :: "string \<Rightarrow> Token list result" where
  "Tokenize s = Tokenize_loop s [] 1 []"

section \<open>Parser\<close>

record InstructionRow =
  row_label :: "nat option"
  row_op :: "nat option"
  row_operands :: "nat option list"

record InstructionSet =
  rows :: "InstructionRow list"
  symtab :: "string \<rightharpoonup> nat"

definition empty_row :: InstructionRow where
  "empty_row = \<lparr>row_label = None, row_op = None, row_operands = [None, None, None]\<rparr>"

text \<open>The iterator is an index, \<open>end\<close> the number of tokens.\<close>

definition AssignLabel :: "nat \<Rightarrow> InstructionRow \<times> nat \<Rightarrow> InstructionRow \<times> nat" where
  "AssignLabel e = (\<lambda>(row, it).
     if it = e then (row, it) else (row\<lparr>row_label := Some it\<rparr>, it + 1))"

definition AssignOp :: "nat \<Rightarrow> InstructionRow \<times> nat \<Rightarrow> InstructionRow \<times> nat" where
  "AssignOp e = (\<lambda>(row, it).
     if it = e then (row, it) else (row\<lparr>row_op := Some it\<rparr>, it + 1))"

definition AssignOperand :: "nat \<Rightarrow> nat \<Rightarrow> InstructionRow \<times> nat \<Rightarrow> InstructionRow \<times> nat" where
  "AssignOperand e pos = (\<lambda>(row, it).
     if it = e then (row, it)
     else if pos > 2 then (row, it)
     else (row\<lparr>row_operands := (row_operands row)[pos := Some it]\<rparr>, it + 1))"

definition parse_segment :: "Token list \<Rightarrow> InstructionRow \<times> nat \<Rightarrow> InstructionRow \<times> nat" where
  "parse_segment tokens = (\<lambda>(row, it).
     (let v = tok_value (tokens ! it); e = length tokens in
      if v = ''.END'' then AssignOp e (row, it)
      else if v = ''.ORIG'' \<or> v = ''.STRINGZ'' \<or> v = ''.BLKW''
      then AssignOperand e 0 (AssignOp e (row, it))
      else AssignOperand e 0 (AssignLabel e (row, it))))"

text \<open>The operands of \<open>|\<close> are taken to be evaluated from left to right.\<close>

definition parse_instruction :: "Token list \<Rightarrow> InstructionRow \<times> nat \<Rightarrow> InstructionRow \<times> nat" where
  "parse_instruction tokens = (\<lambda>(row, it).
     (let v = tok_value (tokens ! it); e = length tokens in
      if v = ''AND'' \<or> v = ''ADD'' \<or> v = ''LDR''
      then AssignOperand e 2 (AssignOperand e 1 (AssignOperand e 0 (AssignOp e (row, it))))
      else if v = ''HALT'' \<or> v = ''PUTS'' then AssignOp e (row, it)
      else if v = ''BR'' \<or> v = ''BRn'' \<or> v = ''BRzp'' \<or> v = ''BRnz'' \<or> v = ''BRp'' \<or> v = ''BRz''
        \<or> v = ''BRnp''
      then AssignOperand e 0 (AssignOp e (row, it))
      else if v = ''LD'' \<or> v = ''LEA'' \<or> v = ''NOT'' \<or> v = ''ST''
      then AssignOperand e 1 (AssignOperand e 0 (AssignOp e (row, it)))
      else (row, it)))"

text \<open>
  One turn of the loop of \<open>Parse\<close>: the row to add, \<open>None\<close> for the \<open>continue\<close> after a label that
  ends the program, and the iterator.
\<close>

definition parse_row :: "Token list \<Rightarrow> nat \<Rightarrow> (InstructionRow option \<times> nat) result" where
  "parse_row tokens it =
     (case tok_type (tokens ! it) of
        Segment \<Rightarrow> (let (row, it) = parse_segment tokens (empty_row, it) in Inr (Some row, it))
      | Label \<Rightarrow>
          (let (row, it) = AssignLabel (length tokens) (empty_row, it) in
           if it = length tokens then Inr (None, it)
           else if tok_type (tokens ! it) = Instruction
           then (let (row, it) = parse_instruction tokens (row, it) in Inr (Some row, it))
           else if tok_type (tokens ! it) = Segment
           then (let (row, it) = parse_segment tokens (row, it) in Inr (Some row, it))
           else Inr (Some row, it))
      | Instruction \<Rightarrow> (let (row, it) = parse_instruction tokens (empty_row, it) in Inr (Some row, it))
      | _ \<Rightarrow> Inl Aborted)"

text \<open>The loop: \<open>None\<close> when it never ends.\<close>

partial_function (option) Parse_loop ::
  "Token list \<Rightarrow> nat \<Rightarrow> InstructionRow list \<Rightarrow> InstructionRow list result option" where
  "Parse_loop tokens it acc =
     (if it = length tokens then Some (Inr acc)
      else
        (case parse_row tokens it of
           Inl e \<Rightarrow> Some (Inl e)
         | Inr (row, it) \<Rightarrow>
             Parse_loop tokens it (case row of None \<Rightarrow> acc | Some r \<Rightarrow> acc @ [r])))"

definition token_at :: "Token list \<Rightarrow> nat option \<Rightarrow> Token result" where
  "token_at tokens p = rbind (deref p) (\<lambda>i. read_at tokens i)"

text \<open>One row of \<open>BuildSymtab\<close>, over the tokens, the table and the offset.\<close>

definition BuildSymtab_row ::
  "InstructionRow \<Rightarrow> Token list \<times> (string \<rightharpoonup> nat) \<times> nat \<Rightarrow> (Token list \<times> (string \<rightharpoonup> nat) \<times> nat) result"
where
  "BuildSymtab_row row = (\<lambda>(tokens, symtab, offset).
     rbind (token_at tokens (row_op row)) (\<lambda>op.
     rbind (if tok_value op = ''.ORIG''
            then rbind (token_at tokens (row_operands row ! 0)) (\<lambda>t. rmap unat (HexToU16 t))
            else Inr offset) (\<lambda>offset.
     case (row_label row, row_operands row ! 0) of
       (Some l, Some o0) \<Rightarrow>
         rbind (read_at tokens l) (\<lambda>label.
         rbind (read_at tokens o0) (\<lambda>operand.
         let tokens = tokens[l := label\<lparr>tok_address := of_nat offset\<rparr>];
             symtab = symtab(tok_value label \<mapsto> l);
             offset =
               (if tok_value op = ''.STRINGZ'' then offset + length (tok_value operand)
                else if tok_value op = ''.BLKW'' then offset + unat (U16Value operand)
                else offset)
         in Inr (tokens, symtab, offset)))
     | _ \<Rightarrow> Inr (tokens, symtab, offset + 2))))"

fun BuildSymtab_loop ::
  "InstructionRow list \<Rightarrow> Token list \<times> (string \<rightharpoonup> nat) \<times> nat \<Rightarrow> (Token list \<times> (string \<rightharpoonup> nat) \<times> nat) result"
where
  "BuildSymtab_loop [] st = Inr st"
| "BuildSymtab_loop (row # rs) st = rbind (BuildSymtab_row row st) (BuildSymtab_loop rs)"

definition BuildSymtab :: "Token list \<Rightarrow> InstructionSet \<Rightarrow> (Token list \<times> InstructionSet) result" where
  "BuildSymtab tokens inset =
     rmap (\<lambda>(tokens, st, offset). (tokens, inset\<lparr>symtab := st\<rparr>))
       (BuildSymtab_loop (rows inset) (tokens, symtab inset, 0))"

definition Parse :: "Token list \<Rightarrow> (Token list \<times> InstructionSet) result option" where
  "Parse tokens =
     map_option
       (\<lambda>r. rbind r (\<lambda>rs. BuildSymtab tokens \<lparr>rows = rs, symtab = Map.empty\<rparr>))
       (Parse_loop tokens 0 [])"

section \<open>Encoder\<close>

definition operand :: "Token list \<Rightarrow> InstructionRow \<Rightarrow> nat \<Rightarrow> Token result" where
  "operand tokens row k = token_at tokens (row_operands row ! k)"

text \<open>\<open>StringToRegister (row.operands_[k]->value_)\<close>\<close>

definition reg_operand :: "Token list \<Rightarrow> InstructionRow \<Rightarrow> nat \<Rightarrow> u16 result" where
  "reg_operand tokens row k = rbind (operand tokens row k) (\<lambda>t. StringToRegister (tok_value t))"

definition lit_operand :: "Token list \<Rightarrow> InstructionRow \<Rightarrow> nat \<Rightarrow> u16 result" where
  "lit_operand tokens row k = rbind (operand tokens row k) LitValue"

definition encode_alu :: "OpCode \<Rightarrow> Token list \<Rightarrow> InstructionRow \<Rightarrow> u16 result" where
  "encode_alu opc tokens row =
     rbind (reg_operand tokens row 0) (\<lambda>dr.
     rbind (reg_operand tokens row 1) (\<lambda>sr1.
     rbind (operand tokens row 2) (\<lambda>t.
     rbind (if tok_type t = NumberLiteral then rmap (\<lambda>v. 0b100000 OR (0b11111 AND v)) (LitValue t)
            else StringToRegister (tok_value t)) (\<lambda>last.
     Inr (opcode_value opc OR AsDR dr OR AsSR1 sr1 OR last)))))"

definition encode_load :: "OpCode \<Rightarrow> Token list \<Rightarrow> InstructionRow \<Rightarrow> u16 result" where
  "encode_load opc tokens row =
     rbind (reg_operand tokens row 0) (\<lambda>dr.
     rbind (lit_operand tokens row 1) (\<lambda>v.
     Inr (opcode_value opc OR AsDR dr OR (0b111111111 AND v))))"

definition encode_branch :: "OpCode \<Rightarrow> Token list \<Rightarrow> InstructionRow \<Rightarrow> u16 result" where
  "encode_branch opc tokens row =
     rmap (\<lambda>v. opcode_value opc OR (0b111111111 AND v)) (lit_operand tokens row 0)"

text \<open>The word a row adds to the image, \<open>None\<close> when it adds none.\<close>

definition encode_row :: "Token list \<Rightarrow> InstructionRow \<Rightarrow> u16 option result" where
  "encode_row tokens row =
     (case row_op row of
        None \<Rightarrow> Inr None
      | Some _ \<Rightarrow>
          rbind (token_at tokens (row_op row)) (\<lambda>op.
          let v = tok_value op in
          if v = ''.ORIG'' then rmap Some (rbind (operand tokens row 0) HexToU16)
          else if v = ''NOT'' then
            rmap Some
              (rbind (reg_operand tokens row 0) (\<lambda>dr.
               rbind (reg_operand tokens row 1) (\<lambda>sr1.
               Inr (opcode_value kNot OR AsDR dr OR AsSR1 sr1 OR 0b111111))))
          else if v = ''AND'' then rmap Some (encode_alu kAnd tokens row)
          else if v = ''ADD'' then rmap Some (encode_alu kAdd tokens row)
          else if v = ''GETC'' then Inr (Some (opcode_value kTrapGetc))
          else if v = ''OUT'' then Inr (Some (opcode_value kTrapOut))
          else if v = ''PUTS'' then Inr (Some (opcode_value kTrapPuts))
          else if v = ''IN'' then Inr (Some (opcode_value kTrapIn))
          else if v = ''PUTSP'' then Inr (Some (opcode_value kTrapPutsp))
          else if v = ''HALT'' then Inr (Some (opcode_value kTrapHalt))
          else if v = ''LD'' then rmap Some (encode_load kLd tokens row)
          else if v = ''LEA'' then rmap Some (encode_load kLea tokens row)
          else if v = ''LDI'' then rmap Some (encode_load kLdi tokens row)
          else if v = ''BR'' then rmap Some (encode_branch kBr tokens row)
          else if v = ''BRn'' then rmap Some (encode_branch kBrn tokens row)
          else if v = ''BRzp'' then rmap Some (encode_branch kBrzp tokens row)
          else if v = ''BRnz'' then rmap Some (encode_branch kBrnz tokens row)
          else if v = ''BRp'' then rmap Some (encode_branch kBrp tokens row)
          else if v = ''BRz'' then rmap Some (encode_branch kBrz tokens row)
          else if v = ''BRnp'' then rmap Some (encode_branch kBrnp tokens row)
          else if v = ''BRnzp'' then rmap Some (encode_branch kBrnzp tokens row)
          else if v = ''ST'' then
            rmap Some
              (rbind (reg_operand tokens row 0) (\<lambda>sr1.
               rbind (lit_operand tokens row 0) (\<lambda>lit.
               Inr (opcode_value kSt OR AsSR1 sr1 OR (0b111111111 AND lit)))))
          else if v = ''RET'' then Inr (Some (opcode_value kRet))
          else Inr None))"

text \<open>The words of the image up to its length; a write past its \<open>0xffff\<close> words is a fault.\<close>

definition kImageSize :: nat where "kImageSize = 0xffff"

fun Encode_loop :: "Token list \<Rightarrow> InstructionRow list \<Rightarrow> u16 list \<Rightarrow> u16 list result" where
  "Encode_loop tokens [] img = Inr img"
| "Encode_loop tokens (row # rs) img =
     rbind (encode_row tokens row) (\<lambda>w.
       case w of
         None \<Rightarrow> Encode_loop tokens rs img
       | Some w \<Rightarrow>
           if length img < kImageSize then Encode_loop tokens rs (img @ [w]) else Inl Out_Of_Bounds)"

definition Encode :: "Token list \<Rightarrow> InstructionSet \<Rightarrow> u16 list result" where
  "Encode tokens inset = Encode_loop tokens (rows inset) []"

text \<open>\<open>CompileFile\<close>, from the text of the source file to the bytes of the binary.\<close>

definition CompileFile :: "string \<Rightarrow> bytes result option" where
  "CompileFile source =
     (case Tokenize source of
        Inl e \<Rightarrow> Some (Inl e)
      | Inr tokens \<Rightarrow>
          map_option
            (\<lambda>p. rbind p (\<lambda>(tokens, inset).
                rmap (\<lambda>image. concat (map (\<lambda>w. [ucast (drop_bit 8 w), ucast w]) image))
                  (Encode tokens inset)))
            (Parse tokens))"

end
