(* ===== verification/Tvm_Proofs.thy ===== *)
theory Tvm_Proofs
  imports Tvm
begin

text \<open>
  What the assembler does: which sources it tokenizes to which tokens, when the parser ends, and
  the words it emits for the instructions it supports.
\<close>

section \<open>Tokenizer\<close>

definition plain :: "char \<Rightarrow> bool" where
  "plain c \<longleftrightarrow> c \<noteq> CHR '';'' \<and> c \<noteq> CHR 0x22 \<and> c \<noteq> CHR '':'' \<and> c \<noteq> CHR 0x0A \<and> c \<noteq> CHR '',''
     \<and> c \<noteq> CHR '' '' \<and> c \<noteq> CHR 0x09"

definition blank :: "char \<Rightarrow> bool" where
  "blank c \<longleftrightarrow> c = CHR '','' \<or> c = CHR '' '' \<or> c = CHR 0x09"

text \<open>
  The words of a source are of three kinds: a run of plain characters, a string in quotes that may follow such a run
  directly, and a colon. A string and a colon end by themselves.
\<close>

datatype lexeme = Word string | Quoted string string | Colon

fun lexeme_text :: "lexeme \<Rightarrow> string" where
  "lexeme_text (Word w) = w"
| "lexeme_text (Quoted w s) = w @ CHR 0x22 # s @ [CHR 0x22]"
| "lexeme_text Colon = '':''"

fun lexeme_ok :: "lexeme \<Rightarrow> bool" where
  "lexeme_ok (Word w) \<longleftrightarrow> w \<noteq> [] \<and> list_all plain w"
| "lexeme_ok (Quoted w s) \<longleftrightarrow> list_all plain w \<and> list_all in_string s"
| "lexeme_ok Colon \<longleftrightarrow> True"

fun self_ending :: "lexeme \<Rightarrow> bool" where
  "self_ending (Word w) \<longleftrightarrow> False"
| "self_ending _ \<longleftrightarrow> True"

text \<open>
  A source line without its newline: indentation, words each followed by any blanks and commas, and perhaps a comment.
  Blanks may be left out behind a string or a colon, before a colon and at the end of the line; only between two
  words, and between a word and a comment, there is at least one.
\<close>

record source_line =
  indent :: string
  items :: "(lexeme \<times> string) list"
  remark :: "string option"

definition line_words :: "source_line \<Rightarrow> string list" where
  "line_words l = map (lexeme_text \<circ> fst) (items l)"

definition items_text :: "(lexeme \<times> string) list \<Rightarrow> string" where
  "items_text its = concat (map (\<lambda>(x, sep). lexeme_text x @ sep) its)"

definition remark_text :: "string option \<Rightarrow> string" where
  "remark_text r = (case r of None \<Rightarrow> [] | Some c \<Rightarrow> CHR '';'' # c)"

definition line_text :: "source_line \<Rightarrow> string" where
  "line_text l = indent l @ items_text (items l) @ remark_text (remark l)"

fun separated :: "bool \<Rightarrow> (lexeme \<times> string) list \<Rightarrow> bool" where
  "separated commented [] \<longleftrightarrow> True"
| "separated commented ((x, sep) # its) \<longleftrightarrow>
     (self_ending x \<or> sep \<noteq> [] \<or> (case its of [] \<Rightarrow> \<not> commented | (y, _) # _ \<Rightarrow> y = Colon))
     \<and> separated commented its"

definition line_ok :: "source_line \<Rightarrow> bool" where
  "line_ok l \<longleftrightarrow> list_all blank (indent l)
     \<and> list_all (\<lambda>(x, sep). lexeme_ok x \<and> list_all blank sep) (items l)
     \<and> separated (remark l \<noteq> None) (items l)
     \<and> (case remark l of None \<Rightarrow> True | Some c \<Rightarrow> CHR 0x0A \<notin> set c)"

text \<open>The lines with newlines between them; behind the last newline of a file there is an empty line.\<close>

fun source_text :: "source_line list \<Rightarrow> string" where
  "source_text [] = []"
| "source_text [l] = line_text l"
| "source_text (l # ls) = line_text l @ CHR 0x0A # source_text ls"

lemma tokenize_plain:
  "list_all plain w \<Longrightarrow> Tokenize_loop (w @ s) buf ln ts = Tokenize_loop s (buf @ w) ln ts"
  by (induction w arbitrary: buf) (auto simp: plain_def)

lemma tokenize_blank_empty:
  "list_all blank w \<Longrightarrow> Tokenize_loop (w @ s) [] ln ts = Tokenize_loop s [] ln ts"
  by (induction w) (auto simp: blank_def flush_buffer_def)

text \<open>Where a word ends: at the end of the source, a newline, a blank or a colon.\<close>

definition ends_word :: "string \<Rightarrow> bool" where
  "ends_word s \<longleftrightarrow> s = [] \<or> blank (hd s) \<or> hd s = CHR 0x0A \<or> hd s = CHR '':''"

lemma tokenize_flush:
  assumes "ends_word s"
  shows "Tokenize_loop s buf ln ts = Tokenize_loop s [] ln (if buf = [] then ts else ts @ [mk_token buf ln])"
proof (cases s)
  case (Cons c s')
  then have "c = CHR '','' \<or> c = CHR '' '' \<or> c = CHR 0x09 \<or> c = CHR 0x0A \<or> c = CHR '':''"
    using assms by (auto simp: ends_word_def blank_def)
  then show ?thesis by (elim disjE) (simp_all add: Cons flush_buffer_def)
qed simp

lemma tokenize_quoted:
  assumes "list_all plain w" and "list_all in_string b"
  shows "Tokenize_loop (lexeme_text (Quoted w b) @ s) [] ln ts
    = Tokenize_loop s [] ln (ts @ [mk_token (lexeme_text (Quoted w b)) ln])"
proof -
  have b: "takeWhile in_string (b @ CHR 0x22 # s) = b" "dropWhile in_string (b @ CHR 0x22 # s) = CHR 0x22 # s"
    using assms(2) by (auto simp: list_all_iff in_string_def takeWhile_append dropWhile_append)
  have "Tokenize_loop (lexeme_text (Quoted w b) @ s) [] ln ts = Tokenize_loop (CHR 0x22 # b @ CHR 0x22 # s) w ln ts"
    using tokenize_plain [OF assms(1), of "CHR 0x22 # b @ CHR 0x22 # s" "[]"] by simp
  also have "\<dots> = Tokenize_loop s [] ln (ts @ [mk_token (lexeme_text (Quoted w b)) ln])"
    by (simp add: b flush_buffer_def)
  finally show ?thesis .
qed

lemma tokenize_lexeme:
  assumes "lexeme_ok x" and "self_ending x \<or> ends_word s"
  shows "Tokenize_loop (lexeme_text x @ s) [] ln ts = Tokenize_loop s [] ln (ts @ [mk_token (lexeme_text x) ln])"
proof (cases x)
  case (Word w)
  then show ?thesis
    using assms tokenize_plain [of w s "[]"] tokenize_flush [of s w] by simp
next
  case (Quoted w b)
  then show ?thesis using assms(1) tokenize_quoted [of w b s] by simp
qed (simp add: flush_buffer_def)

lemma tokenize_items:
  "list_all (\<lambda>(x, sep). lexeme_ok x \<and> list_all blank sep) its \<Longrightarrow> separated commented its \<Longrightarrow>
   commented \<or> ends_word s \<Longrightarrow>
   Tokenize_loop (items_text its @ s) [] ln ts
   = Tokenize_loop s [] ln (ts @ map (\<lambda>w. mk_token w ln) (map (lexeme_text \<circ> fst) its))"
proof (induction its arbitrary: ts)
  case (Cons i its)
  obtain x sep where i: "i = (x, sep)" by fastforce
  let ?rest = "items_text its @ s"
  have "self_ending x \<or> ends_word (sep @ ?rest)"
  proof (cases sep)
    case Nil
    show ?thesis
    proof (cases its)
      case (Cons j js)
      then show ?thesis using Nil Cons.prems(2) by (cases j) (auto simp: i items_text_def ends_word_def)
    qed (use Nil Cons.prems in \<open>auto simp: i items_text_def\<close>)
  qed (use Cons.prems(1) in \<open>simp add: i ends_word_def\<close>)
  then have "Tokenize_loop (items_text (i # its) @ s) [] ln ts
      = Tokenize_loop (sep @ ?rest) [] ln (ts @ [mk_token (lexeme_text x) ln])"
    using tokenize_lexeme [of x "sep @ ?rest"] Cons.prems(1) by (simp add: i items_text_def)
  also have "\<dots> = Tokenize_loop ?rest [] ln (ts @ [mk_token (lexeme_text x) ln])"
    using Cons.prems(1) by (simp add: i tokenize_blank_empty)
  finally show ?case using Cons by (simp add: i)
qed (simp add: items_text_def)

lemma tokenize_line:
  assumes "line_ok l" and "rest = [] \<or> hd rest = CHR 0x0A"
  shows "Tokenize_loop (line_text l @ rest) [] ln ts
    = Tokenize_loop rest [] ln (ts @ map (\<lambda>w. mk_token w ln) (line_words l))"
proof -
  have tail: "Tokenize_loop (remark_text (remark l) @ rest) [] ln ts' = Tokenize_loop rest [] ln ts'" for ts'
  proof (cases "remark l")
    case (Some c)
    then have "CHR 0x0A \<notin> set c" using assms(1) by (simp add: line_ok_def)
    then have "dropWhile (\<lambda>c. c \<noteq> CHR 0x0A) c = []"
      and "dropWhile (\<lambda>c. c \<noteq> CHR 0x0A) (c @ CHR 0x0A # s) = CHR 0x0A # s" for s
      by (auto simp: dropWhile_append)
    then show ?thesis using assms(2) Some by (cases rest) (simp_all add: remark_text_def flush_buffer_def del: dropWhile_eq_Nil_conv)
  qed (simp add: remark_text_def)
  have "remark l \<noteq> None \<or> ends_word (remark_text (remark l) @ rest)"
    using assms(2) by (auto simp: remark_text_def ends_word_def)
  then show ?thesis
    using assms(1) tokenize_items [of "items l" "remark l \<noteq> None" "remark_text (remark l) @ rest" ln ts]
    by (simp add: line_text_def line_ok_def tokenize_blank_empty tail line_words_def del: Tokenize_loop.simps)
qed

definition line_tokens :: "nat \<Rightarrow> source_line list \<Rightarrow> Token list" where
  "line_tokens n ls = concat (map (\<lambda>(i, l). map (\<lambda>w. mk_token w i) (line_words l)) (enumerate n ls))"

lemma tokenize_lines_from:
  "list_all line_ok ls \<Longrightarrow> Tokenize_loop (source_text ls) [] n ts = Inr (ts @ line_tokens n ls)"
proof (induction ls arbitrary: n ts rule: source_text.induct)
  case (2 l)
  then show ?case using tokenize_line [of l "[]"] by (simp add: line_tokens_def)
next
  case (3 l l' ls)
  have "Tokenize_loop (source_text (l # l' # ls)) [] n ts
      = Tokenize_loop (CHR 0x0A # source_text (l' # ls)) [] n (ts @ map (\<lambda>w. mk_token w n) (line_words l))"
    using 3 by (simp add: tokenize_line del: Tokenize_loop.simps)
  also have "\<dots> = Tokenize_loop (source_text (l' # ls)) [] (Suc n) (ts @ map (\<lambda>w. mk_token w n) (line_words l))"
    by (simp add: flush_buffer_def)
  finally show ?case using 3 by (simp add: line_tokens_def del: Tokenize_loop.simps)
qed (simp add: line_tokens_def)

text \<open>C11:
  A source is tokenized into exactly its words, strings and colons in order, each with the number of its line, whatever
  the layout: with or without blanks at the end of a line, around strings and colons, with commas, indentation, empty
  lines and comments, and with or without a newline at the end. A comment stands behind a blank here: one that follows a
  word directly does not end it.\<close>

theorem tokenize_lines:
  "list_all line_ok ls \<Longrightarrow> Tokenize (source_text ls) = Inr (line_tokens 1 ls)"
  by (simp add: Tokenize_def tokenize_lines_from)

text \<open>Four lines: words that end at the newline, a label with a colon, a string, and no newline behind the last.\<close>

definition sample_lines :: "source_line list" where
  "sample_lines =
     [\<lparr>indent = ''  '', items = [(Word ''ADD'', '' ''), (Word ''R0'', '', ''), (Word ''#-1'', [])], remark = None\<rparr>,
      \<lparr>indent = [], items = [(Word ''L'', []), (Colon, []), (Word ''HALT'', '' '')], remark = Some '' not a token''\<rparr>,
      \<lparr>indent = [], items = [], remark = None\<rparr>,
      \<lparr>indent = [], items = [(Word ''.STRINGZ'', '' ''), (Quoted [] ''a b'', []), (Word ''PUTS'', [])], remark = None\<rparr>]"

theorem tokenize_lines_witness:
  "Tokenize (''  ADD R0, #-1'' @ CHR 0x0A # ''L:HALT ; not a token'' @ CHR 0x0A # CHR 0x0A #
       ''.STRINGZ '' @ CHR 0x22 # ''a b'' @ CHR 0x22 # ''PUTS'') =
     Inr [mk_token ''ADD'' 1, mk_token ''R0'' 1, mk_token ''#-1'' 1, mk_token ''L'' 2, mk_token '':'' 2, mk_token ''HALT'' 2,
       mk_token ''.STRINGZ'' 4, mk_token (CHR 0x22 # ''a b'' @ [CHR 0x22]) 4, mk_token ''PUTS'' 4]"
proof -
  have "list_all line_ok sample_lines"
    by (simp add: line_ok_def sample_lines_def plain_def blank_def in_string_def)
  moreover have "source_text sample_lines = ''  ADD R0, #-1'' @ CHR 0x0A # ''L:HALT ; not a token'' @ CHR 0x0A # CHR 0x0A #
       ''.STRINGZ '' @ CHR 0x22 # ''a b'' @ CHR 0x22 # ''PUTS''"
    by (simp add: sample_lines_def line_text_def items_text_def remark_text_def)
  ultimately show ?thesis
    using tokenize_lines [of sample_lines]
    by (simp add: line_tokens_def line_words_def sample_lines_def eval_nat_numeral)
qed

text \<open>A comment that follows a word without a separator does not end the word, which then runs on
  into the next line; a quote at the very end of the source closes itself, and a string broken
  by a newline ends the process.\<close>

theorem tokenize_irregular:
  "Tokenize (''HALT;stop'' @ CHR 0x0A # ''ADD'') = Inr [mk_token ''HALTADD'' 2]
   \<and> Tokenize [CHR 0x22] = Inr [mk_token [CHR 0x22, CHR 0x22] 1]
   \<and> Tokenize [CHR 0x22, CHR ''a'', CHR 0x0A, CHR 0x22] = Inl Exited"
  by (simp add: Tokenize_def flush_buffer_def in_string_def numeral_2_eq_2)

section \<open>Termination of the parser\<close>

definition handled :: "string \<Rightarrow> bool" where
  "handled v \<longleftrightarrow> v \<in> set
     [''AND'', ''ADD'', ''LDR'', ''HALT'', ''PUTS'', ''BR'', ''BRn'', ''BRzp'', ''BRnz'', ''BRp'', ''BRz'',
      ''BRnp'', ''LD'', ''LEA'', ''NOT'', ''ST'']"

definition stuck :: "Token list \<Rightarrow> nat \<Rightarrow> bool" where
  "stuck tokens it \<longleftrightarrow> it < length tokens \<and> tok_type (tokens ! it) = Instruction
     \<and> \<not> handled (tok_value (tokens ! it))"

inductive parse_reaches :: "Token list \<Rightarrow> nat \<Rightarrow> nat \<Rightarrow> bool" for tokens where
  here: "parse_reaches tokens it it"
| turn: "it < length tokens \<Longrightarrow> parse_row tokens it = Inr (row, it') \<Longrightarrow> parse_reaches tokens it' it''
    \<Longrightarrow> parse_reaches tokens it it''"

lemma assign_bounds:
  assumes "it \<le> e"
  shows "it \<le> snd (AssignLabel e (row, it)) \<and> snd (AssignLabel e (row, it)) \<le> e
      \<and> (it < e \<longrightarrow> it < snd (AssignLabel e (row, it)))"
    and "it \<le> snd (AssignOp e (row, it)) \<and> snd (AssignOp e (row, it)) \<le> e
      \<and> (it < e \<longrightarrow> it < snd (AssignOp e (row, it)))"
    and "it \<le> snd (AssignOperand e k (row, it)) \<and> snd (AssignOperand e k (row, it)) \<le> e"
  using assms by (auto simp: AssignLabel_def AssignOp_def AssignOperand_def)

lemma assign_operand_bounds:
  "it \<le> snd p \<Longrightarrow> snd p \<le> e \<Longrightarrow> it \<le> snd (AssignOperand e k p) \<and> snd (AssignOperand e k p) \<le> e"
  using assign_bounds(3) [of "snd p" e k "fst p"] by simp

lemma parse_segment_progress:
  "it < length tokens \<Longrightarrow> it < snd (parse_segment tokens (row, it))
     \<and> snd (parse_segment tokens (row, it)) \<le> length tokens"
  using assign_bounds(1,2) [of it "length tokens" row]
  by (auto simp: parse_segment_def Let_def Suc_le_eq [symmetric] intro!: assign_operand_bounds [THEN conjunct1]
      assign_operand_bounds [THEN conjunct2])

lemma parse_instruction_progress:
  "it < length tokens \<Longrightarrow> handled (tok_value (tokens ! it)) \<Longrightarrow>
     it < snd (parse_instruction tokens (row, it))
     \<and> snd (parse_instruction tokens (row, it)) \<le> length tokens"
  using assign_bounds(2) [of it "length tokens" row]
  by (auto simp: parse_instruction_def handled_def Let_def Suc_le_eq [symmetric]
      intro!: assign_operand_bounds [THEN conjunct1] assign_operand_bounds [THEN conjunct2])

lemma parse_instruction_stuck:
  "\<not> handled (tok_value (tokens ! it)) \<Longrightarrow> parse_instruction tokens (row, it) = (row, it)"
  by (simp add: parse_instruction_def handled_def)

lemma parse_instruction_bounds:
  "it < length tokens \<Longrightarrow> it \<le> snd (parse_instruction tokens (row, it))
     \<and> snd (parse_instruction tokens (row, it)) \<le> length tokens"
  using parse_instruction_progress [of it tokens row] parse_instruction_stuck [of tokens it row]
  by (cases "handled (tok_value (tokens ! it))") auto

lemma parse_row_progress:
  assumes it: "it < length tokens" and row: "parse_row tokens it = Inr (row, it')"
  shows "it' \<le> length tokens \<and> (it < it' \<or> stuck tokens it \<and> it' = it)"
proof (cases "tok_type (tokens ! it)")
  case Segment
  then show ?thesis
    using row parse_segment_progress [OF it, of empty_row] by (auto simp: parse_row_def split: prod.splits)
next
  case Instruction
  then show ?thesis
    using row it parse_instruction_progress [OF it, of empty_row] parse_instruction_stuck [of tokens it empty_row]
    by (cases "handled (tok_value (tokens ! it))")
      (auto simp: parse_row_def stuck_def split: prod.splits)
next
  case Label
  obtain row1 where row1: "AssignLabel (length tokens) (empty_row, it) = (row1, it + 1)"
    using it by (simp add: AssignLabel_def)
  show ?thesis
    using row Label it row1 parse_instruction_bounds [of "it + 1" tokens row1]
      parse_segment_progress [of "it + 1" tokens row1]
    by (auto simp: parse_row_def split: if_splits prod.splits)
qed (use row in \<open>simp_all add: parse_row_def\<close>)

lemma Parse_loop_stuck:
  assumes "stuck tokens it"
  shows "Parse_loop tokens it acc = None"
proof -
  have "\<not> stuck tokens it" if "Parse_loop tokens it acc = Some y" for y
  proof (rule Parse_loop.raw_induct [of "\<lambda>tokens it acc y. \<not> stuck tokens it", OF _ that])
    fix loop tokens it acc y
    assume IH: "\<And>tokens it acc y. loop tokens it acc = Some y \<Longrightarrow> \<not> stuck tokens it"
      and body: "(if it = length tokens then Some (Inr acc)
        else case parse_row tokens it of Inl e \<Rightarrow> Some (Inl e)
          | Inr (row, it) \<Rightarrow> loop tokens it (case row of None \<Rightarrow> acc | Some r \<Rightarrow> acc @ [r])) = Some y"
    show "\<not> stuck tokens it"
    proof
      assume "stuck tokens it"
      moreover from this have "\<exists>row. parse_row tokens it = Inr (row, it)"
        by (auto simp: stuck_def parse_row_def parse_instruction_stuck)
      ultimately show False using body IH by (auto simp: stuck_def)
    qed
  qed
  then show ?thesis using assms by (cases "Parse_loop tokens it acc") auto
qed

lemma Parse_loop_reaches:
  "parse_reaches tokens it it' \<Longrightarrow> stuck tokens it' \<Longrightarrow> Parse_loop tokens it acc = None"
proof (induction arbitrary: acc rule: parse_reaches.induct)
  case (here it)
  then show ?case by (simp add: Parse_loop_stuck)
next
  case (turn it row it' it'')
  then show ?case by (subst Parse_loop.simps) simp
qed

lemma Parse_loop_ends:
  assumes "\<And>it'. parse_reaches tokens it it' \<Longrightarrow> \<not> stuck tokens it'" and "it \<le> length tokens"
  shows "Parse_loop tokens it acc \<noteq> None"
  using assms
proof (induction "length tokens - it" arbitrary: it acc rule: less_induct)
  case less
  show ?case
  proof (cases "it = length tokens")
    case True
    then show ?thesis by (subst Parse_loop.simps) simp
  next
    case False
    then have it: "it < length tokens" using less.prems(2) by simp
    show ?thesis
    proof (cases "parse_row tokens it")
      case (Inl e)
      then show ?thesis using False by (subst Parse_loop.simps) simp
    next
      case (Inr p)
      then obtain row it1 where row: "parse_row tokens it = Inr (row, it1)" by (cases p) auto
      have "\<not> stuck tokens it" using less.prems(1) parse_reaches.here by blast
      then have "it < it1" "it1 \<le> length tokens" using parse_row_progress [OF it row] by auto
      moreover have "\<not> stuck tokens it'" if "parse_reaches tokens it1 it'" for it'
        using less.prems(1) parse_reaches.turn [OF it row that] by blast
      ultimately show ?thesis
        using less.hyps [of it1] it False row by (subst Parse_loop.simps) simp
    qed
  qed
qed

text \<open>C33:
  The parser runs forever exactly when it reaches a token of type instruction that none of
  its branches consumes, as \<open>JMP\<close> and \<open>LDI\<close> are: it then adds empty rows without end. On
  every other program it returns a set of rows or a fault.\<close>

theorem parse_diverges_iff:
  "(Parse tokens = None) = (\<exists>it. parse_reaches tokens 0 it \<and> stuck tokens it)"
proof
  assume "Parse tokens = None"
  then have "Parse_loop tokens 0 [] = None" by (simp add: Parse_def)
  then show "\<exists>it. parse_reaches tokens 0 it \<and> stuck tokens it"
    using Parse_loop_ends [of tokens 0 "[]"] by auto
next
  assume "\<exists>it. parse_reaches tokens 0 it \<and> stuck tokens it"
  then show "Parse tokens = None" using Parse_loop_reaches by (auto simp: Parse_def)
qed

text \<open>A source line with a jump.\<close>

lemma compile_jump_diverges:
  "CompileFile (''JMP R1'' @ [CHR 0x0A]) = None"
proof -
  have tok: "Tokenize (''JMP R1'' @ [CHR 0x0A]) = Inr [mk_token ''JMP'' 1, mk_token ''R1'' 1]"
    by (simp add: Tokenize_def flush_buffer_def)
  have "stuck [mk_token ''JMP'' 1, mk_token ''R1'' 1] 0" by code_simp
  then have "Parse [mk_token ''JMP'' 1, mk_token ''R1'' 1] = None"
    by (simp add: Parse_def Parse_loop_stuck)
  then show ?thesis using tok by (simp add: CompileFile_def)
qed

text \<open>A label on a line of its own and a segment directive the parser does not know both leave a row
  without operation, which the symbol table then dereferences.\<close>

theorem parse_null_rows:
  "Parse [mk_token ''LOOP'' 1, mk_token ''NEXT'' 2, mk_token ''HALT'' 2] = Some (Inl Null_Deref)
   \<and> Parse [mk_token ''SIX'' 1, mk_token ''.FILL'' 1, mk_token ''x0006'' 1] = Some (Inl Null_Deref)"
proof -
  have types: "tok_type (mk_token ''LOOP'' n) = Label" "tok_type (mk_token ''NEXT'' n) = Label"
    "tok_type (mk_token ''HALT'' n) = Instruction" "tok_type (mk_token ''SIX'' n) = Label"
    "tok_type (mk_token ''.FILL'' n) = Segment" "tok_type (mk_token ''x0006'' n) = HexNumber" for n
    by (simp_all add: mk_token_def Classify_def Let_def) code_simp+
  have vals: "tok_value (mk_token v n) = v" for v n
    by (simp add: mk_token_def Classify_def Let_def)
  show ?thesis
    by (simp add: Parse_def Parse_loop.simps parse_row_def types vals AssignLabel_def AssignOp_def
        AssignOperand_def parse_instruction_def parse_segment_def empty_row_def BuildSymtab_def
        BuildSymtab_row_def token_at_def)
qed


end
