(* ===== verification/Tvm_Compile.thy ===== *)
theory Tvm_Compile
  imports Tvm_Proofs
begin

text \<open>
  The assembler end to end: a program of supported statements, in any layout, becomes the words
  of the LC-3 instruction formats, written with the most significant byte first.
\<close>

section \<open>The abstract program\<close>

text \<open>
  Register numbers are below 8; immediates and offsets are given by their signed values. A
  branch names the conditions it tests.
\<close>

datatype alu = Alu_add | Alu_and

datatype mem = Mem_ld | Mem_lea

datatype stmt =
    Orig u16
  | Alu alu nat nat nat
  | Alui alu nat nat int
  | Compl nat nat
  | Mem mem nat int
  | Branch bool bool bool int
  | Puts
  | Halt

definition reg_text :: "nat \<Rightarrow> string" where
  "reg_text r = [CHR ''R'', digit_char r]"

definition imm_text :: "int \<Rightarrow> string" where
  "imm_text n = CHR ''#'' # print_int n"

fun alu_text :: "alu \<Rightarrow> string" where
  "alu_text Alu_add = ''ADD''"
| "alu_text Alu_and = ''AND''"

fun mem_text :: "mem \<Rightarrow> string" where
  "mem_text Mem_ld = ''LD''"
| "mem_text Mem_lea = ''LEA''"

definition branch_text :: "bool \<Rightarrow> bool \<Rightarrow> bool \<Rightarrow> string" where
  "branch_text n z p = ''BR'' @ (if n then ''n'' else []) @ (if z then ''z'' else []) @ (if p then ''p'' else [])"

fun stmt_words :: "stmt \<Rightarrow> string list" where
  "stmt_words (Orig w) = [''.ORIG'', CHR ''x'' # print_nat 16 (unat w)]"
| "stmt_words (Alu a d r s) = [alu_text a, reg_text d, reg_text r, reg_text s]"
| "stmt_words (Alui a d r n) = [alu_text a, reg_text d, reg_text r, imm_text n]"
| "stmt_words (Compl d r) = [''NOT'', reg_text d, reg_text r]"
| "stmt_words (Mem m d n) = [mem_text m, reg_text d, imm_text n]"
| "stmt_words (Branch n z p i) = [branch_text n z p, imm_text i]"
| "stmt_words Puts = [''PUTS'']"
| "stmt_words Halt = [''HALT'']"

fun stmt_ok :: "stmt \<Rightarrow> bool" where
  "stmt_ok (Orig w) \<longleftrightarrow> True"
| "stmt_ok (Alu a d r s) \<longleftrightarrow> d < 8 \<and> r < 8 \<and> s < 8"
| "stmt_ok (Alui a d r n) \<longleftrightarrow> d < 8 \<and> r < 8 \<and> - 16 \<le> n \<and> n < 16"
| "stmt_ok (Compl d r) \<longleftrightarrow> d < 8 \<and> r < 8"
| "stmt_ok (Mem m d n) \<longleftrightarrow> d < 8 \<and> - 256 \<le> n \<and> n < 256"
| "stmt_ok (Branch n z p i) \<longleftrightarrow> \<not> (n \<and> z \<and> p) \<and> - 256 \<le> i \<and> i < 256"
| "stmt_ok Puts \<longleftrightarrow> True"
| "stmt_ok Halt \<longleftrightarrow> True"

fun alu_code :: "alu \<Rightarrow> nat" where
  "alu_code Alu_add = 1"
| "alu_code Alu_and = 5"

fun mem_code :: "mem \<Rightarrow> nat" where
  "mem_code Mem_ld = 2"
| "mem_code Mem_lea = 14"

text \<open>
  The instruction formats: opcode in the top four bits, destination and source registers below,
  immediates in two's complement on 5 and offsets on 9 bits.
\<close>

fun stmt_code :: "stmt \<Rightarrow> nat" where
  "stmt_code (Orig w) = unat w"
| "stmt_code (Alu a d r s) = 4096 * alu_code a + 512 * d + 64 * r + s"
| "stmt_code (Alui a d r n) = 4096 * alu_code a + 512 * d + 64 * r + 32 + nat (n mod 32)"
| "stmt_code (Compl d r) = 4096 * 9 + 512 * d + 64 * r + 63"
| "stmt_code (Mem m d n) = 4096 * mem_code m + 512 * d + nat (n mod 512)"
| "stmt_code (Branch n z p i) =
     2048 * of_bool n + 1024 * of_bool z + 512 * of_bool p + nat (i mod 512)"
| "stmt_code Puts = 4096 * 15 + 0x22"
| "stmt_code Halt = 4096 * 15 + 0x25"

section \<open>Operands\<close>

lemma StringToRegister_reg: "r < 8 \<Longrightarrow> StringToRegister (reg_text r) = Inr (of_nat r)"
proof -
  assume r: "r < 8"
  then have "byte_of (digit_char r) = of_nat (48 + r)"
    by (simp only: byte_of_def) (simp add: digit_char_ascii)
  moreover have "scast (of_nat (48 + r) :: u8) = (of_nat (48 + r) :: u16)"
    using r by (intro scast_small) simp
  ultimately show ?thesis by (simp add: StringToRegister_def reg_text_def)
qed

lemma scan_number_print_int: "scan_number 10 (print_int n) = Some (n < 0, nat \<bar>n\<bar>)"
proof (cases "n < 0")
  case False
  then show ?thesis using scan_number_print_nat [of 10 "nat n"] by (simp add: print_int_def)
next
  case True
  let ?ds = "print_nat 10 (nat (- n))"
  have ds: "\<And>c. c \<in> set ?ds \<Longrightarrow> is_base_digit 10 c" using set_print_nat [of 10] by simp
  have "skip_0x 10 ?ds = ?ds" by (cases "(10 :: nat, ?ds)" rule: skip_0x.cases) auto
  moreover have digits: "takeWhile (is_base_digit 10) ?ds = ?ds" using ds by (rule takeWhile_all)
  moreover have "skip_space (CHR ''-'' # ?ds) = CHR ''-'' # ?ds"
    by (simp add: skip_space_def is_space_def ascii_def)
  ultimately show ?thesis
    using True by (simp add: scan_number_def print_int_def digits del: takeWhile_eq_all_conv)
qed

lemma extract_print_int:
  assumes "- 256 \<le> n" and "n < 256"
  shows "(of_nat (extract_unsigned 16 10 (print_int n)) :: u16) = of_int n"
proof (cases "n < 0")
  case False
  then have "nat n < 65536" using assms by simp
  then show ?thesis using False by (simp add: extract_unsigned_def scan_number_print_int)
next
  case True
  have "nat (- n) \<le> 256" "0 < nat (- n)" using assms True by simp_all
  then have "extract_unsigned 16 10 (print_int n) = 65536 - nat (- n)"
    using True by (simp add: extract_unsigned_def scan_number_print_int)
  moreover have "(of_nat (65536 - nat (- n)) :: u16) = of_int (int (65536 - nat (- n)))"
    by simp
  moreover have "int (65536 - nat (- n)) = 65536 + n" using assms True by simp
  moreover have "(of_int (65536 + n) :: u16) = of_int n" by simp
  ultimately show ?thesis by simp
qed

lemma LitValue_imm:
  assumes "tok_value t = imm_text n" and "- 256 \<le> n" and "n < 256"
  shows "LitValue t = Inr (of_int n)"
  using extract_print_int [OF assms(2,3)] assms(1) by (simp add: LitValue_def substr1_def imm_text_def)

lemma HexToU16_orig: "tok_value t = CHR ''x'' # print_nat 16 (unat w) \<Longrightarrow> HexToU16 t = Inr w"
proof -
  assume "tok_value t = CHR ''x'' # print_nat 16 (unat w)"
  moreover have "unat w < 2 ^ 16" using unsigned_less [of w, where ?'a = nat] by simp
  ultimately show ?thesis
    by (simp add: HexToU16_def substr1_def extract_unsigned_def scan_number_print_nat not_le)
qed

lemma low_bits: "n \<le> 16 \<Longrightarrow> unat (mask n AND (of_int i :: u16)) = nat (i mod 2 ^ n)"
proof -
  assume n: "n \<le> 16"
  have "mask n AND (of_int i :: u16) = take_bit n (of_int i)" by (simp add: take_bit_eq_mask and.commute)
  then have "uint (mask n AND (of_int i :: u16)) = take_bit n (take_bit 16 i)"
    by (simp add: unsigned_take_bit_eq uint_word_of_int_eq)
  also have "\<dots> = take_bit n i" using n by (simp only: take_bit_take_bit min_absorb1)
  also have "\<dots> = i mod 2 ^ n" by (rule take_bit_eq_mod)
  finally show ?thesis by (simp add: unat_eq_nat_uint)
qed

section \<open>Encoding one statement\<close>

text \<open>The tokens spell the words: their values and the types these are classified as.\<close>

definition spells :: "string list \<Rightarrow> Token list \<Rightarrow> bool" where
  "spells ws tokens \<longleftrightarrow> length tokens = length ws
     \<and> (\<forall>i<length ws. tok_value (tokens ! i) = ws ! i \<and> tok_type (tokens ! i) = classify_type (ws ! i))"

definition stmt_row :: "nat \<Rightarrow> stmt \<Rightarrow> InstructionRow" where
  "stmt_row p s = \<lparr>row_label = None, row_op = Some p,
     row_operands = map (\<lambda>k. if k < length (stmt_words s) then Some (p + k) else None) [1, 2, 3]\<rparr>"

lemma spells_at:
  assumes "spells (pre @ ws @ post) tokens" and "k < length ws"
  shows "length pre + k < length tokens" "tok_value (tokens ! (length pre + k)) = ws ! k"
    "tok_type (tokens ! (length pre + k)) = classify_type (ws ! k)"
proof -
  have "(pre @ ws @ post) ! (length pre + k) = ws ! k" using assms(2) by (simp add: nth_append)
  then show "length pre + k < length tokens" "tok_value (tokens ! (length pre + k)) = ws ! k"
    "tok_type (tokens ! (length pre + k)) = classify_type (ws ! k)"
    using assms unfolding spells_def by (metis length_append nat_add_left_cancel_less trans_less_add1)+
qed

lemma reg_not_number: "classify_type (reg_text r) \<noteq> NumberLiteral"
proof -
  have "\<not> kNumberLiteral (reg_text r)"
    by (simp add: kNumberLiteral_def reg_text_def opt_char_def is_digit_def ascii_def)
  then show ?thesis by (simp add: classify_type_def)
qed

lemma digit_char_eq_0: "d < 10 \<Longrightarrow> digit_char d = CHR ''0'' \<longleftrightarrow> d = 0"
proof -
  assume d: "d < 10"
  have "d = 0" if "digit_char d = digit_char 0"
    using arg_cong [OF that, of digit_val] d by (simp only: digit_val_digit_char) simp
  then show ?thesis by (auto simp flip: digit_char_0)
qed

lemma print_nat_number:
  "\<exists>d ds. print_nat 10 n = d # ds \<and> is_digit d \<and> list_all is_digit ds \<and> (d = CHR ''0'' \<longrightarrow> ds = [])"
proof -
  obtain e es where es: "to_digits 10 n = e # es"
    by (cases "to_digits 10 n") (auto simp: to_digits.simps [of 10 n] split: if_splits)
  have lt: "d < 10" if "d \<in> set (e # es)" for d using to_digits_less [of 10 d n] that es by simp
  have dig: "is_digit (digit_char d)" if "d \<in> set (e # es)" for d
    using lt [OF that] by (simp add: is_digit_def digit_char_ascii)
  have "es = []" if "e = 0"
  proof -
    have "n = 0" using first_digit [of 10 n] es that by (cases "n = 0") auto
    then show ?thesis using es by (simp add: to_digits.simps [of 10 0])
  qed
  then show ?thesis
    using dig lt by (auto simp: print_nat_def es list_all_iff digit_char_eq_0)
qed

lemma imm_number: "classify_type (imm_text n) = NumberLiteral"
proof -
  obtain d ds where ds: "print_nat 10 (nat \<bar>n\<bar>) = d # ds" "is_digit d" "list_all is_digit ds"
    "d = CHR ''0'' \<longrightarrow> ds = []" using print_nat_number by blast
  have d: "d \<noteq> CHR ''-''" "d \<noteq> CHR ''#''" using ds(2) by (auto simp: is_digit_def ascii_def)
  have "kNumberLiteral (imm_text n)"
    using ds d by (cases "n < 0") (auto simp: kNumberLiteral_def imm_text_def print_int_def opt_char_def)
  moreover have "\<not> kSegment (imm_text n)" "\<not> kInstruction (imm_text n)" "\<not> kRegister (imm_text n)"
    "\<not> kHexNumber (imm_text n)" "\<not> kLabel (imm_text n)"
    using ds by (cases "n < 0"; simp add: imm_text_def print_int_def kInstruction_def kRegister_def
        is_upper_def ascii_def)+
  ultimately show ?thesis by (simp add: classify_type_def)
qed

lemma plain_types:
  "classify_type ''.ORIG'' = Segment" "classify_type ''NOT'' = Instruction"
  "classify_type ''PUTS'' = Instruction" "classify_type ''HALT'' = Instruction"
  "classify_type ''ADD'' = Instruction" "classify_type ''AND'' = Instruction"
  "classify_type ''LD'' = Instruction" "classify_type ''LEA'' = Instruction"
  by (simp_all add: classify_type_def kInstruction_def is_upper_def ascii_def)

lemma branch_types:
  "classify_type ''BR'' = Instruction" "classify_type ''BRn'' = Instruction"
  "classify_type ''BRz'' = Instruction" "classify_type ''BRp'' = Instruction"
  "classify_type ''BRnp'' = Instruction" "classify_type ''BRnz'' = Instruction"
  "classify_type ''BRzp'' = Instruction"
  by (simp_all add: classify_type_def kInstruction_def is_upper_def ascii_def)

lemmas parse_row_defs = parse_row_def parse_segment_def parse_instruction_def AssignOp_def
  AssignOperand_def empty_row_def stmt_row_def plain_types branch_types

lemma parse_stmt:
  assumes "spells (pre @ stmt_words s @ post) tokens" and "stmt_ok s"
  shows "parse_row tokens (length pre)
    = Inr (Some (stmt_row (length pre) s), length pre + length (stmt_words s))"
proof -
  note at = spells_at [OF assms(1)]
  have no_end: "length pre + k \<noteq> length tokens" if "k < length (stmt_words s)" for k
    using at(1) [OF that] by simp
  note facts = assms(2) at(2,3) [of 0] no_end [of 0] no_end [of 1] no_end [of 2] no_end [of 3]
  show ?thesis
  proof (cases s)
    case (Alu a d r t)
    then show ?thesis using facts by (cases a) (simp_all add: parse_row_defs)
  next
    case (Alui a d r i)
    then show ?thesis using facts by (cases a) (simp_all add: parse_row_defs)
  next
    case (Mem m d i)
    then show ?thesis using facts by (cases m) (simp_all add: parse_row_defs)
  next
    case (Branch n z p i)
    then show ?thesis using facts
      by (cases n; cases z; cases p) (simp_all add: parse_row_defs branch_text_def)
  qed (use facts in \<open>simp_all add: parse_row_defs\<close>)
qed


lemma unat_eqD: "unat (w :: u16) = n \<Longrightarrow> w = of_nat n"
  by auto

lemma fields:
  fixes last :: u16
  assumes "unat opc = 4096 * c" and "d < 8" and "r < 8" and "unat last < 64"
  shows "opc OR AsDR (of_nat d) OR AsSR1 (of_nat r) OR last
    = of_nat (4096 * c + 512 * d + 64 * r + unat last)"
proof -
  have dr: "unat (AsDR (of_nat d)) = 512 * d" and sr: "unat (AsSR1 (of_nat r)) = 64 * r"
    using assms by (simp_all add: AsDR_def AsSR1_def push_bit_eq_mult unat_of_nat unat_word_ariths)
  have 1: "unat (AsSR1 (of_nat r) OR last) = 64 * r + unat last"
    using assms by (subst unat_or_disjoint [of 6]) (simp_all add: sr)
  have 2: "unat (AsDR (of_nat d) OR AsSR1 (of_nat r) OR last) = 512 * d + 64 * r + unat last"
    using assms by (subst unat_or_disjoint [of 9]) (simp_all add: 1 dr)
  have "unat (opc OR AsDR (of_nat d) OR AsSR1 (of_nat r) OR last) = 4096 * c + 512 * d + 64 * r + unat last"
    using assms by (subst unat_or_disjoint [of 12]) (simp_all add: 2)
  then show ?thesis by (rule unat_eqD)
qed

lemma fields_off:
  fixes last :: u16
  assumes "512 dvd unat opc" and "unat last < 512"
  shows "opc OR last = of_nat (unat opc + unat last)"
proof -
  have "unat (opc OR last) = unat opc + unat last"
    using assms by (intro unat_or_disjoint [of 9]) simp_all
  then show ?thesis by (rule unat_eqD)
qed

lemma fields_imm:
  fixes last :: u16
  assumes "unat opc = 4096 * c" and "d < 8" and "unat last < 512"
  shows "opc OR AsDR (of_nat d) OR last = of_nat (4096 * c + 512 * d + unat last)"
proof -
  have dr: "unat (AsDR (of_nat d)) = 512 * d"
    using assms by (simp add: AsDR_def push_bit_eq_mult unat_of_nat unat_word_ariths)
  have 1: "unat (AsDR (of_nat d) OR last) = 512 * d + unat last"
    using assms by (subst unat_or_disjoint [of 9]) (auto simp: dr)
  have "unat (opc OR AsDR (of_nat d) OR last) = 4096 * c + 512 * d + unat last"
    using assms by (subst unat_or_disjoint [of 12]) (simp_all add: 1)
  then show ?thesis by (rule unat_eqD)
qed
lemma low5: "0b11111 AND (of_int i :: u16) = of_nat (nat (i mod 32))"
  and low9: "0b111111111 AND (of_int i :: u16) = of_nat (nat (i mod 512))"
proof -
  have "(0b11111 :: u16) = mask 5" "(0b111111111 :: u16) = mask 9" by (simp_all add: mask_eq_exp_minus_1)
  then show "0b11111 AND (of_int i :: u16) = of_nat (nat (i mod 32))"
    "0b111111111 AND (of_int i :: u16) = of_nat (nat (i mod 512))"
    using unat_eqD [OF low_bits [of 5 i]] unat_eqD [OF low_bits [of 9 i]] by simp_all
qed

lemma unat_low: "unat (of_nat (nat (i mod 32)) :: u16) = nat (i mod 32)"
  "unat (of_nat (nat (i mod 512)) :: u16) = nat (i mod 512)" "nat (i mod 32) < 32" "nat (i mod 512) < 512"
proof -
  show small: "nat (i mod 32) < 32" "nat (i mod 512) < 512" by (simp_all add: nat_less_iff)
  show "unat (of_nat (nat (i mod 32)) :: u16) = nat (i mod 32)"
    "unat (of_nat (nat (i mod 512)) :: u16) = nat (i mod 512)"
    unfolding unat_of_nat by (rule mod_less, rule less_trans, rule small, simp)+
qed


lemma or_32: "unat (v :: u16) < 32 \<Longrightarrow> unat (0b100000 OR v) = 32 + unat v"
  by (subst unat_or_disjoint [of 5]) simp_all

lemma encode_stmt:
  assumes "spells (pre @ stmt_words s @ post) tokens" and "stmt_ok s"
  shows "encode_row tokens (stmt_row (length pre) s) = Inr (Some (of_nat (stmt_code s)))"
proof -
  note at = spells_at [OF assms(1)]
  have here: "length pre < length tokens" using at(1) [of 0] by (cases s) simp_all
  have next_at: "length pre + k < length tokens" if "k < length (stmt_words s)" for k using at(1) [OF that] .
  note defs = encode_row_def stmt_row_def token_at_def operand_def reg_operand_def lit_operand_def
    encode_alu_def encode_load_def encode_branch_def Let_def
  note facts = here next_at [of 1] next_at [of 2] next_at [of 3] at(2) [of 0] at(2) [of 1] at(2) [of 2] at(2) [of 3]
    at(3) [of 3] assms(2)
  show ?thesis
  proof (cases s)
    case (Orig w)
    then show ?thesis using facts HexToU16_orig [of "tokens ! (length pre + 1)" w] by (simp add: defs)
  next
    case (Alu a d r t)
    then show ?thesis
      using facts fields [of "opcode_value (case a of Alu_add \<Rightarrow> kAdd | Alu_and \<Rightarrow> kAnd)" "alu_code a" d r "of_nat t"]
      by (cases a) (simp_all add: defs StringToRegister_reg reg_not_number unat_of_nat)
  next
    case (Compl d r)
    then show ?thesis
      using facts fields [of "opcode_value kNot" 9 d r 63] by (simp add: defs StringToRegister_reg)
  next
    case (Alui a d r i)
    have "unat (0b100000 OR (of_nat (nat (i mod 32)) :: u16)) = 32 + nat (i mod 32)"
      by (subst or_32) (simp_all only: unat_low)
    then show ?thesis
      using Alui facts LitValue_imm [of "tokens ! (length pre + 3)" i]
        fields [of "opcode_value (case a of Alu_add \<Rightarrow> kAdd | Alu_and \<Rightarrow> kAnd)" "alu_code a" d r
          "0b100000 OR of_nat (nat (i mod 32))"] unat_low(3) [of i]
      by (cases a) (simp_all add: defs StringToRegister_reg imm_number low5 add.assoc)
  next
    case (Mem m d i)
    then show ?thesis
      using facts LitValue_imm [of "tokens ! (length pre + 2)" i] unat_low(2,4) [of i]
        fields_imm [of "opcode_value (case m of Mem_ld \<Rightarrow> kLd | Mem_lea \<Rightarrow> kLea)" "mem_code m" d
          "of_nat (nat (i mod 512))"]
      by (cases m) (simp_all add: defs StringToRegister_reg low9)
  next
    case (Branch n z p i)
    then show ?thesis
      using facts LitValue_imm [of "tokens ! (length pre + 1)" i] unat_low(2,4) [of i]
        fields_off [of "opcode_value (if n then if z then kBrnz else if p then kBrnp else kBrn
          else if z then if p then kBrzp else kBrz else if p then kBrp else kBr)" "of_nat (nat (i mod 512))"]
      by (cases n; cases z; cases p) (simp_all add: defs low9 branch_text_def)
  qed (use facts in \<open>simp_all add: defs\<close>)
qed


section \<open>Whole programs\<close>

fun program_rows :: "nat \<Rightarrow> stmt list \<Rightarrow> InstructionRow list" where
  "program_rows p [] = []"
| "program_rows p (s # ss) = stmt_row p s # program_rows (p + length (stmt_words s)) ss"

abbreviation words_of :: "stmt list \<Rightarrow> string list" where
  "words_of prog \<equiv> concat (map stmt_words prog)"

lemma stmt_words_pos: "0 < length (stmt_words s)"
  by (cases s) simp_all

lemma Parse_loop_program:
  "spells (pre @ words_of prog) tokens \<Longrightarrow> list_all stmt_ok prog \<Longrightarrow>
   Parse_loop tokens (length pre) acc = Some (Inr (acc @ program_rows (length pre) prog))"
proof (induction prog arbitrary: pre acc)
  case Nil
  then have "length pre = length tokens" by (simp add: spells_def)
  then show ?case by (subst Parse_loop.simps) simp
next
  case (Cons s prog)
  have sp: "spells (pre @ stmt_words s @ words_of prog) tokens" using Cons.prems(1) by simp
  have "length pre \<noteq> length tokens" using spells_at(1) [OF sp, of 0] stmt_words_pos [of s] by simp
  moreover have "Parse_loop tokens (length (pre @ stmt_words s)) acc'
      = Some (Inr (acc' @ program_rows (length (pre @ stmt_words s)) prog))" for acc'
    using Cons.prems by (intro Cons.IH) simp_all
  ultimately show ?case
    using parse_stmt [OF sp] Cons.prems(2) by (subst Parse_loop.simps) simp
qed

lemma BuildSymtab_stmt:
  assumes "spells (pre @ stmt_words s @ post) tokens"
  shows "\<exists>off'. BuildSymtab_row (stmt_row (length pre) s) (tokens, st, off) = Inr (tokens, st, off')"
proof -
  note at = spells_at [OF assms]
  have here: "length pre < length tokens" using at(1) [of 0] stmt_words_pos [of s] by simp
  show ?thesis
  proof (cases s)
    case (Orig w)
    then show ?thesis
      using here at(1) [of 1] at(2) [of 0] at(2) [of 1] HexToU16_orig [of "tokens ! (length pre + 1)" w]
      by (simp add: BuildSymtab_row_def stmt_row_def token_at_def)
  next
    case (Alu a d r t)
    then show ?thesis using here at(2) [of 0]
      by (cases a) (simp_all add: BuildSymtab_row_def stmt_row_def token_at_def)
  next
    case (Alui a d r i)
    then show ?thesis using here at(2) [of 0]
      by (cases a) (simp_all add: BuildSymtab_row_def stmt_row_def token_at_def)
  next
    case (Mem m d i)
    then show ?thesis using here at(2) [of 0]
      by (cases m) (simp_all add: BuildSymtab_row_def stmt_row_def token_at_def)
  qed (use here at(2) [of 0] in \<open>simp_all add: BuildSymtab_row_def stmt_row_def token_at_def branch_text_def\<close>)
qed

lemma BuildSymtab_program:
  "spells (pre @ words_of prog) tokens \<Longrightarrow>
   \<exists>off'. BuildSymtab_loop (program_rows (length pre) prog) (tokens, st, off) = Inr (tokens, st, off')"
proof (induction prog arbitrary: pre off)
  case (Cons s prog)
  have sp: "spells (pre @ stmt_words s @ words_of prog) tokens" using Cons.prems by simp
  obtain off1 where "BuildSymtab_row (stmt_row (length pre) s) (tokens, st, off) = Inr (tokens, st, off1)"
    using BuildSymtab_stmt [OF sp] by blast
  moreover have "\<exists>off'. BuildSymtab_loop (program_rows (length (pre @ stmt_words s)) prog) (tokens, st, off1)
      = Inr (tokens, st, off')"
    using Cons.prems by (intro Cons.IH) simp
  ultimately show ?case by simp
qed simp

lemma Encode_program:
  "spells (pre @ words_of prog) tokens \<Longrightarrow> list_all stmt_ok prog \<Longrightarrow>
   length img + length prog \<le> kImageSize \<Longrightarrow>
   Encode_loop tokens (program_rows (length pre) prog) img
   = Inr (img @ map (\<lambda>s. of_nat (stmt_code s)) prog)"
proof (induction prog arbitrary: pre img)
  case (Cons s prog)
  have sp: "spells (pre @ stmt_words s @ words_of prog) tokens" using Cons.prems(1) by simp
  have "Encode_loop tokens (program_rows (length (pre @ stmt_words s)) prog) (img @ [of_nat (stmt_code s)])
      = Inr ((img @ [of_nat (stmt_code s)]) @ map (\<lambda>s. of_nat (stmt_code s)) prog)"
    using Cons.prems by (intro Cons.IH) simp_all
  then show ?case using encode_stmt [OF sp] Cons.prems(2,3) by simp
qed simp

lemma spells_line_tokens: "spells (concat (map line_words ls)) (line_tokens n ls)"
proof (induction ls arbitrary: n)
  case Nil
  show ?case by (simp add: spells_def line_tokens_def)
next
  case (Cons l ls)
  have mk: "tok_value (mk_token w n) = w" "tok_type (mk_token w n) = classify_type w" for w
    by (simp_all add: mk_token_def Classify_def Let_def)
  have "line_tokens n (l # ls) = map (\<lambda>w. mk_token w n) (line_words l) @ line_tokens (Suc n) ls"
    by (simp add: line_tokens_def)
  then show ?case
    using Cons [of "Suc n"] by (auto simp: spells_def nth_append mk)
qed

text \<open>The binary of a program: each word with its upper byte first.\<close>

definition binary :: "stmt list \<Rightarrow> bytes" where
  "binary prog = concat (map (\<lambda>s. [of_nat (stmt_code s div 256), of_nat (stmt_code s)]) prog)"

lemma bytes_of_word:
  "n < 65536 \<Longrightarrow> ucast (drop_bit 8 (of_nat n :: u16)) = (of_nat (n div 256) :: u8)
     \<and> ucast (of_nat n :: u16) = (of_nat n :: u8)"
proof -
  assume n: "n < 65536"
  then have t: "take_bit 16 n = n" by (auto intro: take_bit_nat_eq_self)
  have "unat (drop_bit 8 (of_nat n :: u16)) = drop_bit 8 (unat (of_nat n :: u16))"
    by (rule unat_drop_bit_eq)
  also have "\<dots> = n div 256" using n by (simp add: unat_of_nat drop_bit_eq_div)
  finally have "drop_bit 8 (of_nat n :: u16) = of_nat (n div 256)" by (rule unat_eqD)
  moreover have "take_bit 16 (n div 256) = n div 256" using n by (auto intro: take_bit_nat_eq_self)
  ultimately show ?thesis using t by (simp add: unsigned_of_nat)
qed

lemma stmt_code_less: "stmt_ok s \<Longrightarrow> stmt_code s < 65536"
proof (cases s)
  case (Orig w)
  then show ?thesis using unsigned_less [of w, where ?'a = nat] by simp
next
  case (Alu a d r t)
  then show "stmt_ok s \<Longrightarrow> ?thesis" by (cases a) simp_all
next
  case (Alui a d r i)
  then show "stmt_ok s \<Longrightarrow> ?thesis" using unat_low(3) [of i] by (cases a) simp_all
next
  case (Mem m d i)
  then show "stmt_ok s \<Longrightarrow> ?thesis" using unat_low(4) [of i] by (cases m) simp_all
next
  case (Branch n z p i)
  then show "stmt_ok s \<Longrightarrow> ?thesis" using unat_low(4) [of i] by (cases n; cases z; cases p) simp_all
qed simp_all

lemma CompileFile_program:
  assumes "list_all line_ok ls" and "concat (map line_words ls) = concat (map stmt_words prog)"
    and "list_all stmt_ok prog" and "length prog \<le> 65535"
  shows "CompileFile (source_text ls) = Some (Inr (binary prog))"
proof -
  let ?tokens = "line_tokens 1 ls"
  have sp: "spells ([] @ words_of prog) ?tokens" using spells_line_tokens [of ls 1] assms(2) by simp
  have "Tokenize (source_text ls) = Inr ?tokens"
    using tokenize_lines_from [OF assms(1), of 1 "[]"] by (simp add: Tokenize_def)
  moreover have "Parse ?tokens = Some (Inr (?tokens, \<lparr>rows = program_rows 0 prog, symtab = Map.empty\<rparr>))"
    using Parse_loop_program [OF sp assms(3), of "[]"] BuildSymtab_program [OF sp, of Map.empty 0]
    by (auto simp: Parse_def BuildSymtab_def)
  moreover have "Encode_loop ?tokens (program_rows 0 prog) [] = Inr (map (\<lambda>s. of_nat (stmt_code s)) prog)"
    using Encode_program [OF sp assms(3), of "[]"] assms(4) by (simp add: kImageSize_def)
  moreover have "[ucast (drop_bit 8 (of_nat (stmt_code s) :: u16)), ucast (of_nat (stmt_code s) :: u16)]
      = [of_nat (stmt_code s div 256), of_nat (stmt_code s) :: u8]" if "s \<in> set prog" for s
    using bytes_of_word [OF stmt_code_less] that assms(3) by (simp add: list_all_iff)
  ultimately show ?thesis
    by (simp add: CompileFile_def Encode_def binary_def comp_def cong: map_cong)
qed

text \<open>C3:
  A program of supported statements with valid registers and immediates assembles, and the binary is the encoding of
  each statement in its instruction format, upper byte first. The layout is any that separates the words of a line:
  words may end at the newline, and there may be indentation, commas, empty lines and comments behind a blank.\<close>

theorem compile_program:
  assumes "list_all line_ok ls" and "concat (map line_words ls) = concat (map stmt_words prog)"
    and "list_all stmt_ok prog" and "length prog \<le> 65535"
  shows "CompileFile (source_text ls) = Some (Inr (binary prog))"
  using assms by (rule CompileFile_program)

text \<open>The lines of \<^verbatim>\<open>tvm/test/data/ands.asm\<close>.\<close>

definition sample_source :: "source_line list" where
  "sample_source =
     [\<lparr>indent = ''    '', items = [(Word ''.ORIG'', '' ''), (Word ''x3000'', [])], remark = None\<rparr>,
      \<lparr>indent = ''    '', items = [(Word ''AND'', '' ''), (Word ''R1'', '', ''), (Word ''R2'', '', ''), (Word ''R3'', [])], remark = None\<rparr>,
      \<lparr>indent = ''    '', items = [(Word ''AND'', '' ''), (Word ''R3'', '', ''), (Word ''R2'', '', ''), (Word ''R1'', [])], remark = None\<rparr>,
      \<lparr>indent = ''    '', items = [(Word ''AND'', '' ''), (Word ''R1'', '', ''), (Word ''R2'', '', ''), (Word ''#1'', [])], remark = None\<rparr>,
      \<lparr>indent = ''    '', items = [(Word ''HALT'', [])], remark = None\<rparr>,
      \<lparr>indent = [], items = [], remark = None\<rparr>]"

definition sample_program :: "stmt list" where
  "sample_program = [Orig 0x3000, Alu Alu_and 1 2 3, Alu Alu_and 3 2 1, Alui Alu_and 1 2 1, Halt]"

lemma sample_ok:
  "concat (map line_words sample_source) = concat (map stmt_words sample_program)"
  "list_all line_ok sample_source"
  "list_all stmt_ok sample_program"
  "length sample_program \<le> 65535"
  "binary sample_program = [0x30, 0x00, 0x52, 0x83, 0x56, 0x81, 0x52, 0xA1, 0xF0, 0x25]"
proof -
  have digits: "digit_char 0 = CHR ''0''" "digit_char 1 = CHR ''1''" "digit_char 2 = CHR ''2''" "digit_char 3 = CHR ''3''"
    by code_simp+
  then have "print_nat 16 12288 = ''3000''" "print_nat 10 1 = ''1''"
    by (simp_all add: print_nat_def to_digits.simps)
  with digits show "concat (map line_words sample_source) = concat (map stmt_words sample_program)"
    by (simp add: sample_source_def sample_program_def line_words_def reg_text_def imm_text_def print_int_def)
qed (simp_all add: sample_source_def sample_program_def line_ok_def plain_def blank_def binary_def)

text \<open>The text of the file.\<close>

lemma sample_text:
  "source_text sample_source =
     ''    .ORIG x3000'' @ CHR 0x0A # ''    AND R1, R2, R3'' @ CHR 0x0A # ''    AND R3, R2, R1'' @ CHR 0x0A #
     ''    AND R1, R2, #1'' @ CHR 0x0A # ''    HALT'' @ [CHR 0x0A]"
  by (simp add: sample_source_def line_text_def items_text_def remark_text_def)

theorem compile_program_witness:
  "CompileFile (''    .ORIG x3000'' @ CHR 0x0A # ''    AND R1, R2, R3'' @ CHR 0x0A # ''    AND R3, R2, R1'' @ CHR 0x0A #
     ''    AND R1, R2, #1'' @ CHR 0x0A # ''    HALT'' @ [CHR 0x0A]) =
     Some (Inr [0x30, 0x00, 0x52, 0x83, 0x56, 0x81, 0x52, 0xA1, 0xF0, 0x25])"
  unfolding sample_text [symmetric] sample_ok(5) [symmetric] by (rule compile_program [OF sample_ok(2,1,3,4)])

end
