(* ===== verification/Mdm.thy ===== *)
theory Mdm
  imports Prelude
begin

text \<open>
  The markdown tool of \<^verbatim>\<open>mdm/\<close>: the lexer of \<^verbatim>\<open>lexer.cc\<close> with its look-ahead, the tokens
  and their printed form, the marking and writing of \<^verbatim>\<open>parser.cc\<close>, and the loop of
  \<^verbatim>\<open>symbol_table.cc\<close>.
\<close>

section \<open>Tokens\<close>

datatype token_type =
    kUnknown | kID | kWord | kPunct | kSymbol | kNewline | kWhitespace | kCodeDelimiter
  | kHeader1 | kHeader2 | kHeader3

record token =
  type_of :: token_type
  text_of :: string
  line_number :: nat
  column :: nat
  is_first_on_newline :: bool

definition Token :: "string \<Rightarrow> nat \<Rightarrow> nat \<Rightarrow> token" where
  "Token v line col =
     \<lparr>type_of = kUnknown, text_of = v, line_number = line, column = col, is_first_on_newline = False\<rparr>"

definition MatchesStr :: "token \<Rightarrow> string \<Rightarrow> bool" where
  "MatchesStr tok str \<longleftrightarrow> str = text_of tok"

definition token_eq :: "token \<Rightarrow> token \<Rightarrow> bool" where
  "token_eq tok other \<longleftrightarrow> text_of tok = text_of other"

text \<open>\<open>operator<<\<close>: the opening by type, then text, line and column.\<close>

fun token_opening :: "token_type \<Rightarrow> string result" where
  "token_opening kUnknown = Inr ''unknown(''"
| "token_opening kID = Inr ''id(''"
| "token_opening kWord = Inr ''w(''"
| "token_opening kSymbol = Inr ''s(''"
| "token_opening kPunct = Inr ''p(''"
| "token_opening kNewline = Inr ''n(''"
| "token_opening kCodeDelimiter = Inr ''code(''"
| "token_opening kWhitespace = Inl Aborted"
| "token_opening kHeader1 = Inr ''h1(''"
| "token_opening kHeader2 = Inr ''h2(''"
| "token_opening kHeader3 = Inr ''h3(''"

definition print_token :: "token \<Rightarrow> string result" where
  "print_token tok =
     rmap (\<lambda>s. s @ text_of tok @ '':'' @ print_nat 10 (line_number tok)
               @ '':'' @ print_nat 10 (column tok) @ '')''
               @ (if type_of tok = kNewline then [CHR 0x0A] else []))
       (token_opening (type_of tok))"

section \<open>Lexer\<close>

definition kPunct_chars :: string where
  "kPunct_chars = ''{}.,;:'' @ [CHR 0x5C, CHR 0x22] @ ''!?-()[]<>'' @ [CHR 0x60]"

definition kSymbol_chars :: string where
  "kSymbol_chars = ''@#$^&*|'' @ [CHR 0x5C] @ ''/''"

definition kWhitespace_chars :: string where
  "kWhitespace_chars = [CHR '' '', CHR 0x09, CHR 0x0D]"

definition IsPunct :: "char \<Rightarrow> bool" where "IsPunct c \<longleftrightarrow> c \<in> set kPunct_chars"

definition IsSymbol :: "char \<Rightarrow> bool" where "IsSymbol c \<longleftrightarrow> c \<in> set kSymbol_chars"

definition IsNewline :: "char \<Rightarrow> bool" where "IsNewline c \<longleftrightarrow> c = CHR 0x0A"

definition IsWhitespace :: "char \<Rightarrow> bool" where "IsWhitespace c \<longleftrightarrow> c \<in> set kWhitespace_chars"

definition add_token :: "token_type \<Rightarrow> string \<Rightarrow> nat \<Rightarrow> nat \<Rightarrow> token list \<Rightarrow> token list" where
  "add_token ty v line col tokens = tokens @ [(Token v line col)\<lparr>type_of := ty\<rparr>]"

text \<open>The tokens pushed before the character itself is looked at: the word that it ends.\<close>

definition end_word :: "char \<Rightarrow> string \<Rightarrow> nat \<Rightarrow> nat \<Rightarrow> token list \<Rightarrow> string \<times> token list" where
  "end_word c ss line col tokens =
     (if ss \<noteq> [] \<and> (IsSymbol c \<or> IsPunct c \<or> IsWhitespace c \<or> IsNewline c)
      then ([], add_token kWord ss line col tokens) else (ss, tokens))"

text \<open>
  The look-ahead after a backtick: the type and text of the token, and the input that is left. A
  failed read at the end of the input leaves the character as it was, which is a
  backtick; after a second backtick without a third the code returns to the position behind the
  second.
\<close>

definition lex_backtick :: "string \<Rightarrow> token_type \<times> string \<times> string" where
  "lex_backtick s =
     (case s of
        [] \<Rightarrow> (kCodeDelimiter, [CHR 0x60, CHR 0x60, CHR 0x60], [])
      | d # s1 \<Rightarrow>
          if d \<noteq> CHR 0x60 then (kPunct, [CHR 0x60], s)
          else (case s1 of
                  [] \<Rightarrow> (kCodeDelimiter, [CHR 0x60, CHR 0x60, CHR 0x60], [])
                | e # s2 \<Rightarrow>
                    if e \<noteq> CHR 0x60 then (kPunct, [CHR 0x60], s1)
                    else (kCodeDelimiter, [CHR 0x60, CHR 0x60, CHR 0x60], s2)))"

definition lex_hash :: "string \<Rightarrow> token_type \<times> string \<times> string" where
  "lex_hash s =
     (case s of
        [] \<Rightarrow> (kHeader3, ''###'', [])
      | d # s1 \<Rightarrow>
          if d \<noteq> CHR ''#'' then (kHeader1, ''#'', s)
          else (case s1 of
                  [] \<Rightarrow> (kHeader3, ''###'', [])
                | e # s2 \<Rightarrow>
                    if e \<noteq> CHR ''#'' then (kHeader2, ''##'', s1) else (kHeader3, ''###'', s2)))"

lemma lex_backtick_shorter: "lex_backtick s = (ty, v, s') \<Longrightarrow> length s' \<le> length s"
  by (auto simp: lex_backtick_def split: list.splits if_splits)

lemma lex_hash_shorter: "lex_hash s = (ty, v, s') \<Longrightarrow> length s' \<le> length s"
  by (auto simp: lex_hash_def split: list.splits if_splits)

text \<open>The tokens of the text collected when the input ends.\<close>

definition last_token :: "string \<Rightarrow> nat \<Rightarrow> nat \<Rightarrow> token list \<Rightarrow> token list" where
  "last_token maybe_last line col tokens =
     (if maybe_last = [] then tokens
      else
        (let c = hd maybe_last;
             ty = (if IsPunct c then kPunct else if IsSymbol c then kSymbol
                   else if IsNewline c then kNewline else kWord)
         in add_token ty maybe_last line col tokens))"

function Process_loop :: "string \<Rightarrow> string \<Rightarrow> nat \<Rightarrow> nat \<Rightarrow> token list \<Rightarrow> token list" where
  "Process_loop [] ss line col tokens = last_token ss line col tokens"
| "Process_loop (c # s) ss line col tokens =
     (let col = col + 1;
          (ss, tokens) = end_word c ss line col tokens
      in if IsWhitespace c then Process_loop s ss line col tokens
         else if IsNewline c then
           (let line = line + 1
            in Process_loop s [] line col (add_token kNewline [CHR 0x0A] line col tokens))
         else if IsPunct c then
           (if c = CHR 0x60 then
              (case lex_backtick s of (ty, v, s') \<Rightarrow>
                 (if ty = kCodeDelimiter
                  then Process_loop s' ss line col (add_token ty v line col tokens)
                  else Process_loop s' [] line col (add_token ty (ss @ v) line col tokens)))
            else Process_loop s [] line col (add_token kPunct (ss @ [c]) line col tokens))
         else if IsSymbol c then
           (if c = CHR ''#'' then
              (case lex_hash s of (ty, v, s') \<Rightarrow>
                 Process_loop s' ss line col (add_token ty v line col tokens))
            else Process_loop s [] line col (add_token kSymbol (ss @ [c]) line col tokens))
         else Process_loop s (ss @ [c]) line col tokens)"
  by pat_completeness auto
termination
  by (relation "measure (\<lambda>(s, ss, line, col, tokens). length s)")
    (auto dest!: lex_backtick_shorter [OF sym] lex_hash_shorter [OF sym])

definition Process :: "string \<Rightarrow> token list" where
  "Process input = Process_loop input [] 0 0 []"

section \<open>Parser\<close>

text \<open>The loop of \<open>MarkNewlineTokens\<close> over the tokens, with its two flags.\<close>

fun mark_loop :: "bool \<Rightarrow> bool \<Rightarrow> token list \<Rightarrow> token list" where
  "mark_loop found_newline first_token [] = []"
| "mark_loop found_newline first_token (tok # toks) =
     (if first_token then tok\<lparr>is_first_on_newline := True\<rparr> # mark_loop found_newline False toks
      else if type_of tok = kNewline then tok # mark_loop True first_token toks
      else if found_newline then tok\<lparr>is_first_on_newline := True\<rparr> # mark_loop False first_token toks
      else tok # mark_loop found_newline first_token toks)"

definition MarkNewlineTokens :: "token list \<Rightarrow> token list" where
  "MarkNewlineTokens tokens = mark_loop False True tokens"

definition Write :: "token list \<Rightarrow> string" where
  "Write tokens =
     concat (map (\<lambda>e. text_of e @ (if type_of e = kNewline then [] else '' '')) tokens)"

section \<open>Symbol table\<close>

text \<open>The loop never moves its iterator: \<open>None\<close>, not returning, for every non-empty list.\<close>

partial_function (option) FromTokens_loop :: "token list \<Rightarrow> nat \<Rightarrow> unit option" where
  "FromTokens_loop tokens it =
     (if it = length tokens then Some () else FromTokens_loop tokens it)"

definition FromTokens :: "token list \<Rightarrow> unit option" where
  "FromTokens tokens = FromTokens_loop tokens 0"

lemma FromTokens_diverges: "FromTokens tokens = (if tokens = [] then Some () else None)"
proof (cases tokens)
  case Nil
  then show ?thesis by (simp add: FromTokens_def FromTokens_loop.simps)
next
  case (Cons tok toks)
  have "it = length tokens" if "FromTokens_loop tokens it = Some y" for it y
    by (rule FromTokens_loop.raw_induct [of "\<lambda>tokens it y. it = length tokens", OF _ that])
      (auto split: if_splits)
  then show ?thesis using Cons by (cases "FromTokens_loop tokens 0") (auto simp: FromTokens_def)
qed

section \<open>What the lexer produces\<close>

definition word_char :: "char \<Rightarrow> bool" where
  "word_char c \<longleftrightarrow> \<not> IsPunct c \<and> \<not> IsSymbol c \<and> \<not> IsWhitespace c \<and> \<not> IsNewline c"

definition is_word :: "string \<Rightarrow> bool" where
  "is_word v \<longleftrightarrow> v \<noteq> [] \<and> list_all word_char v"

fun well_typed :: "token_type \<Rightarrow> string \<Rightarrow> bool" where
  "well_typed kWord v \<longleftrightarrow> is_word v"
| "well_typed kPunct v \<longleftrightarrow> length v = 1 \<and> IsPunct (hd v)"
| "well_typed kSymbol v \<longleftrightarrow> length v = 1 \<and> IsSymbol (hd v) \<and> \<not> IsPunct (hd v) \<and> hd v \<noteq> CHR ''#''"
| "well_typed kNewline v \<longleftrightarrow> v = [CHR 0x0A]"
| "well_typed kCodeDelimiter v \<longleftrightarrow> v = [CHR 0x60, CHR 0x60, CHR 0x60]"
| "well_typed kHeader1 v \<longleftrightarrow> v = ''#''"
| "well_typed kHeader2 v \<longleftrightarrow> v = ''##''"
| "well_typed kHeader3 v \<longleftrightarrow> v = ''###''"
| "well_typed _ v \<longleftrightarrow> False"

definition lexed :: "token \<Rightarrow> bool" where
  "lexed t \<longleftrightarrow> well_typed (type_of t) (text_of t)"

lemma add_token_lexed [simp]:
  "list_all lexed (add_token ty v line col ts) \<longleftrightarrow> list_all lexed ts \<and> well_typed ty v"
  by (auto simp: add_token_def lexed_def Token_def)

lemma lex_backtick_typed: "lex_backtick s = (ty, v, s') \<Longrightarrow> well_typed ty v \<and> (ty = kCodeDelimiter \<or> ty = kPunct)"
proof -
  have "IsPunct (CHR 0x60)" by code_simp
  then show "lex_backtick s = (ty, v, s') \<Longrightarrow> ?thesis"
    by (auto simp: lex_backtick_def split: list.splits if_splits)
qed

lemma lex_hash_typed: "lex_hash s = (ty, v, s') \<Longrightarrow> well_typed ty v"
  by (auto simp: lex_hash_def split: list.splits if_splits)

lemma end_word_eq:
  "list_all word_char ss \<Longrightarrow> end_word c ss line col ts =
     (if word_char c \<or> ss = [] then (ss, ts) else ([], add_token kWord ss line col ts))"
  by (auto simp: end_word_def word_char_def)

lemma last_token_lexed:
  "list_all word_char ss \<Longrightarrow> list_all lexed ts \<Longrightarrow> list_all lexed (last_token ss line col ts)"
  by (cases ss) (auto simp: last_token_def Let_def word_char_def is_word_def)

text \<open>
  The turn of the loop on a character that is no word character: the token it gives, the
  input left, and the line.
\<close>

definition emit :: "char \<Rightarrow> string \<Rightarrow> nat \<Rightarrow> (token_type \<times> string) option \<times> string \<times> nat" where
  "emit c s line =
     (if IsWhitespace c then (None, s, line)
      else if IsNewline c then (Some (kNewline, [CHR 0x0A]), s, line + 1)
      else if IsPunct c then
        (if c = CHR 0x60 then (case lex_backtick s of (ty, v, s') \<Rightarrow> (Some (ty, v), s', line))
         else (Some (kPunct, [c]), s, line))
      else if c = CHR ''#'' then (case lex_hash s of (ty, v, s') \<Rightarrow> (Some (ty, v), s', line))
      else (Some (kSymbol, [c]), s, line))"

definition flushed :: "string \<Rightarrow> nat \<Rightarrow> nat \<Rightarrow> token list \<Rightarrow> token list" where
  "flushed ss line col ts = (if ss = [] then ts else add_token kWord ss line col ts)"

fun add_opt :: "(token_type \<times> string) option \<Rightarrow> nat \<Rightarrow> nat \<Rightarrow> token list \<Rightarrow> token list" where
  "add_opt None line col ts = ts"
| "add_opt (Some (ty, v)) line col ts = add_token ty v line col ts"

lemma Process_word:
  "word_char c \<Longrightarrow> Process_loop (c # s) ss line col ts = Process_loop s (ss @ [c]) line (col + 1) ts"
  by (simp add: word_char_def end_word_def)

lemma Process_other:
  assumes "\<not> word_char c" and "emit c s line = (tok, s', line')"
  shows "Process_loop (c # s) ss line col ts
    = Process_loop s' [] line' (col + 1) (add_opt tok line' (col + 1) (flushed ss line (col + 1) ts))"
proof -
  have "end_word c ss line (col + 1) ts = ([], flushed ss line (col + 1) ts)"
    using assms(1) by (auto simp: end_word_def word_char_def flushed_def)
  then show ?thesis
    using assms by (auto simp: emit_def word_char_def Let_def split: if_splits prod.splits)
qed

declare Process_loop.simps(2) [simp del]

lemma emit_shorter: "emit c s line = (tok, s', line') \<Longrightarrow> length s' \<le> length s"
  by (auto simp: emit_def split: if_splits prod.splits dest: lex_backtick_shorter lex_hash_shorter)

lemma emit_typed:
  "\<not> word_char c \<Longrightarrow> emit c s line = (tok, s', line') \<Longrightarrow> (case tok of None \<Rightarrow> True | Some (ty, v) \<Rightarrow> well_typed ty v)"
  by (auto simp: emit_def word_char_def split: if_splits prod.splits dest: lex_backtick_typed lex_hash_typed)

lemma Process_loop_lexed:
  "list_all word_char ss \<Longrightarrow> list_all lexed ts \<Longrightarrow> list_all lexed (Process_loop s ss line col ts)"
proof (induction s arbitrary: ss line col ts rule: measure_induct_rule [of length])
  case (less s)
  show ?case
  proof (cases s)
    case Nil
    then show ?thesis using less.prems by (simp add: last_token_lexed)
  next
    case (Cons c r)
    show ?thesis
    proof (cases "word_char c")
      case True
      then show ?thesis using less Cons by (simp add: Process_word)
    next
      case False
      obtain tok s' line' where e: "emit c r line = (tok, s', line')" by (cases "emit c r line")
      then have "length s' < length s" using Cons emit_shorter [OF e] by simp
      moreover have "list_all lexed (add_opt tok line' (col + 1) (flushed ss line (col + 1) ts))"
        using emit_typed [OF False e] less.prems by (cases tok) (auto simp: flushed_def is_word_def)
      ultimately show ?thesis
        using less.IH [of s' "[]"] by (simp add: Cons Process_other [OF False e])
    qed
  qed
qed

lemma Process_lexed: "list_all lexed (Process s)"
  by (simp add: Process_def Process_loop_lexed)

lemma lexed_prints: "lexed t \<Longrightarrow> \<exists>out. print_token t = Inr out"
  by (cases "type_of t") (simp_all add: print_token_def lexed_def)

text \<open>C26: every token of the lexer has a text of its type, which is never one that printing a token aborts on.\<close>

theorem tokens_typed:
  "list_all (\<lambda>t. well_typed (type_of t) (text_of t) \<and> (\<exists>out. print_token t = Inr out)) (Process s)"
  using Process_lexed [of s] lexed_prints by (auto simp: list_all_iff lexed_def)

section \<open>Writing and lexing again\<close>

definition kind :: "token \<Rightarrow> token_type \<times> string" where
  "kind t = (type_of t, text_of t)"

lemma kinds_add [simp]: "map kind (add_token ty v line col ts) = map kind ts @ [(ty, v)]"
  by (simp add: add_token_def kind_def Token_def)

lemma relex_word:
  "list_all word_char v \<Longrightarrow> Process_loop (v @ s) ss line col ts = Process_loop s (ss @ v) line (col + length v) ts"
proof (induction v arbitrary: ss col)
  case (Cons c v)
  then show ?case by (simp add: Process_word)
qed simp

text \<open>One token, as it is written, lexed at the start of a token.\<close>

definition written :: "token \<Rightarrow> string" where
  "written e = text_of e @ (if type_of e = kNewline then [] else '' '')"

lemma relex_token:
  assumes "lexed e"
  shows "\<exists>line' col' t. Process_loop (written e @ s) [] line col ts = Process_loop s [] line' col' (ts @ [t])
    \<and> kind t = kind e"
proof -
  have sp: "IsWhitespace (CHR '' '')" "\<not> IsPunct (CHR '' '')" "\<not> IsSymbol (CHR '' '')" "\<not> IsNewline (CHR '' '')"
    and nl: "\<not> IsWhitespace (CHR 0x0A)" "IsNewline (CHR 0x0A)"
    and bt: "IsPunct (CHR 0x60)" "\<not> IsWhitespace (CHR 0x60)" "\<not> IsNewline (CHR 0x60)"
    and hs: "IsSymbol (CHR ''#'')" "\<not> IsPunct (CHR ''#'')" "\<not> IsWhitespace (CHR ''#'')" "\<not> IsNewline (CHR ''#'')"
    by code_simp+
  have punct: "\<not> IsWhitespace c \<and> \<not> IsNewline c" if "IsPunct c \<or> IsSymbol c" for c
    using that unfolding IsPunct_def IsSymbol_def IsWhitespace_def IsNewline_def kPunct_chars_def kSymbol_chars_def
      kWhitespace_chars_def by auto

  have step: ?thesis if "Process_loop (written e @ s) [] line col ts
      = Process_loop s [] l k (add_token (type_of e) (text_of e) l' k' ts)" for l k l' k'
    using that by (intro exI [of _ l] exI [of _ k] exI [of _ "(Token (text_of e) l' k')\<lparr>type_of := type_of e\<rparr>"])
      (simp add: add_token_def kind_def Token_def)
  obtain c v where tv: "type_of e = kWord \<or> type_of e = kPunct \<or> type_of e = kSymbol \<Longrightarrow> text_of e = c # v"
    using assms by (cases "text_of e"; cases "type_of e") (auto simp: lexed_def is_word_def)
  have other: "\<not> word_char (CHR '' '')" "\<not> word_char (CHR 0x0A)" "\<not> word_char (CHR 0x60)" "\<not> word_char (CHR ''#'')"
    using sp nl bt hs by (simp_all add: word_char_def)
  note loop = Process_other [OF other(1)] Process_other [OF other(2)] Process_other [OF other(3)]
    Process_other [OF other(4)] emit_def flushed_def
  show ?thesis
  proof (cases "type_of e")
    case kWord
    then have "is_word (text_of e)" using assms by (simp add: lexed_def)
    then show ?thesis
      using kWord relex_word [of "text_of e" "CHR '' '' # s" "[]" line col ts]
      by (intro step) (simp add: written_def is_word_def sp loop)
  next
    case kPunct
    then have c: "text_of e = [c]" "IsPunct c" using assms tv by (auto simp: lexed_def)
    show ?thesis
    proof (cases "c = CHR 0x60")
      case True
      then show ?thesis
        using kPunct c by (intro step) (simp add: written_def bt sp lex_backtick_def loop)
    next
      case False
      then show ?thesis
        using kPunct c punct [of c]
        by (intro step) (simp add: written_def sp loop Process_other [of c] word_char_def)
    qed
  next
    case kSymbol
    then have "text_of e = [c]" "IsSymbol c" "\<not> IsPunct c" "c \<noteq> CHR ''#''" using assms tv by (auto simp: lexed_def)
    then show ?thesis
      using kSymbol punct [of c]
      by (intro step) (simp add: written_def sp loop Process_other [of c] word_char_def)
  next
    case kNewline
    then show ?thesis using assms by (intro step) (simp add: written_def lexed_def nl loop)
  next
    case kCodeDelimiter
    then show ?thesis using assms
      by (intro step) (simp add: written_def lexed_def bt sp lex_backtick_def loop)
  next
    case kHeader1
    then show ?thesis using assms
      by (intro step) (simp add: written_def lexed_def hs sp lex_hash_def loop)
  next
    case kHeader2
    then show ?thesis using assms
      by (intro step) (simp add: written_def lexed_def hs sp lex_hash_def loop)
  next
    case kHeader3
    then show ?thesis using assms
      by (intro step) (simp add: written_def lexed_def hs sp lex_hash_def loop)
  qed (use assms in \<open>simp_all add: lexed_def\<close>)
qed

lemma relex_tokens:
  "list_all lexed es \<Longrightarrow> map kind (Process_loop (Write es) [] line col ts) = map kind ts @ map kind es"
proof (induction es arbitrary: line col ts)
  case Nil
  then show ?case by (simp add: Write_def last_token_def)
next
  case (Cons e es)
  obtain line' col' t where "Process_loop (written e @ Write es) [] line col ts
      = Process_loop (Write es) [] line' col' (ts @ [t])" "kind t = kind e"
    using relex_token [of e] Cons.prems by fastforce
  then show ?case using Cons by (simp add: Write_def written_def)
qed

text \<open>C12:
  Writing what was lexed and lexing it again gives the same tokens, type by type and text by text, for
  every input: the writer's blanks never merge or split tokens.\<close>

theorem lex_write_lex:
  "map (\<lambda>t. (type_of t, text_of t)) (Process (Write (Process s)))
   = map (\<lambda>t. (type_of t, text_of t)) (Process s)"
  using relex_tokens [OF Process_lexed, of s 0 0 "[]"] unfolding kind_def Process_def by simp

section \<open>Nothing lost\<close>

text \<open>
  Inputs on which the look-ahead keeps every character: no run of backticks other than three in a row
  or a single one before another character, and no hash or backtick run cut off by the end of the input.
\<close>

function marks_ok :: "string \<Rightarrow> bool" where
  "marks_ok [] \<longleftrightarrow> True"
| "marks_ok (c # s) \<longleftrightarrow>
     (if c = CHR 0x60 then
        (case s of
           [] \<Rightarrow> False
         | d # s1 \<Rightarrow> if d \<noteq> CHR 0x60 then marks_ok s
             else (case s1 of [] \<Rightarrow> False | e # s2 \<Rightarrow> e = CHR 0x60 \<and> marks_ok s2))
      else if c = CHR ''#'' then
        (case s of
           [] \<Rightarrow> False
         | d # s1 \<Rightarrow> if d \<noteq> CHR ''#'' then marks_ok s
             else (case s1 of [] \<Rightarrow> False
                   | e # s2 \<Rightarrow> if e \<noteq> CHR ''#'' then marks_ok s1 else marks_ok s2))
      else marks_ok s)"
  by pat_completeness auto
termination
  by (relation "measure length") auto

declare marks_ok.simps(2) [simp del]

definition texts :: "token list \<Rightarrow> string" where
  "texts ts = concat (map text_of ts)"

lemma texts_add [simp]: "texts (add_token ty v line col ts) = texts ts @ v"
  by (simp add: texts_def add_token_def Token_def)

lemma backtick_kept:
  "marks_ok (CHR 0x60 # s) \<Longrightarrow> lex_backtick s = (ty, v, s') \<Longrightarrow> CHR 0x60 # s = v @ s' \<and> marks_ok s'"
  unfolding marks_ok.simps(2) by (auto simp: lex_backtick_def split: list.splits if_splits)

lemma hash_kept:
  "marks_ok (CHR ''#'' # s) \<Longrightarrow> lex_hash s = (ty, v, s') \<Longrightarrow> CHR ''#'' # s = v @ s' \<and> marks_ok s'"
  unfolding marks_ok.simps(2) by (auto simp: lex_hash_def split: list.splits if_splits)

lemma marks_ok_other: "c \<noteq> CHR 0x60 \<Longrightarrow> c \<noteq> CHR ''#'' \<Longrightarrow> marks_ok (c # s) \<longleftrightarrow> marks_ok s"
  by (simp add: marks_ok.simps(2))
abbreviation ink :: "string \<Rightarrow> string" where
  "ink s \<equiv> filter (\<lambda>c. \<not> IsWhitespace c) s"

lemma last_token_texts: "texts (last_token ss line col ts) = texts ts @ ss"
  by (simp add: last_token_def Let_def)

lemma typed_ink: "well_typed ty v \<Longrightarrow> ink v = v"
proof -
  have "\<not> IsWhitespace (CHR 0x60)" "\<not> IsWhitespace (CHR ''#'')" "\<not> IsWhitespace (CHR 0x0A)" by code_simp+
  moreover have "\<not> IsWhitespace c" if "IsPunct c \<or> IsSymbol c" for c
    using that unfolding IsPunct_def IsSymbol_def IsWhitespace_def kPunct_chars_def kSymbol_chars_def
      kWhitespace_chars_def by auto
  ultimately show "well_typed ty v \<Longrightarrow> ?thesis"
    by (cases ty) (auto simp: is_word_def list_all_iff word_char_def length_Suc_conv intro!: filter_True)
qed

lemma emit_texts:
  assumes "\<not> word_char c" and "emit c s line = (tok, s', line')" and "marks_ok (c # s)"
  shows "ink (c # s) = (case tok of None \<Rightarrow> [] | Some (ty, v) \<Rightarrow> v) @ ink s' \<and> marks_ok s'"
proof (cases tok)
  case None
  then have "IsWhitespace c" "s' = s" using assms(2) by (auto simp: emit_def split: if_splits prod.splits)
  moreover from this have "c \<noteq> CHR 0x60" "c \<noteq> CHR ''#''" by (auto simp: IsWhitespace_def kWhitespace_chars_def)
  ultimately show ?thesis using assms(3) None by (simp add: marks_ok_other)
next
  case (Some p)
  then obtain ty v where tok: "tok = Some (ty, v)" by (cases p) auto
  have "IsPunct (CHR 0x60)" "\<not> IsPunct (CHR ''#'')" by code_simp+
  then have other: "IsPunct c \<and> c \<noteq> CHR 0x60 \<Longrightarrow> marks_ok (c # r) \<longleftrightarrow> marks_ok r"
    "\<not> IsPunct c \<and> c \<noteq> CHR ''#'' \<Longrightarrow> marks_ok (c # r) \<longleftrightarrow> marks_ok r" for r
    using marks_ok_other [of c r] by auto
  have "c # s = v @ s' \<and> marks_ok s'"
    using assms(2,3) tok backtick_kept [of s ty v s'] hash_kept [of s ty v s'] other
    by (auto simp: emit_def marks_ok_other IsNewline_def split: if_splits prod.splits)
  then show ?thesis
    using typed_ink [of ty v] emit_typed [OF assms(1,2)] tok
    by (metis (no_types, lifting) case_prod_conv filter_append option.simps(5))
qed

lemma Process_loop_texts:
  "marks_ok s \<Longrightarrow> list_all word_char ss \<Longrightarrow> texts (Process_loop s ss line col ts) = texts ts @ ss @ ink s"
proof (induction s arbitrary: ss line col ts rule: measure_induct_rule [of length])
  case (less s)
  show ?case
  proof (cases s)
    case Nil
    then show ?thesis by (simp add: last_token_texts)
  next
    case (Cons c r)
    show ?thesis
    proof (cases "word_char c")
      case True
      moreover have "c \<noteq> CHR 0x60 \<and> c \<noteq> CHR ''#''"
        using True by (auto simp: word_char_def IsPunct_def IsSymbol_def kPunct_chars_def kSymbol_chars_def)
      ultimately show ?thesis
        using less Cons by (simp add: Process_word marks_ok_other word_char_def)
    next
      case False
      obtain tok s' line' where e: "emit c r line = (tok, s', line')" by (cases "emit c r line")
      have "length s' < length s" using Cons emit_shorter [OF e] by simp
      moreover have "texts (add_opt tok line' (col + 1) (flushed ss line (col + 1) ts))
          = texts ts @ ss @ (case tok of None \<Rightarrow> [] | Some (ty, v) \<Rightarrow> v)"
        by (cases tok) (auto simp: flushed_def)
      ultimately show ?thesis
        using less.IH [of s' "[]"] emit_texts [OF False e] less.prems(1)
        by (simp add: Cons Process_other [OF False e])
    qed
  qed
qed

text \<open>C36:
  On an input whose backticks come alone or in threes and which does not end in a backtick or a
  hash, the lexer loses and adds nothing: the texts of its tokens are the input without its blanks.\<close>

theorem lexer_lossless:
  "marks_ok s \<Longrightarrow> concat (map text_of (Process s)) = filter (\<lambda>c. \<not> IsWhitespace c) s"
  using Process_loop_texts [of s "[]" 0 0 "[]"] by (simp add: texts_def Process_def)

theorem lexer_lossless_witness:
  "concat (map text_of (Process ''## A b: #c'')) = ''##Ab:#c''"
proof -
  have "marks_ok ''## A b: #c''" "filter (\<lambda>c. \<not> IsWhitespace c) ''## A b: #c'' = ''##Ab:#c''" by code_simp+
  then show ?thesis using lexer_lossless [of "''## A b: #c''"] by simp
qed

text \<open>At the end of the input a failed look-ahead counts as one more matching character: a final hash
  becomes a third-level header and a final backtick a code delimiter; and of two backticks before
  another character one is dropped.\<close>

theorem lexer_lookahead:
  "map (\<lambda>t. (type_of t, text_of t)) (Process ''#'') = [(kHeader3, ''###'')]
   \<and> map (\<lambda>t. (type_of t, text_of t)) (Process [CHR 0x60])
       = [(kCodeDelimiter, [CHR 0x60, CHR 0x60, CHR 0x60])]
   \<and> map text_of (Process [CHR 0x60, CHR 0x60, CHR ''x'']) = [[CHR 0x60], ''x'']"
  by code_simp

section \<open>First tokens of lines\<close>

lemma mark_loop_spec:
  "mark_loop found False ts = map (\<lambda>i.
     if type_of (ts ! i) \<noteq> kNewline \<and> (if i = 0 then found else type_of (ts ! (i - 1)) = kNewline)
     then (ts ! i)\<lparr>is_first_on_newline := True\<rparr> else ts ! i) [0..<length ts]"
  (is "_ = map (?mark found ts) _")
proof (induction ts arbitrary: found)
  case (Cons tok ts)
  have "map (?mark found (tok # ts)) [0..<length (tok # ts)]
      = ?mark found (tok # ts) 0 # map (\<lambda>i. ?mark found (tok # ts) (Suc i)) [0..<length ts]"
    by (simp add: upt_conv_Cons map_Suc_upt [symmetric] del: upt_Suc map_Suc_upt)
  moreover have "map (\<lambda>i. ?mark found (tok # ts) (Suc i)) [0..<length ts]
      = map (?mark (type_of tok = kNewline) ts) [0..<length ts]"
    by (auto simp: nth_Cons split: nat.splits)
  moreover have "mark_loop found False (tok # ts) = ?mark found (tok # ts) 0 # mark_loop (type_of tok = kNewline) False ts"
    by simp
  ultimately show ?case using Cons by simp
qed simp

text \<open>Marking sets the flag of exactly the first token of the list and of every other token that is no newline
  and directly follows a newline token other than the first token of the list; nothing else of any
  token changes.\<close>

theorem mark_newline_spec:
  "MarkNewlineTokens ts = map (\<lambda>i.
     if i = 0 \<or> (type_of (ts ! i) \<noteq> kNewline \<and> i \<noteq> 1 \<and> type_of (ts ! (i - 1)) = kNewline)
     then (ts ! i)\<lparr>is_first_on_newline := True\<rparr> else ts ! i) [0..<length ts]"
proof (cases ts)
  case (Cons tok toks)
  have "map f [0..<length (tok # toks)] = f 0 # map (\<lambda>i. f (Suc i)) [0..<length toks]" for f :: "nat \<Rightarrow> token"
    by (simp add: upt_conv_Cons map_Suc_upt [symmetric] del: upt_Suc map_Suc_upt)
  then show ?thesis
    unfolding Cons MarkNewlineTokens_def mark_loop.simps mark_loop_spec
    by (simp only: if_True list.inject) (auto simp: nth_Cons' intro!: map_cong)
qed (simp add: MarkNewlineTokens_def)

end
