(* ===== verification/Gamejam.thy ===== *)
theory Gamejam
  imports Prelude
begin

text \<open>
  The game utilities of \<^verbatim>\<open>gamejam/\<close>: collision of rectangles, the parsers of \<^verbatim>\<open>utils.cc\<close>,
  the level format of \<^verbatim>\<open>level_builder.cc\<close> and levels. An input stream is the text still to read.
\<close>

section \<open>Rectangles\<close>

text \<open>\<open>Dim\<close> is a signed 64-bit integer: a sum out of range is undefined.\<close>

definition add_dim :: "int \<Rightarrow> int \<Rightarrow> int result" where
  "add_dim a b = (if - (2 ^ 63) \<le> a + b \<and> a + b < 2 ^ 63 then Inr (a + b) else Inl Overflow)"

record Colshape =
  col_x :: int
  col_y :: int
  col_w :: int
  col_h :: int

definition X :: "Colshape \<Rightarrow> int" where "X c = col_x c"

definition Y :: "Colshape \<Rightarrow> int" where "Y c = col_y c"

definition W :: "Colshape \<Rightarrow> int result" where "W c = add_dim (col_x c) (col_w c)"

definition H :: "Colshape \<Rightarrow> int result" where "H c = add_dim (col_y c) (col_h c)"

definition CollidesWith :: "Colshape \<Rightarrow> Colshape \<Rightarrow> bool result" where
  "CollidesWith this other =
     rbind (W this) (\<lambda>t_w. rbind (H this) (\<lambda>t_h. rbind (W other) (\<lambda>o_w. rbind (H other) (\<lambda>o_h.
       let t_x = X this; t_y = Y this; o_x = X other; o_y = Y other in
       if t_x > o_w \<or> o_x > t_w then Inr False
       else if t_y > o_h \<or> o_y > t_h then Inr False
       else Inr True))))"

definition print_colshape :: "Colshape \<Rightarrow> string result" where
  "print_colshape obj =
     rbind (W obj) (\<lambda>w. rmap (\<lambda>h.
       ''x:'' @ print_int (X obj) @ '' y:'' @ print_int (Y obj)
       @ '' w:'' @ print_int w @ '' h:'' @ print_int h) (H obj))"

section \<open>Stream parsers\<close>

text \<open>
  \<open>char c = is.get ()\<close>: at the end of the stream \<open>EOF\<close>, which is \<open>-1\<close>, becomes the character 0xFF.
\<close>

fun get_char :: "string \<Rightarrow> char \<times> string" where
  "get_char [] = (CHR 0xFF, [])"
| "get_char (c # s) = (c, s)"

text \<open>The loop of \<open>ParseInt\<close>: the characters collected and the input left.\<close>

fun int_chars :: "string \<Rightarrow> string \<times> string" where
  "int_chars [] = ([], [])"
| "int_chars (c # s) =
     (if c = CHR '':'' then ([], c # s)
      else if c = CHR 0x0A \<or> c = CHR 0xFF then ([], s)
      else (let (buff, s') = int_chars s in (c # buff, s')))"

definition ParseInt :: "string \<Rightarrow> u64 option \<times> string" where
  "ParseInt mis =
     (let (c, mis) = get_char mis in
      if c \<noteq> CHR '':'' then (None, mis)
      else if mis = [] \<or> hd mis = CHR 0x0A then (None, mis)
      else (let (buff, mis) = int_chars mis
            in (Some (of_nat (extract_unsigned 64 10 buff)), mis)))"

fun str_chars :: "string \<Rightarrow> string \<times> string" where
  "str_chars [] = ([], [])"
| "str_chars (c # s) =
     (if c = CHR 0x0A \<or> c = CHR 0xFF then ([], s)
      else (let (buff, s') = str_chars s in (c # buff, s')))"

definition ParseStr :: "string \<Rightarrow> string option \<times> string" where
  "ParseStr mis =
     (let (c, mis) = get_char mis in
      if c \<noteq> CHR '':'' then (None, mis)
      else if mis = [] \<or> hd mis = CHR 0x0A then (None, mis)
      else (let (buff, mis) = str_chars mis in (Some buff, mis)))"

section \<open>Levels\<close>

record Tile =
  tile_index :: nat

record Level =
  level_tiles :: "Tile list"
  level_width :: u64
  level_height :: u64
  level_path :: string

definition At :: "Level \<Rightarrow> u64 \<Rightarrow> u64 \<Rightarrow> Tile result" where
  "At l x y = read_at (level_tiles l) (unat (level_width l * y + x))"

datatype ParseStatus = kUnknown_status | kSuccess | kError

record LevelBuilder =
  width :: u64
  height :: u64
  path_to_tileset :: string
  tileset_width :: u64
  tileset_height :: u64
  tiles :: "Tile list"

lemma get_char_shorter: "snd (get_char s) = s' \<Longrightarrow> length s' \<le> length s"
  by (cases s) auto

lemma int_chars_shorter: "length (snd (int_chars s)) \<le> length s"
  by (induction s) (auto simp: Let_def case_prod_unfold)

lemma str_chars_shorter: "length (snd (str_chars s)) \<le> length s"
  by (induction s) (auto simp: Let_def case_prod_unfold)

lemma ParseInt_shorter: "ParseInt s = (r, s') \<Longrightarrow> length s' \<le> length s"
  using get_char_shorter [of s "snd (get_char s)"] int_chars_shorter [of "snd (get_char s)"]
  by (auto simp: ParseInt_def Let_def case_prod_unfold split: if_splits)

lemma ParseStr_shorter: "ParseStr s = (r, s') \<Longrightarrow> length s' \<le> length s"
  using get_char_shorter [of s "snd (get_char s)"] str_chars_shorter [of "snd (get_char s)"]
  by (auto simp: ParseStr_def Let_def case_prod_unfold split: if_splits)

text \<open>The three fields after a \<open>t\<close>, each only read when the one before was.\<close>

definition ParseTileset :: "string \<Rightarrow> LevelBuilder \<Rightarrow> bool \<times> LevelBuilder \<times> string" where
  "ParseTileset s b =
     (case ParseInt s of
        (None, s) \<Rightarrow> (False, b, s)
      | (Some x, s) \<Rightarrow>
          (let b = b\<lparr>tileset_width := x\<rparr> in
           case ParseInt s of
             (None, s) \<Rightarrow> (False, b, s)
           | (Some y, s) \<Rightarrow>
               (let b = b\<lparr>tileset_height := y\<rparr> in
                case ParseStr s of
                  (None, s) \<Rightarrow> (False, b, s)
                | (Some p, s) \<Rightarrow> (True, b\<lparr>path_to_tileset := p\<rparr>, s))))"

lemma ParseTileset_shorter: "ParseTileset s b = (r, b', s') \<Longrightarrow> length s' \<le> length s"
  by (auto simp: ParseTileset_def Let_def split: prod.splits option.splits
      dest!: ParseInt_shorter ParseStr_shorter)

function ParseMetadata :: "string \<Rightarrow> LevelBuilder \<Rightarrow> ParseStatus \<times> LevelBuilder \<times> string" where
  "ParseMetadata [] b = (kError, b, [])"
| "ParseMetadata (c # s) b =
     (if c = CHR ''x'' then
        (case ParseInt s of
           (None, s') \<Rightarrow> (kError, b, s')
         | (Some x, s') \<Rightarrow> ParseMetadata s' (b\<lparr>width := x\<rparr>))
      else if c = CHR ''y'' then
        (case ParseInt s of
           (None, s') \<Rightarrow> (kError, b, s')
         | (Some y, s') \<Rightarrow> ParseMetadata s' (b\<lparr>height := y\<rparr>))
      else if c = CHR ''t'' then
        (case ParseTileset s b of
           (False, b', s') \<Rightarrow> (kError, b', s')
         | (True, b', s') \<Rightarrow> ParseMetadata s' b')
      else if c = CHR 0x0A then (kSuccess, b, s)
      else (kError, b, s))"
  by pat_completeness auto
termination
  by (relation "measure (\<lambda>(s, b). length s)")
    (auto dest!: ParseInt_shorter [OF sym] ParseTileset_shorter [OF sym])

declare ParseMetadata.simps(2) [simp del]

text \<open>The search for two newlines in a row, stopped by a zero character as by the end.\<close>

fun find_tiles :: "char \<Rightarrow> string \<Rightarrow> string option" where
  "find_tiles prev [] = None"
| "find_tiles prev (c # s) =
     (if c = CHR 0x00 \<or> c = CHR 0xFF then None
      else if prev = CHR 0x0A \<and> c = CHR 0x0A then Some s
      else find_tiles c s)"

fun parse_tile_chars :: "string \<Rightarrow> Tile list \<Rightarrow> ParseStatus \<times> Tile list" where
  "parse_tile_chars [] ts = (kSuccess, ts)"
| "parse_tile_chars (c # s) ts =
     (if c = CHR 0x00 \<or> c = CHR 0xFF then (kSuccess, ts)
      else if c = CHR '' '' then parse_tile_chars s (ts @ [\<lparr>tile_index = 0\<rparr>])
      else if c = CHR ''#'' then parse_tile_chars s (ts @ [\<lparr>tile_index = 1\<rparr>])
      else if c = CHR ''.'' then parse_tile_chars s (ts @ [\<lparr>tile_index = 2\<rparr>])
      else if c = CHR 0x0A then parse_tile_chars s ts
      else (kError, []))"

text \<open>
  \<open>reserve\<close> throws for more elements than a vector of four-byte tiles may hold; that the memory
  is there is assumed.
\<close>

definition max_tiles :: nat where "max_tiles = 2 ^ 61 - 1"

definition ParseTiles :: "string \<Rightarrow> LevelBuilder \<Rightarrow> (ParseStatus \<times> LevelBuilder) result" where
  "ParseTiles s b =
     (case find_tiles (CHR 0x00) s of
        None \<Rightarrow> Inr (kError, b)
      | Some s \<Rightarrow>
          (let reserved_size = tileset_height b * tileset_width b in
           if unat reserved_size > max_tiles then Inl (Thrown ''length_error'')
           else (let (st, ts) = parse_tile_chars s (tiles b) in Inr (st, b\<lparr>tiles := ts\<rparr>))))"

definition FromText :: "string \<Rightarrow> LevelBuilder \<Rightarrow> (Level option \<times> LevelBuilder) result" where
  "FromText s b =
     (let (st, b, s) = ParseMetadata s b in
      if st \<noteq> kSuccess then Inr (None, b)
      else
        rmap (\<lambda>(st, b).
          if st \<noteq> kSuccess then (None, b)
          else (Some \<lparr>level_tiles = tiles b, level_width = width b, level_height = height b,
                     level_path = path_to_tileset b\<rparr>, b\<lparr>tiles := []\<rparr>))
          (ParseTiles s b))"

section \<open>Collision\<close>

definition inside :: "int \<times> int \<Rightarrow> Colshape \<Rightarrow> bool" where
  "inside p c \<longleftrightarrow> col_x c \<le> fst p \<and> fst p \<le> col_x c + col_w c \<and> col_y c \<le> snd p \<and> snd p \<le> col_y c + col_h c"

definition shape_ok :: "Colshape \<Rightarrow> bool" where
  "shape_ok c \<longleftrightarrow> - (2 ^ 63) \<le> col_x c \<and> - (2 ^ 63) \<le> col_y c \<and> 0 \<le> col_w c \<and> 0 \<le> col_h c
     \<and> col_x c + col_w c < 2 ^ 63 \<and> col_y c + col_h c < 2 ^ 63"

text \<open>Two rectangles of non-negative size whose far corners are representable collide exactly when they
  share a point, borders included, and it does not matter which of the two is asked.\<close>

theorem collision_is_intersection:
  assumes "shape_ok a" and "shape_ok b"
  shows "CollidesWith a b = Inr (\<exists>p. inside p a \<and> inside p b) \<and> CollidesWith b a = CollidesWith a b"
proof -
  let ?meet = "\<lambda>a b. \<not> (col_x a > col_x b + col_w b \<or> col_x b > col_x a + col_w a)
    \<and> \<not> (col_y a > col_y b + col_h b \<or> col_y b > col_y a + col_h a)"
  have eq: "CollidesWith c d = Inr (?meet c d)" if "shape_ok c" "shape_ok d" for c d
    using that by (auto simp: CollidesWith_def W_def H_def X_def Y_def add_dim_def shape_ok_def)
  have "?meet a b \<longleftrightarrow> (\<exists>p. inside p a \<and> inside p b)"
  proof
    assume "?meet a b"
    then have "inside (max (col_x a) (col_x b), max (col_y a) (col_y b)) a
        \<and> inside (max (col_x a) (col_x b), max (col_y a) (col_y b)) b"
      using assms by (auto simp: inside_def shape_ok_def)
    then show "\<exists>p. inside p a \<and> inside p b" by blast
  qed (auto simp: inside_def)
  moreover have "?meet b a = ?meet a b" by auto
  ultimately show ?thesis using eq assms by simp
qed

theorem collision_is_intersection_witness:
  "CollidesWith \<lparr>col_x = 0, col_y = 0, col_w = 2, col_h = 2\<rparr> \<lparr>col_x = 2, col_y = 1, col_w = 5, col_h = 5\<rparr>
   = Inr True"
proof -
  let ?a = "\<lparr>col_x = 0, col_y = 0, col_w = 2, col_h = 2\<rparr>"
  let ?b = "\<lparr>col_x = 2, col_y = 1, col_w = 5, col_h = 5\<rparr>"
  have "shape_ok ?a" "shape_ok ?b" by (simp_all add: shape_ok_def)
  moreover have "inside (2, 1) ?a \<and> inside (2, 1) ?b" by (simp add: inside_def)
  ultimately show ?thesis using collision_is_intersection [of ?a ?b] by auto
qed

section \<open>Level texts\<close>

text \<open>
  The text of a level: the dimensions, the tileset, a blank line that ends the metadata, two newlines
  that start the tiles, and one line for each row.
\<close>

definition level_text :: "u64 \<Rightarrow> u64 \<Rightarrow> u64 \<Rightarrow> u64 \<Rightarrow> string \<Rightarrow> string list \<Rightarrow> string" where
  "level_text w h tw th path rows =
     ''x:'' @ print_nat 10 (unat w) @ [CHR 0x0A] @ ''y:'' @ print_nat 10 (unat h) @ [CHR 0x0A]
     @ ''t:'' @ print_nat 10 (unat tw) @ '':'' @ print_nat 10 (unat th) @ '':'' @ path @ [CHR 0x0A]
     @ [CHR 0x0A, CHR 0x0A, CHR 0x0A] @ concat (map (\<lambda>r. r @ [CHR 0x0A]) rows)"

definition path_ok :: "string \<Rightarrow> bool" where
  "path_ok p \<longleftrightarrow> p \<noteq> [] \<and> list_all (\<lambda>c. c \<noteq> CHR 0x0A \<and> c \<noteq> CHR 0xFF) p"

definition tile_char :: "char \<Rightarrow> bool" where
  "tile_char c \<longleftrightarrow> c = CHR '' '' \<or> c = CHR ''#'' \<or> c = CHR ''.''"

definition tile_of :: "char \<Rightarrow> Tile" where
  "tile_of c = \<lparr>tile_index = (if c = CHR '' '' then 0 else if c = CHR ''#'' then 1 else 2)\<rparr>"

lemma int_chars_digits:
  "list_all (is_base_digit 10) ds \<Longrightarrow> int_chars (ds @ CHR '':'' # s) = (ds, CHR '':'' # s)
   \<and> int_chars (ds @ CHR 0x0A # s) = (ds, s)"
proof (induction ds)
  case (Cons d ds)
  have "\<not> is_base_digit 10 (CHR '':'')" "\<not> is_base_digit 10 (CHR 0x0A)" "\<not> is_base_digit 10 (CHR 0xFF)"
    by code_simp+
  with Cons show ?case by auto
qed simp

lemma ParseInt_print:
  "ParseInt (CHR '':'' # print_nat 10 (unat (x :: u64)) @ CHR '':'' # s) = (Some x, CHR '':'' # s)"
  "ParseInt (CHR '':'' # print_nat 10 (unat (x :: u64)) @ CHR 0x0A # s) = (Some x, s)"
proof -
  have ds: "list_all (is_base_digit 10) (print_nat 10 (unat x))"
    using set_print_nat [of 10] by (auto simp: list_all_iff)
  have "\<not> is_base_digit 10 (CHR 0x0A)" by code_simp
  then have hd: "hd (print_nat 10 (unat x) @ r) \<noteq> CHR 0x0A" for r
    using ds by (cases "print_nat 10 (unat x)") auto
  have "unat x < 2 ^ 64" using unsigned_less [of x, where ?'a = nat] by simp
  then have "(of_nat (extract_unsigned 64 10 (print_nat 10 (unat x))) :: u64) = x"
    by (simp add: extract_unsigned_def scan_number_print_nat not_le)
  then show "ParseInt (CHR '':'' # print_nat 10 (unat (x :: u64)) @ CHR '':'' # s) = (Some x, CHR '':'' # s)"
    "ParseInt (CHR '':'' # print_nat 10 (unat (x :: u64)) @ CHR 0x0A # s) = (Some x, s)"
    using int_chars_digits [OF ds, of s] hd by (simp_all add: ParseInt_def)
qed

lemma str_chars_path: "list_all (\<lambda>c. c \<noteq> CHR 0x0A \<and> c \<noteq> CHR 0xFF) p \<Longrightarrow> str_chars (p @ CHR 0x0A # s) = (p, s)"
  by (induction p) auto

lemma ParseStr_path: "path_ok p \<Longrightarrow> ParseStr (CHR '':'' # p @ CHR 0x0A # s) = (Some p, s)"
  using str_chars_path [of p s] by (cases p) (auto simp: ParseStr_def path_ok_def)

lemma metadata_text:
  assumes "path_ok path"
  shows "ParseMetadata (level_text w h tw th path rows) b =
    (kSuccess, b\<lparr>width := w, height := h, tileset_width := tw, tileset_height := th, path_to_tileset := path\<rparr>,
     CHR 0x0A # CHR 0x0A # concat (map (\<lambda>r. r @ [CHR 0x0A]) rows))"
  by (simp add: level_text_def ParseMetadata.simps(2) ParseInt_print ParseTileset_def ParseStr_path [OF assms])

lemma parse_tile_row:
  "list_all tile_char r \<Longrightarrow> parse_tile_chars (r @ s) ts = parse_tile_chars s (ts @ map tile_of r)"
  by (induction r arbitrary: ts) (auto simp: tile_char_def tile_of_def)

lemma parse_tile_rows:
  "list_all (list_all tile_char) rows \<Longrightarrow>
   parse_tile_chars (concat (map (\<lambda>r. r @ [CHR 0x0A]) rows)) ts = (kSuccess, ts @ map tile_of (concat rows))"
  by (induction rows arbitrary: ts) (simp_all add: parse_tile_row)

text \<open>A rectangular list of rows, read in row-major order.\<close>

lemma concat_row_major:
  "list_all (\<lambda>r. length r = w) rows \<Longrightarrow> y < length rows \<Longrightarrow> x < w \<Longrightarrow>
   w * y + x < length (concat rows) \<and> concat rows ! (w * y + x) = rows ! y ! x"
proof (induction rows arbitrary: y)
  case (Cons r rows)
  then show ?case by (cases y) (auto simp: nth_append)
qed simp

lemma length_rows: "list_all (\<lambda>r. length r = w) rows \<Longrightarrow> length (concat rows) = w * length rows"
  by (induction rows) auto

text \<open>C19:
  The text of a rectangular level is read back: the level has the given dimensions and path, the
  builder is left empty, and the tile at column \<open>x\<close> of row \<open>y\<close> is the one the text shows there.\<close>

theorem level_text_roundtrip:
  assumes "path_ok path" and "list_all (\<lambda>r. length r = unat w \<and> list_all tile_char r) rows"
    and "length rows = unat h" and "unat w * unat h < 2 ^ 64" and "unat (th * tw) \<le> max_tiles"
    and "tiles b = []" and "x < w" and "y < h"
  shows "\<exists>l b'. FromText (level_text w h tw th path rows) b = Inr (Some l, b') \<and> tiles b' = []
    \<and> level_width l = w \<and> level_height l = h \<and> level_path l = path
    \<and> At l x y = Inr (tile_of (rows ! unat y ! unat x))"
proof -
  have rows: "list_all (list_all tile_char) rows" "list_all (\<lambda>r. length r = unat w) rows"
    using assms(2) by (simp_all add: list_all_iff)
  have xy: "unat x < unat w" "unat y < length rows" using assms(3,7,8) by (simp_all add: word_less_nat_alt)
  have at: "unat w * unat y + unat x < length (concat rows)"
    "concat rows ! (unat w * unat y + unat x) = rows ! unat y ! unat x"
    using concat_row_major [OF rows(2) xy(2,1)] by simp_all
  have "length (concat rows) = unat w * unat h"
    using length_rows [OF rows(2)] assms(3) by simp
  then have small: "unat w * unat y + unat x < 2 ^ 64" using at(1) assms(4) by simp
  then have "unat (w * y + x) = unat w * unat y + unat x"
    by (simp add: unat_word_ariths)
  then show ?thesis
    using assms(5,6) at parse_tile_rows [OF rows(1), of "[]"]
    by (simp add: FromText_def metadata_text [OF assms(1)] ParseTiles_def At_def)
qed

definition empty_builder :: LevelBuilder where
  "empty_builder = \<lparr>width = 0, height = 0, path_to_tileset = [], tileset_width = 0, tileset_height = 0, tiles = []\<rparr>"

theorem level_text_roundtrip_witness:
  "\<exists>l b'. FromText (level_text 2 2 8 8 ''p'' [''#.'', '' #'']) empty_builder = Inr (Some l, b')
     \<and> At l 0 1 = Inr \<lparr>tile_index = 0\<rparr>"
proof -
  have "path_ok ''p''" by (simp add: path_ok_def)
  then show ?thesis
    using level_text_roundtrip [of "''p''" 2 "[''#.'', '' #'']" 2 8 8 empty_builder 0 1]
    by (auto simp: tile_char_def tile_of_def max_tiles_def empty_builder_def)
qed

text \<open>The builder does not compare the tiles with the announced dimensions: a level of the wrong size is
  accepted, and reading a tile inside its dimensions then leaves the vector.\<close>

theorem level_size_unchecked:
  "\<exists>l b'. FromText (level_text 3 2 8 8 ''p'' [''#.'', '' #'']) empty_builder = Inr (Some l, b')
     \<and> level_width l = 3 \<and> level_height l = 2 \<and> At l 2 1 = Inl Out_Of_Bounds"
proof -
  have "path_ok ''p''" by (simp add: path_ok_def)
  then show ?thesis
    by (simp add: FromText_def metadata_text ParseTiles_def At_def read_at_def max_tiles_def empty_builder_def)
qed

end
