(* ===== verification/Tinydb.thy ===== *)
theory Tinydb
  imports Prelude
begin

text \<open>
  The database front end of \<^verbatim>\<open>tinydb/\<close>: the schema, the statement parser, the command
  classification of the read loop, and the pages. \<open>catalog\<close> is the contract of a schema: what a search finds after a
  table was added.
\<close>

section \<open>Schema\<close>

datatype ColumnType = Undefined_type | String_type | Integer_type

record Column =
  col_label :: string
  col_size :: u64
  col_type :: ColumnType

record Table =
  table_name :: string
  table_columns :: "Column list"

type_synonym Schema = "Table list"

definition AddTable :: "Schema \<Rightarrow> Table \<Rightarrow> Schema" where
  "AddTable schema table = schema @ [table]"

definition GetTableNames :: "Schema \<Rightarrow> string list" where
  "GetTableNames schema = foldl (\<lambda>ret e. ret @ [table_name e]) [] schema"

definition FindTableByName :: "Schema \<Rightarrow> string \<Rightarrow> Table option" where
  "FindTableByName schema nm = find (\<lambda>t. table_name t = nm) schema"

locale catalog =
  fixes add :: "'c \<Rightarrow> 't \<Rightarrow> 'c" and look :: "'c \<Rightarrow> string \<Rightarrow> 't option"
    and names :: "'c \<Rightarrow> string list" and name :: "'t \<Rightarrow> string"
  assumes look_add: "look (add c t) n =
      (case look c n of Some u \<Rightarrow> Some u | None \<Rightarrow> if name t = n then Some t else None)"
    and names_add: "names (add c t) = names c @ [name t]"
    and look_names: "look c n \<noteq> None \<longleftrightarrow> n \<in> set (names c)"
begin

lemma look_new: "n \<notin> set (names c) \<Longrightarrow> name t = n \<Longrightarrow> look (add c t) n = Some t"
  using look_names [of c n] by (auto simp: look_add)

lemma look_kept: "n \<in> set (names c) \<Longrightarrow> look (add c t) n = look c n"
  using look_names [of c n] by (auto simp: look_add)

lemma look_all: "look (foldl add c ts) n =
    (case look c n of Some u \<Rightarrow> Some u | None \<Rightarrow> find (\<lambda>t. name t = n) ts)"
  by (induction ts arbitrary: c) (auto simp: look_add split: option.splits)

end

lemma GetTableNames_map: "GetTableNames schema = map table_name schema"
proof -
  have "foldl (\<lambda>ret e. ret @ [table_name e]) r schema = r @ map table_name schema" for r
    by (induction schema arbitrary: r) simp_all
  then show ?thesis by (simp add: GetTableNames_def)
qed

lemma find_append: "find P (xs @ ys) = (case find P xs of Some x \<Rightarrow> Some x | None \<Rightarrow> find P ys)"
  by (induction xs) auto

interpretation schema: catalog AddTable FindTableByName GetTableNames table_name
proof
  show "(FindTableByName c n \<noteq> None) = (n \<in> set (GetTableNames c))" for c n
    by (auto simp: FindTableByName_def GetTableNames_map find_None_iff)
qed (auto simp: AddTable_def FindTableByName_def GetTableNames_map find_append split: option.splits)

section \<open>Statements\<close>

datatype Type = Undefined | Insert | Select | Create | Invalid

datatype ExecutionResult = Undefined_result | Success | Failure

record Statement =
  original_statement :: string
  statement_type :: Type
  execution_result :: ExecutionResult
  error_message :: "string option"
  wildcard_values :: bool
  stmt_values :: "string list"
  stmt_table :: "string option"

text \<open>The words that \<open>istream_iterator\<close> reads.\<close>

function words :: "string \<Rightarrow> string list" where
  "words s =
     (let s = dropWhile is_space s in
      if s = [] then [] else takeWhile (\<lambda>c. \<not> is_space c) s # words (dropWhile (\<lambda>c. \<not> is_space c) s))"
  by pat_completeness auto
termination
proof (relation "measure length", goal_cases)
  case (2 s s')
  obtain c cs where s': "s' = c # cs" using 2(2) by (cases s') simp_all
  have d: "dropWhile is_space s = c # cs" using 2(1) s' by simp
  then have "\<not> is_space c" using hd_dropWhile [of is_space s] by simp
  then have "length (dropWhile (\<lambda>c. \<not> is_space c) s') \<le> length cs"
    using length_dropWhile_le [of "\<lambda>c. \<not> is_space c" cs] by (simp add: s')
  moreover have "length s' \<le> length s" using 2 length_dropWhile_le [of is_space s] by simp
  ultimately show ?case using s' by simp
qed simp

declare words.simps [simp del]

text \<open>\<open>regex_search\<close> of digits in parentheses: the digits of the leftmost match.\<close>

fun search_size :: "string \<Rightarrow> string option" where
  "search_size [] = None"
| "search_size (c # s) =
     (if c = CHR ''('' \<and> takeWhile is_digit s \<noteq> []
         \<and> (case dropWhile is_digit s of d # _ \<Rightarrow> d = CHR '')'' | [] \<Rightarrow> False)
      then Some (takeWhile is_digit s) else search_size s)"

definition ParseColumnSize :: "string \<Rightarrow> u64 option" where
  "ParseColumnSize column =
     (if column = ''int'' then Some 4
      else
        (case search_size column of
           None \<Rightarrow> None
         | Some ds \<Rightarrow> (let val = strtoull ds 10 in if val \<noteq> 0 then Some val else None)))"

definition of_varchar :: "string \<Rightarrow> bool" where
  "of_varchar column \<longleftrightarrow>
     take 8 column = ''varchar('' \<and> drop 8 column \<noteq> [] \<and> last column = CHR '')''
     \<and> butlast (drop 8 column) \<noteq> [] \<and> list_all is_digit (butlast (drop 8 column))"

definition ParseColumnType :: "string \<Rightarrow> ColumnType option" where
  "ParseColumnType column =
     (if of_varchar column then Some String_type
      else if column = ''int'' then Some Integer_type
      else None)"

definition ParseInsert :: "string list \<Rightarrow> Statement \<Rightarrow> Statement" where
  "ParseInsert tokens st = st\<lparr>statement_type := Insert\<rparr>"

text \<open>The loop over the labels: it reads behind the last token when there is no \<open>from\<close>.\<close>

fun select_labels :: "string list \<Rightarrow> string list \<Rightarrow> (string list \<times> string list) result" where
  "select_labels [] vs = Inl Out_Of_Bounds"
| "select_labels (t # ts) vs =
     (if t \<noteq> ''from'' then select_labels ts (vs @ [t]) else Inr (vs, t # ts))"

definition ParseSelect :: "string list \<Rightarrow> Statement \<Rightarrow> Statement result" where
  "ParseSelect tokens st =
     (let st = st\<lparr>statement_type := Select\<rparr> in
      if length tokens < 4
      then Inr (st\<lparr>error_message := Some ''invalid select statement: expecting at least 4 parts''\<rparr>)
      else
        (let it = tl tokens;
             st = st\<lparr>wildcard_values := (hd it = ''*'')\<rparr>
         in rbind (if \<not> wildcard_values st then select_labels it (stmt_values st)
                   else Inr (stmt_values st, it)) (\<lambda>(vs, it).
            let st = st\<lparr>stmt_values := vs\<rparr>; it = tl it in
            if it = [] then Inl Out_Of_Bounds else Inr (st\<lparr>stmt_table := Some (hd it)\<rparr>))))"

text \<open>The check for duplicate names and the columns, over the tokens from the fourth on.\<close>

fun duplicate_names :: "string set \<Rightarrow> string list \<Rightarrow> bool" where
  "duplicate_names seen (n # t # ts) = (if n \<in> seen then True else duplicate_names (insert n seen) ts)"
| "duplicate_names seen _ = False"

fun create_columns :: "string list \<Rightarrow> Column list \<Rightarrow> (string + Column list) result" where
  "create_columns (n # t # ts) columns =
     (case ParseColumnSize t of
        None \<Rightarrow> Inr (Inl (''invalid size in column specification: '' @ t))
      | Some colsize \<Rightarrow>
          (case ParseColumnType t of
             None \<Rightarrow> Inl (Thrown ''bad_optional_access'')
           | Some coltype \<Rightarrow>
               create_columns ts
                 (columns @ [\<lparr>col_label = n, col_size = colsize, col_type = coltype\<rparr>])))"
| "create_columns _ columns = Inr (Inr columns)"

definition ParseCreate :: "string list \<Rightarrow> Statement \<Rightarrow> Schema \<Rightarrow> (Statement \<times> Schema) result" where
  "ParseCreate tokens st schema = noexcept
     (let st = st\<lparr>statement_type := Create\<rparr>;
          fail = (\<lambda>msg. Inr (st\<lparr>error_message := Some msg\<rparr>, schema))
      in if length tokens < 2 then fail ''invalid create statement: expecting at least `create table`''
         else if tokens ! 0 \<noteq> ''create'' \<or> tokens ! 1 \<noteq> ''table''
         then fail ''queries should begin with `create table`''
         else if length tokens < 3
         then fail ''invalid create statement: expecting table name with at least a column''
         else
           (let col_count = length tokens - 3 in
            if col_count = 0 then fail ''must specify at least one column in the table''
            else if col_count mod 2 \<noteq> 0 then fail ''bad column definition''
            else if duplicate_names {} (drop 3 tokens) then fail ''duplicate column names''
            else
              rbind (create_columns (drop 3 tokens) []) (\<lambda>r. case r of
                Inl msg \<Rightarrow> fail msg
              | Inr columns \<Rightarrow>
                  Inr (st, AddTable schema \<lparr>table_name = tokens ! 2, table_columns = columns\<rparr>))))"

definition Parse :: "Statement \<Rightarrow> Schema \<Rightarrow> (Statement \<times> Schema) result" where
  "Parse st schema =
     (let tokens = words (original_statement st) in
      if length tokens < 1
      then Inr (st\<lparr>statement_type := Invalid, error_message := Some ''empty query''\<rparr>, schema)
      else if tokens ! 0 = ''insert'' then Inr (ParseInsert tokens st, schema)
      else if tokens ! 0 = ''select'' then rmap (\<lambda>st. (st, schema)) (ParseSelect tokens st)
      else if tokens ! 0 = ''create'' then ParseCreate tokens st schema
      else Inr (st\<lparr>statement_type := Invalid, error_message := Some ''bad starter identifier''\<rparr>, schema))"

text \<open>The constructor, which parses.\<close>

definition mk_statement :: "string \<Rightarrow> Schema \<Rightarrow> (Statement \<times> Schema) result" where
  "mk_statement statement schema =
     Parse \<lparr>original_statement = statement, statement_type = Undefined,
            execution_result = Undefined_result, error_message = None, wildcard_values = False,
            stmt_values = [], stmt_table = None\<rparr> schema"

text \<open>\<open>Execute\<close>: the text it prints and its result.\<close>

definition Execute :: "Statement \<Rightarrow> string \<times> ExecutionResult" where
  "Execute st =
     (case statement_type st of
        Insert \<Rightarrow> (''insert stuff here'', Failure)
      | Select \<Rightarrow> (''select stuff here'', Failure)
      | Create \<Rightarrow> (''create the table here'', Failure)
      | _ \<Rightarrow> ([], Failure))"

section \<open>Read loop\<close>

datatype CommandType = Meta | SQL

definition GetCommandType :: "string \<Rightarrow> CommandType result" where
  "GetCommandType cmd = noexcept
     (if cmd = [] then Inl (Thrown ''out_of_range'')
      else if hd cmd = CHR ''.'' then Inr Meta else Inr SQL)"

text \<open>The lines \<open>ProcessInput\<close> prints.\<close>

definition ProcessInput :: "string \<Rightarrow> string list result" where
  "ProcessInput input =
     rmap (\<lambda>t. case t of
         Meta \<Rightarrow>
           if input = ''.tables'' then [''table information goes here'']
           else if input = ''.help''
           then [''.tables - prints tables'', ''.help - prints this'', ''.exit - quit repl'']
           else [''bad command'']
       | SQL \<Rightarrow> [''not implemented yet''])
       (GetCommandType input)"

text \<open>\<open>Run\<close> over the words of the input: all that is printed, prompts included.\<close>

fun Run_loop :: "string list \<Rightarrow> string list result" where
  "Run_loop [] = Inr []"
| "Run_loop (input # rest) =
     (if input = ''.exit'' then Inr []
      else rbind (ProcessInput input) (\<lambda>out. rmap (\<lambda>r. out @ ''tinydb> '' # r) (Run_loop rest)))"

definition Run :: "string \<Rightarrow> string list result" where
  "Run stdin = rmap (\<lambda>r. ''tinydb> '' # r) (Run_loop (words stdin))"

section \<open>Creating tables\<close>

text \<open>Words separated by blanks, each without white space.\<close>

definition word :: "string \<Rightarrow> bool" where
  "word w \<longleftrightarrow> w \<noteq> [] \<and> list_all (\<lambda>c. \<not> is_space c) w"

definition unwords :: "string list \<Rightarrow> string" where
  "unwords ws = concat (map (\<lambda>w. w @ '' '') ws)"

lemma is_space_blank: "is_space (CHR '' '')"
  by code_simp

lemma words_blank: "words (CHR '' '' # s) = words s"
  by (simp add: words.simps [of "CHR '' '' # s"] words.simps [of s] is_space_blank)

lemma words_word: "word w \<Longrightarrow> words (w @ CHR '' '' # s) = w # words s"
proof -
  assume w: "word w"
  then obtain c cs where c: "w = c # cs" "\<not> is_space c" by (cases w) (auto simp: word_def)
  have "takeWhile (\<lambda>c. \<not> is_space c) (w @ CHR '' '' # s) = w"
    "dropWhile (\<lambda>c. \<not> is_space c) (w @ CHR '' '' # s) = CHR '' '' # s"
    using w is_space_blank by (auto simp: word_def list_all_iff takeWhile_append dropWhile_append)
  moreover have "dropWhile is_space (w @ CHR '' '' # s) = w @ CHR '' '' # s" using c by simp
  ultimately show ?thesis
    using c by (subst words.simps) (simp add: Let_def words_blank)
qed

lemma words_unwords: "list_all word ws \<Longrightarrow> words (unwords ws) = ws"
  by (induction ws) (simp_all add: unwords_def words_word words.simps [of "[]"])

text \<open>A column specification: its name and, for a \<open>varchar\<close>, the size.\<close>

type_synonym column_spec = "string \<times> u64 option"

definition type_text :: "u64 option \<Rightarrow> string" where
  "type_text sz = (case sz of None \<Rightarrow> ''int'' | Some n \<Rightarrow> ''varchar('' @ print_nat 10 (unat n) @ '')'')"

definition spec_ok :: "column_spec \<Rightarrow> bool" where
  "spec_ok sp \<longleftrightarrow> word (fst sp) \<and> snd sp \<noteq> Some 0"

definition spec_column :: "column_spec \<Rightarrow> Column" where
  "spec_column sp =
     (case snd sp of
        None \<Rightarrow> \<lparr>col_label = fst sp, col_size = 4, col_type = Integer_type\<rparr>
      | Some n \<Rightarrow> \<lparr>col_label = fst sp, col_size = n, col_type = String_type\<rparr>)"

definition create_text :: "string \<Rightarrow> column_spec list \<Rightarrow> string" where
  "create_text nm specs =
     unwords ([''create'', ''table'', nm] @ concat (map (\<lambda>sp. [fst sp, type_text (snd sp)]) specs))"

lemma print_nat_digits: "list_all is_digit (print_nat 10 n)"
proof -
  have "is_digit c" if "is_base_digit 10 c" for c
    using that by (auto simp: is_base_digit_def digit_val_def is_digit_def Let_def split: if_splits)
  then show ?thesis using set_print_nat [of 10] by (auto simp: list_all_iff)
qed

lemma search_size_varchar: "search_size (type_text (Some n)) = Some (print_nat 10 (unat n))"
proof -
  let ?ds = "print_nat 10 (unat n)"
  have paren: "\<not> is_digit (CHR '')'')" by code_simp
  have "takeWhile is_digit (?ds @ '')'') = ?ds" "dropWhile is_digit (?ds @ '')'') = '')''"
    using print_nat_digits [of "unat n"] paren
    by (auto simp: list_all_iff takeWhile_append dropWhile_append)
  then show ?thesis by (simp add: type_text_def)
qed

lemma column_size_varchar: "n \<noteq> 0 \<Longrightarrow> ParseColumnSize (type_text (Some n)) = Some n"
proof -
  assume "n \<noteq> 0"
  moreover have "unat n < 2 ^ 64" using unsigned_less [of n, where ?'a = nat] by simp
  moreover have "type_text (Some n) \<noteq> ''int''" by (simp add: type_text_def)
  ultimately show ?thesis
    by (simp add: ParseColumnSize_def search_size_varchar strtoull_def scan_number_print_nat not_le)
qed

lemma column_type_varchar: "ParseColumnType (type_text (Some n)) = Some String_type"
proof -
  have "of_varchar (type_text (Some n))"
    using print_nat_digits [of "unat n"] by (simp add: of_varchar_def type_text_def butlast_append)
  then show ?thesis by (simp add: ParseColumnType_def)
qed

lemma column_int: "ParseColumnSize (type_text None) = Some 4" "ParseColumnType (type_text None) = Some Integer_type"
  by (simp_all add: ParseColumnSize_def ParseColumnType_def type_text_def of_varchar_def)

lemma word_type_text: "word (type_text sz)"
proof -
  have "\<not> is_space c" if "is_digit c" for c using that by (auto simp: is_space_def is_digit_def)
  moreover have "list_all (\<lambda>c. \<not> is_space c) ''varchar(''" "list_all (\<lambda>c. \<not> is_space c) ''int''"
    "\<not> is_space (CHR '')'')" by code_simp+
  ultimately show ?thesis
    using print_nat_digits by (cases sz) (auto simp: word_def type_text_def list_all_iff)
qed

lemma create_columns_specs:
  "list_all spec_ok specs \<Longrightarrow>
   create_columns (concat (map (\<lambda>sp. [fst sp, type_text (snd sp)]) specs)) cs
   = Inr (Inr (cs @ map spec_column specs))"
proof (induction specs arbitrary: cs)
  case (Cons sp specs)
  have "ParseColumnSize (type_text (snd sp)) = Some (col_size (spec_column sp))
    \<and> ParseColumnType (type_text (snd sp)) = Some (col_type (spec_column sp)) \<and> col_label (spec_column sp) = fst sp"
    using Cons.prems
    by (cases "snd sp") (auto simp: spec_ok_def spec_column_def column_int column_size_varchar column_type_varchar)
  then show ?case using Cons by (cases "spec_column sp") simp
qed simp

lemma duplicate_names_specs:
  "duplicate_names seen (concat (map (\<lambda>sp. [fst sp, type_text (snd sp)]) specs))
   \<longleftrightarrow> \<not> (distinct (map fst specs) \<and> set (map fst specs) \<inter> seen = {})"
  by (induction specs arbitrary: seen) auto

lemma length_specs: "length (concat (map (\<lambda>sp. [fst sp, type_text (snd sp)]) specs)) = 2 * length specs"
  by (induction specs) auto

text \<open>A well-formed \<open>create table\<close> statement with at least one column and different column names adds
  exactly that table, with each column's name, size and type, at the end of the schema and
  reports no error; a search for the name finds it unless the schema had a table of that name before.\<close>

theorem create_table_adds:
  assumes "word nm" and "list_all spec_ok specs" and "specs \<noteq> []" and "distinct (map fst specs)"
  shows "\<exists>st. mk_statement (create_text nm specs) schema =
      Inr (st, AddTable schema \<lparr>table_name = nm, table_columns = map spec_column specs\<rparr>)
    \<and> statement_type st = Create \<and> error_message st = None
    \<and> (nm \<notin> set (GetTableNames schema) \<longrightarrow>
        FindTableByName (AddTable schema \<lparr>table_name = nm, table_columns = map spec_column specs\<rparr>) nm
        = Some \<lparr>table_name = nm, table_columns = map spec_column specs\<rparr>)"
proof -
  let ?cols = "concat (map (\<lambda>sp. [fst sp, type_text (snd sp)]) specs)"
  have "list_all word ?cols" using assms(2) word_type_text
    by (auto simp: list_all_iff spec_ok_def)
  moreover have "word ''create''" "word ''table''" by (simp_all add: word_def is_space_def ascii_def)
  ultimately have "words (create_text nm specs) = ''create'' # ''table'' # nm # ?cols"
    unfolding create_text_def using assms(1) by (subst words_unwords) simp_all
  moreover have "0 < length specs" using assms(3) by simp
  ultimately show ?thesis
    using create_columns_specs [OF assms(2), of "[]"] duplicate_names_specs [of "{}" specs] assms(4)
      length_specs [of specs]
    by (simp add: mk_statement_def Parse_def ParseCreate_def schema.look_new noexcept_def)
qed

theorem create_table_adds_witness:
  "\<exists>st. mk_statement (create_text ''people'' [(''id'', None), (''name'', Some 32)]) [] =
     Inr (st, [\<lparr>table_name = ''people'', table_columns =
       [\<lparr>col_label = ''id'', col_size = 4, col_type = Integer_type\<rparr>,
        \<lparr>col_label = ''name'', col_size = 32, col_type = String_type\<rparr>]\<rparr>])"
proof -
  have "word ''people''" "list_all spec_ok [(''id'', None), (''name'', Some 32)]"
    by (simp_all add: spec_ok_def word_def is_space_def ascii_def)
  then show ?thesis
    using create_table_adds [of "''people''" "[(''id'', None), (''name'', Some 32)]" "[]"]
    by (auto simp: spec_column_def AddTable_def)
qed

section \<open>What no statement does\<close>

lemma create_columns_labels:
  "create_columns ts cs = Inr (Inr cs') \<Longrightarrow> even (length ts) \<Longrightarrow>
   \<not> duplicate_names seen ts \<Longrightarrow> \<exists>ns. map col_label cs' = map col_label cs @ ns \<and> length ns = length ts div 2
     \<and> distinct ns \<and> set ns \<inter> seen = {}"
proof (induction ts cs arbitrary: seen rule: create_columns.induct)
  case (1 n t ts cs)
  then obtain sz ty where p: "ParseColumnSize t = Some sz" "ParseColumnType t = Some ty"
    by (auto split: option.splits)
  have "n \<notin> seen" "\<not> duplicate_names (insert n seen) ts" using "1.prems"(3) by (auto split: if_splits)
  then obtain ns where "map col_label cs' = (map col_label cs @ [n]) @ ns" "length ns = length ts div 2"
    "distinct ns" "set ns \<inter> insert n seen = {}"
    using "1.IH" [OF p, of "insert n seen"] "1.prems"(1,2) p by auto
  then show ?case using \<open>n \<notin> seen\<close> by (intro exI [of _ "n # ns"]) auto
qed auto

lemma ParseCreate_adds:
  assumes p: "ParseCreate ts st schema = Inr (st', schema')" and d: "schema' \<noteq> schema"
  obtains columns where "create_columns (drop 3 ts) [] = Inr (Inr columns)"
    "\<not> duplicate_names {} (drop 3 ts)" "even (length (drop 3 ts))" "drop 3 ts \<noteq> []"
    "st' = st\<lparr>statement_type := Create\<rparr>"
    "schema' = AddTable schema \<lparr>table_name = ts ! 2, table_columns = columns\<rparr>"
proof -
  let ?n = "length ts - 3"
  note q = p [unfolded ParseCreate_def noexcept_eq_Inr_iff Let_def]
  have g1: "\<not> length ts < 2" using q d by (cases "length ts < 2") simp_all
  have g2: "\<not> (ts ! 0 \<noteq> ''create'' \<or> ts ! 1 \<noteq> ''table'')"
    using q d g1 by (cases "ts ! 0 \<noteq> ''create'' \<or> ts ! 1 \<noteq> ''table''") simp_all
  have g3: "\<not> length ts < 3" using q d g1 g2 by (cases "length ts < 3") simp_all
  have g4: "?n \<noteq> 0" using q d g1 g2 g3 by (cases "?n = 0") simp_all
  have g5: "\<not> ?n mod 2 \<noteq> 0" using q d g1 g2 g3 g4 by (cases "?n mod 2 \<noteq> 0") simp_all
  have g6: "\<not> duplicate_names {} (drop 3 ts)"
    using q d g1 g2 g3 g4 g5 by (cases "duplicate_names {} (drop 3 ts)") simp_all
  from q [unfolded if_not_P [OF g1] if_not_P [OF g2] if_not_P [OF g3] if_not_P [OF g4] if_not_P [OF g5]
      if_not_P [OF g6]]
  obtain x where x: "create_columns (drop 3 ts) [] = Inr x" and c: "(case x of
        Inl msg \<Rightarrow> Inr (st\<lparr>statement_type := Create, error_message := Some msg\<rparr>, schema)
      | Inr columns \<Rightarrow> Inr (st\<lparr>statement_type := Create\<rparr>,
          AddTable schema \<lparr>table_name = ts ! 2, table_columns = columns\<rparr>)) = (Inr (st', schema') :: (Statement \<times> Schema) result)"
    by (auto simp: rbind_eq_Inr_iff)
  obtain columns where "create_columns (drop 3 ts) [] = Inr (Inr columns)"
    "st' = st\<lparr>statement_type := Create\<rparr>"
    "schema' = AddTable schema \<lparr>table_name = ts ! 2, table_columns = columns\<rparr>"
    using x c d by (cases x) simp_all
  moreover have "even (length (drop 3 ts))" "drop 3 ts \<noteq> []" using g4 g5 by (auto simp: even_iff_mod_2_eq_zero)
  ultimately show thesis using that g6 by blast
qed

lemma Parse_adds:
  assumes p: "Parse st schema = Inr (st', schema')" and d: "schema' \<noteq> schema"
  shows "ParseCreate (words (original_statement st)) st schema = Inr (st', schema')"
proof -
  let ?ts = "words (original_statement st)"
  note q = p [unfolded Parse_def Let_def]
  have g1: "\<not> length ?ts < 1" using q d by (cases "length ?ts < 1") simp_all
  have g2: "?ts ! 0 \<noteq> ''insert''" using q d g1 by (cases "?ts ! 0 = ''insert''") simp_all
  have g3: "?ts ! 0 \<noteq> ''select''"
    using q d g1 g2 by (cases "?ts ! 0 = ''select''") (auto simp: rmap_eq_Inr_iff)
  have g4: "?ts ! 0 = ''create''" using q d g1 g2 g3 by (cases "?ts ! 0 = ''create''") simp_all
  from q show ?thesis by (simp only: if_not_P [OF g1] if_not_P [OF g2] if_not_P [OF g3] if_P [OF g4])
qed

text \<open>C18:
  A statement leaves the schema as it was or adds one table, and it adds one only as a \<open>create\<close> without
  error; the new table then has at least one column and no two columns of the same name.\<close>

theorem statement_schema_change:
  assumes "mk_statement text schema = Inr (st, schema')" and "schema' \<noteq> schema"
  shows "statement_type st = Create \<and> error_message st = None
    \<and> (\<exists>t. schema' = AddTable schema t \<and> table_columns t \<noteq> [] \<and> distinct (map col_label (table_columns t)))"
proof -
  obtain columns where cols: "create_columns (drop 3 (words text)) [] = Inr (Inr columns)"
    "\<not> duplicate_names {} (drop 3 (words text))" "even (length (drop 3 (words text)))"
    "drop 3 (words text) \<noteq> []" "statement_type st = Create" "error_message st = None"
    "schema' = AddTable schema \<lparr>table_name = words text ! 2, table_columns = columns\<rparr>"
    by (rule ParseCreate_adds [OF Parse_adds [OF assms(1) [unfolded mk_statement_def] assms(2)] assms(2)])
      (rule that, simp_all)
  obtain ns where "map col_label columns = ns" "length ns = length (drop 3 (words text)) div 2" "distinct ns"
    using create_columns_labels [OF cols(1,3,2)] by auto
  moreover have "length (drop 3 (words text)) \<noteq> 0" using cols(4) by simp
  then have "length (drop 3 (words text)) div 2 \<noteq> 0" using cols(3) by (metis dvd_div_eq_0_iff)
  then have "columns \<noteq> []" using \<open>map col_label columns = ns\<close> \<open>length ns = _\<close> by auto
  ultimately show ?thesis using cols
    by (intro conjI exI [of _ "\<lparr>table_name = words text ! 2, table_columns = columns\<rparr>"]) simp_all
qed

theorem statement_schema_change_witness:
  "\<exists>st. mk_statement ''create table t id int'' [] = Inr (st, [\<lparr>table_name = ''t'',
      table_columns = [\<lparr>col_label = ''id'', col_size = 4, col_type = Integer_type\<rparr>]\<rparr>])
    \<and> statement_type st = Create"
proof -
  have "words ''create table t id int'' = [''create'', ''table'', ''t'', ''id'', ''int'']"
    by (simp add: words.simps is_space_def ascii_def)
  then obtain st where st: "mk_statement ''create table t id int'' [] = Inr (st, [\<lparr>table_name = ''t'',
      table_columns = [\<lparr>col_label = ''id'', col_size = 4, col_type = Integer_type\<rparr>]\<rparr>])"
    using column_int by (simp add: mk_statement_def Parse_def ParseCreate_def noexcept_def AddTable_def type_text_def)
  then show ?thesis using statement_schema_change [OF st] by simp
qed

text \<open>A column of an unknown type with a size ends the process, a \<open>select\<close> without \<open>from\<close> reads behind
  its words, and a \<open>select\<close> of all columns takes the word \<open>from\<close> for its table.\<close>

theorem statement_faults:
  "mk_statement ''create table t id blob(3)'' schema = Inl Terminated
   \<and> mk_statement ''select a b c'' schema = Inl Out_Of_Bounds
   \<and> rmap (\<lambda>(st, sc). stmt_table st) (mk_statement ''select * from people'' schema) = Inr (Some ''from'')"
proof -
  have w: "words ''create table t id blob(3)'' = [''create'', ''table'', ''t'', ''id'', ''blob(3)'']"
    "words ''select a b c'' = [''select'', ''a'', ''b'', ''c'']"
    "words ''select * from people'' = [''select'', ''*'', ''from'', ''people'']"
    by (simp_all add: words.simps is_space_def ascii_def)
  have "search_size ''blob(3)'' = Some ''3''" "scan_number 10 ''3'' = Some (False, 3)" by code_simp+
  then have "ParseColumnSize ''blob(3)'' = Some 3" by (simp add: ParseColumnSize_def strtoull_def)
  moreover have "ParseColumnType ''blob(3)'' = None" by (simp add: ParseColumnType_def of_varchar_def)
  ultimately show ?thesis
    by (simp add: mk_statement_def Parse_def ParseCreate_def ParseSelect_def w noexcept_def)
qed

section \<open>Pages\<close>

definition default_page_size :: nat where
  "default_page_size = 4096"

record Page =
  page_data :: bytes
  page_cursor :: nat
  write_offset :: nat

definition mk_page :: Page where
  "mk_page = \<lparr>page_data = replicate default_page_size 0, page_cursor = 0, write_offset = 0\<rparr>"

text \<open>The capacity of a vector that keeps the size it is made with.\<close>

definition GetPageSize :: "Page \<Rightarrow> nat" where
  "GetPageSize p = length (page_data p)"

definition Page_Write :: "Page \<Rightarrow> Page" where
  "Page_Write p = p"

definition Table_Write :: "Page list \<Rightarrow> Page list" where
  "Table_Write pages = pages"

end
