(* ===== verification/Fttl.thy ===== *)
theory Fttl
  imports Prelude
begin

text \<open>
  The file time-to-live service of \<^verbatim>\<open>fttl/fttl.cc\<close>: the datagram the client writes and the server
  reads, the map from deadlines to paths, the consumer that removes the files of past deadlines, and
  the client's command line. The service is the interleaving of two threads, one that inserts what it
  received and one that removes what is due, each under the mutex, so an execution is a list of
  events. The files of the host are a set of paths.
\<close>

section \<open>Strings\<close>

text \<open>\<open>find\<close> of a character and of a substring.\<close>

fun find_char :: "char \<Rightarrow> string \<Rightarrow> nat option" where
  "find_char c [] = None"
| "find_char c (x # s) = (if x = c then Some 0 else map_option Suc (find_char c s))"

fun contains :: "string \<Rightarrow> string \<Rightarrow> bool" where
  "contains p [] = (p = [])"
| "contains p (x # s) = (take (length p) (x # s) = p \<or> contains p s)"

text \<open>\<open>c_str()\<close> as a C function reads it.\<close>

definition c_str :: "string \<Rightarrow> string" where
  "c_str s = takeWhile (\<lambda>c. c \<noteq> CHR 0x00) s"

lemma find_char_append: "c \<notin> set xs \<Longrightarrow> find_char c (xs @ c # ys) = Some (length xs)"
  by (induction xs) auto

section \<open>The map of deadlines\<close>

type_synonym files = "(u64 \<times> string list) list"

record FileTTL =
  files_of :: files
  disk :: "string set"
  cout :: string

text \<open>\<open>insert\<close> of \<open>std::map\<close>, which keeps its entries in the order of the keys.\<close>

fun map_insert :: "u64 \<Rightarrow> string list \<Rightarrow> files \<Rightarrow> files" where
  "map_insert t v [] = [(t, v)]"
| "map_insert t v ((k, w) # fs) = (if t < k then (t, v) # (k, w) # fs else (k, w) # map_insert t v fs)"

fun map_push :: "u64 \<Rightarrow> string \<Rightarrow> files \<Rightarrow> files" where
  "map_push t p [] = []"
| "map_push t p ((k, w) # fs) = (if k = t then (k, w @ [p]) # fs else (k, w) # map_push t p fs)"

definition InsertPair :: "u64 \<Rightarrow> string \<Rightarrow> FileTTL \<Rightarrow> FileTTL" where
  "InsertPair timestamp path s =
     (let s = s\<lparr>cout := cout s @ ''insert'' @ [CHR 0x0A]\<rparr> in
      case map_of (files_of s) timestamp of
        None \<Rightarrow> s\<lparr>files_of := map_insert timestamp [path] (files_of s)\<rparr>
      | Some _ \<Rightarrow> s\<lparr>files_of := map_push timestamp path (files_of s)\<rparr>)"

text \<open>
  \<open>remove\<close> of the C library. It fails for a path that is not there, and also where the host refuses it: \<open>answers n p\<close>
  is whether the \<open>n\<close>-th call of the pass succeeds on the path \<open>p\<close>, if it is there. The message of a failure goes to
  the standard error.
\<close>

type_synonym remove_answers = "nat \<Rightarrow> string \<Rightarrow> bool"

fun remove_all ::
  "remove_answers \<Rightarrow> u64 \<Rightarrow> string list \<Rightarrow> nat \<times> string set \<times> string \<Rightarrow> nat \<times> string set \<times> string"
where
  "remove_all answers key [] (n, d, out) = (n, d, out)"
| "remove_all answers key (filename # names) (n, d, out) =
     (let out = out @ ''removing '' @ print_nat 10 (unat key) @ ''... '';
          p = c_str filename
      in remove_all answers key names
           (if p \<notin> d \<or> \<not> answers n p then (n + 1, d, out)
            else (n + 1, d - {p}, out @ ''[done]'' @ [CHR 0x0A])))"

text \<open>The pass of \<open>Consumer\<close> over the map at the time \<open>ss\<close>: the entry of a deadline goes whether its files went or not.\<close>

fun consume ::
  "remove_answers \<Rightarrow> u64 \<Rightarrow> files \<Rightarrow> nat \<times> string set \<times> string \<Rightarrow> files \<times> nat \<times> string set \<times> string"
where
  "consume answers ss [] (n, d, out) = ([], n, d, out)"
| "consume answers ss ((key, names) # fs) (n, d, out) =
     (let out = out @ print_nat 10 (unat key) @ '' '' in
      if key \<le> ss
      then let (n, d, out) = remove_all answers key names (n, d, out)
           in consume answers ss fs (n, d, out @ ''.'' @ [CHR 0x0A])
      else let (fs', r) = consume answers ss fs (n, d, out @ ''.'' @ [CHR 0x0A]) in ((key, names) # fs', r))"

definition Consumer_pass :: "remove_answers \<Rightarrow> u64 \<Rightarrow> FileTTL \<Rightarrow> FileTTL" where
  "Consumer_pass answers ss s =
     (let (fs, n, d, out) = consume answers ss (files_of s) (0, disk s, cout s)
      in s\<lparr>files_of := fs, disk := d, cout := out\<rparr>)"

section \<open>Datagrams\<close>

definition message_size :: nat where
  "message_size = 1024"

text \<open>
  The buffer after \<open>read\<close>: zeros when it failed, else the datagram, cut to the size of the buffer.
\<close>

definition read_datagram :: "bytes option \<Rightarrow> bytes" where
  "read_datagram dgram =
     (case dgram of
        None \<Rightarrow> replicate message_size 0
      | Some d \<Rightarrow> take message_size d @ replicate (message_size - length d) 0)"

definition decode_packet :: "bytes \<Rightarrow> (u64 \<times> string) result" where
  "decode_packet buffer =
     rbind (read_range buffer 0 4) (\<lambda>b.
       let path_size = (ucast (b ! 0) OR push_bit 8 (ucast (b ! 1)) OR push_bit 16 (ucast (b ! 2))
             OR push_bit 24 (ucast (b ! 3)) :: u64)
       in rbind (read_range buffer 4 (unat path_size)) (\<lambda>path.
          rbind (read_range buffer (4 + unat path_size) 8) (\<lambda>t.
            Inr (ucast (t ! 0) OR push_bit 8 (ucast (t ! 1)) OR push_bit 16 (ucast (t ! 2))
                 OR push_bit 24 (ucast (t ! 3)) OR push_bit 32 (ucast (t ! 4))
                 OR push_bit 40 (ucast (t ! 5)) OR push_bit 48 (ucast (t ! 6))
                 OR push_bit 56 (ucast (t ! 7)),
                 map char_of_byte path))))"

text \<open>One pass of the loop of \<open>Run\<close>.\<close>

definition Run_pass :: "bytes option \<Rightarrow> FileTTL \<Rightarrow> FileTTL result" where
  "Run_pass dgram s =
     rmap (\<lambda>(timestamp, path). InsertPair timestamp path s) (decode_packet (read_datagram dgram))"

text \<open>\<open>buffer[cursor++] = b\<close>.\<close>

fun put :: "(bytes \<times> nat) result \<Rightarrow> u8 \<Rightarrow> (bytes \<times> nat) result" where
  "put (Inl e) b = Inl e"
| "put (Inr (buffer, cursor)) b =
     (if cursor < length buffer then Inr (buffer[cursor := b], Suc cursor) else Inl Out_Of_Bounds)"

definition puts :: "bytes \<Rightarrow> (bytes \<times> nat) result \<Rightarrow> (bytes \<times> nat) result" where
  "puts bs r = foldl put r bs"

definition encode_packet :: "string \<Rightarrow> string \<Rightarrow> (bytes \<times> nat) result" where
  "encode_packet path timestamp =
     (let path_size = (of_nat (length path) :: u64);
          r = Inr (replicate message_size 0, 0);
          r = puts [ucast (0xff AND path_size), ucast (0xff AND drop_bit 8 path_size),
                    ucast (0xff AND drop_bit 16 path_size), ucast (0xff AND drop_bit 24 path_size)] r;
          r = puts (map byte_of path) r
      in rbind r (\<lambda>st. rbind (stoull timestamp 10) (\<lambda>t.
           puts [ucast (0xff AND t), ucast (0xff AND drop_bit 8 t), ucast (0xff AND drop_bit 16 t),
                 ucast (0xff AND drop_bit 24 t), ucast (0xff AND drop_bit 32 t),
                 ucast (0xff AND drop_bit 40 t), ucast (0xff AND drop_bit 48 t),
                 ucast (0xff AND drop_bit 56 t)] (Inr st))))"

section \<open>The client\<close>

text \<open>
  What the host answers: whether \<open>socket\<close> gives a descriptor and the result of \<open>sendto\<close>.
  \<open>send_message_fn\<close> gives what is printed and the datagram handed to \<open>sendto\<close>, if any.
\<close>

definition help_text :: string where
  "help_text = ''usage: '' @ [CHR 0x0A] @ ''  help - print this'' @ [CHR 0x0A]
     @ ''  send - send a message in the format of '' @ [CHR 0x27] @ ''path:unixtimestamp'' @ [CHR 0x27, CHR 0x0A]"

definition send_message_fn ::
  "bool \<Rightarrow> (bytes \<Rightarrow> int) \<Rightarrow> string \<Rightarrow> string \<Rightarrow> (string \<times> bytes option) result" where
  "send_message_fn sock_ok sendto path timestamp =
     (if \<not> sock_ok then Inr ([], None)
      else rmap (\<lambda>(buffer, cursor).
             (concat (map (\<lambda>b. print_int (sint b) @ '' '') buffer)
              @ ''sent '' @ print_int (sendto (take cursor buffer)) @ '' bytes'' @ [CHR 0x0A],
              Some (take cursor buffer)))
           (encode_packet path timestamp))"

text \<open>The body of the loop of \<open>ClientLoop\<close> for one line.\<close>

definition client_line :: "bool \<Rightarrow> (bytes \<Rightarrow> int) \<Rightarrow> string \<Rightarrow> (string \<times> bytes option) result" where
  "client_line sock_ok sendto input =
     (let out = (if input = ''help'' then help_text else []) in
      if \<not> contains ''send'' input then Inr (out, None)
      else case find_char (CHR '' '') input of
        None \<Rightarrow> Inr (out @ help_text, None)
      | Some offset \<Rightarrow>
          (let token = take (length input - offset - 1) (drop (offset + 1) input);
               out = out @ ''token: '' @ token @ [CHR 0x0A] in
           case find_char (CHR '':'') token of
             None \<Rightarrow> Inr (out @ ''bad format for path:timestamp. example: /tmp/blah/bleh:123123123''
                         @ [CHR 0x0A] @ help_text, None)
           | Some timestamp_offset \<Rightarrow>
               (let path = take timestamp_offset token;
                    unix_timestamp = take (length token - 1) (drop (timestamp_offset + 1) token)
                in rmap (\<lambda>(o', d). (out @ o', d)) (send_message_fn sock_ok sendto path unix_timestamp))))"

text \<open>
  \<open>ClientLoop\<close> over the lines of the input: the text it prints and the datagrams it sends. The
  prompt stands at the end of the body, so \<open>continue\<close> skips it.
\<close>

definition skips_prompt :: "string \<Rightarrow> bool" where
  "skips_prompt input \<longleftrightarrow> contains ''send'' input
     \<and> (case find_char (CHR '' '') input of
          None \<Rightarrow> True
        | Some offset \<Rightarrow> find_char (CHR '':'') (drop (offset + 1) input) = None)"

fun client_lines :: "bool \<Rightarrow> (bytes \<Rightarrow> int) \<Rightarrow> string list \<Rightarrow> (string \<times> bytes list) result" where
  "client_lines sock_ok sendto [] = Inr ([], [])"
| "client_lines sock_ok sendto (l # ls) =
     rbind (client_line sock_ok sendto l) (\<lambda>(o1, d).
     rmap (\<lambda>(o2, ds). (o1 @ (if skips_prompt l then [] else ''[fttl] '') @ o2,
                        (case d of None \<Rightarrow> ds | Some x \<Rightarrow> x # ds)))
       (client_lines sock_ok sendto ls))"

definition ClientLoop :: "bool \<Rightarrow> (bytes \<Rightarrow> int) \<Rightarrow> string list \<Rightarrow> (string \<times> bytes list) result" where
  "ClientLoop sock_ok sendto ls =
     rmap (\<lambda>(out, ds). (''[fttl] '' @ out, ds)) (client_lines sock_ok sendto ls)"


section \<open>Options and the socket\<close>

record session =
  server_mode_flag :: bool
  client_mode_flag :: bool

datatype fttl_mode = Server_Mode | Client_Mode | Usage_Exit

text \<open>
  The loop over the options that \<open>getopt\<close> returns, with the number of times the usage is printed,
  and what \<open>main\<close> does then.
\<close>

fun fttl_option :: "session \<times> nat \<Rightarrow> char \<Rightarrow> session \<times> nat" where
  "fttl_option (s, usages) opt =
     (if opt = CHR ''s'' then (s\<lparr>server_mode_flag := True\<rparr>, usages)
      else if opt = CHR ''c'' then (s\<lparr>client_mode_flag := True\<rparr>, usages)
      else (s, Suc usages))"

definition fttl_main :: "string \<Rightarrow> fttl_mode \<times> nat" where
  "fttl_main opts =
     (let (s, usages) = foldl fttl_option (\<lparr>server_mode_flag = False, client_mode_flag = False\<rparr>, 0) opts in
      if server_mode_flag s then (Server_Mode, usages)
      else if client_mode_flag s then (Client_Mode, usages)
      else (Usage_Exit, Suc usages))"

text \<open>The server's socket: the answers of \<open>socket\<close> and \<open>bind\<close>, and what the destructor closes.\<close>

definition InitSocket :: "int \<Rightarrow> int \<Rightarrow> int result" where
  "InitSocket socket_result bind_result =
     (if socket_result = - 1 then Inl (Thrown ''could not create socket'')
      else if bind_result = - 1 then Inl (Thrown ''could not bind address'')
      else Inr socket_result)"

definition DeinitSocket :: "int \<Rightarrow> int list" where
  "DeinitSocket server_fd = (if server_fd = 0 then [server_fd] else [])"

section \<open>Executions\<close>

text \<open>
  The events of the service: a datagram (or a failed read) handled by \<open>Run\<close>, a pass of \<open>Consumer\<close>
  at a time and with the host's answers, and a file that somebody else puts on the disk.
\<close>

datatype event = Receive "bytes option" | Tick u64 remove_answers | Touch string

fun service_step :: "event \<Rightarrow> FileTTL \<Rightarrow> FileTTL result" where
  "service_step (Receive dgram) s = Run_pass dgram s"
| "service_step (Tick ss answers) s = Inr (Consumer_pass answers ss s)"
| "service_step (Touch p) s = Inr (s\<lparr>disk := insert p (disk s)\<rparr>)"

fun service :: "event list \<Rightarrow> FileTTL \<Rightarrow> FileTTL result" where
  "service [] s = Inr s"
| "service (e # es) s = rbind (service_step e s) (service es)"

text \<open>
  The promise: a list of deadlines and paths, in the order of the deadlines and, for one deadline, of arrival. A tick
  takes what is due from it, and from the disk those of the due paths whose removal the host grants.
\<close>

type_synonym promise = "(u64 \<times> string) list \<times> string set"

definition insert_due :: "u64 \<times> string \<Rightarrow> (u64 \<times> string) list \<Rightarrow> (u64 \<times> string) list" where
  "insert_due tp L = filter (\<lambda>e. fst e \<le> fst tp) L @ tp # filter (\<lambda>e. fst tp < fst e) L"

definition granted :: "remove_answers \<Rightarrow> nat \<Rightarrow> (u64 \<times> string) list \<Rightarrow> string list" where
  "granted answers n due =
     map snd (filter (\<lambda>(i, p). answers i p) (enumerate n (map (c_str \<circ> snd) due)))"

fun promise_step :: "event \<Rightarrow> promise \<Rightarrow> promise result" where
  "promise_step (Receive dgram) (L, D) =
     rmap (\<lambda>tp. (insert_due tp L, D)) (decode_packet (read_datagram dgram))"
| "promise_step (Tick ss answers) (L, D) =
     Inr (filter (\<lambda>e. ss < fst e) L, D - set (granted answers 0 (filter (\<lambda>e. fst e \<le> ss) L)))"
| "promise_step (Touch p) (L, D) = Inr (L, insert p D)"

fun promise_run :: "event list \<Rightarrow> promise \<Rightarrow> promise result" where
  "promise_run [] P = Inr P"
| "promise_run (e # es) P = rbind (promise_step e P) (promise_run es)"

definition schedule :: "files \<Rightarrow> (u64 \<times> string) list" where
  "schedule fs = concat (map (\<lambda>(t, ps). map (Pair t) ps) fs)"

definition abs_ttl :: "FileTTL \<Rightarrow> promise" where
  "abs_ttl s = (schedule (files_of s), disk s)"

definition ttl_ok :: "FileTTL \<Rightarrow> bool" where
  "ttl_ok s \<longleftrightarrow> sorted_wrt (<) (map fst (files_of s)) \<and> [] \<notin> snd ` set (files_of s)"

section \<open>The map keeps its order and its contents\<close>

lemma schedule_simps [simp]:
  "schedule [] = []" "schedule ((t, ps) # fs) = map (Pair t) ps @ schedule fs"
  by (simp_all add: schedule_def)

lemma set_schedule: "set (schedule fs) = {(t, p). \<exists>ps. (t, ps) \<in> set fs \<and> p \<in> set ps}"
  by (induction fs) auto

lemma map_insert_keys: "set (map_insert t v fs) = insert (t, v) (set fs)"
  by (induction t v fs rule: map_insert.induct) auto

lemma map_insert_sorted:
  "sorted_wrt (<) (map fst fs) \<Longrightarrow> map_of fs t = None \<Longrightarrow> sorted_wrt (<) (map fst (map_insert t v fs))"
proof (induction t v fs rule: map_insert.induct)
  case (2 t v k w fs)
  then show ?case by (auto simp: map_insert_keys split: if_splits)
qed simp

lemma schedule_above:
  "\<forall>e\<in>set fs. t < fst e \<Longrightarrow> filter (\<lambda>e. fst e \<le> t) (schedule fs) = [] \<and> filter (\<lambda>e. t < fst e) (schedule fs) = schedule fs"
  by (fastforce simp: set_schedule filter_empty_conv filter_id_conv not_le)

lemma schedule_map_insert:
  "sorted_wrt (<) (map fst fs) \<Longrightarrow> map_of fs t = None \<Longrightarrow>
   schedule (map_insert t [p] fs) = insert_due (t, p) (schedule fs)"
proof (induction t "[p]" fs rule: map_insert.induct)
  case (2 t k w fs)
  show ?case
  proof (cases "t < k")
    case True
    then have "\<forall>e\<in>set ((k, w) # fs). t < fst e" using 2(2) by auto
    from schedule_above [OF this] show ?thesis using True by (simp add: insert_due_def)
  next
    case False
    then have "k < t" using 2(3) by (auto split: if_splits)
    then show ?thesis using False 2 by (simp add: insert_due_def less_imp_le split: if_splits)
  qed
qed (simp add: insert_due_def)

lemma map_push_keys: "map fst (map_push t p fs) = map fst fs"
  by (induction t p fs rule: map_push.induct) auto

lemma map_push_nonempty: "[] \<notin> snd ` set fs \<Longrightarrow> [] \<notin> snd ` set (map_push t p fs)"
  by (induction t p fs rule: map_push.induct) auto

lemma schedule_map_push:
  "sorted_wrt (<) (map fst fs) \<Longrightarrow> map_of fs t \<noteq> None \<Longrightarrow>
   schedule (map_push t p fs) = insert_due (t, p) (schedule fs)"
proof (induction t p fs rule: map_push.induct)
  case (2 t p k w fs)
  show ?case
  proof (cases "k = t")
    case True
    then have "\<forall>e\<in>set fs. t < fst e" using 2(2) by auto
    from schedule_above [OF this] show ?thesis using True by (simp add: insert_due_def)
  next
    case False
    then obtain v where v: "(t, v) \<in> set fs" using 2(3) by (auto dest: map_of_SomeD)
    then have "k < t" "\<not> t < k" using 2(2) by auto
    then show ?thesis using False 2 by (auto simp: insert_due_def filter_map comp_def less_imp_le)
  qed
qed simp

lemma InsertPair_ok: "ttl_ok s \<Longrightarrow> ttl_ok (InsertPair t p s)"
  using map_insert_sorted [of "files_of s" t "[p]"] map_push_nonempty [of "files_of s" t p]
  by (auto simp: ttl_ok_def InsertPair_def map_insert_keys map_push_keys Let_def split: option.splits)

lemma InsertPair_abs:
  "ttl_ok s \<Longrightarrow> abs_ttl (InsertPair t p s) = (insert_due (t, p) (schedule (files_of s)), disk s)"
  by (auto simp: abs_ttl_def ttl_ok_def InsertPair_def schedule_map_insert schedule_map_push Let_def split: option.splits)

lemma granted_append: "granted a n (xs @ ys) = granted a n xs @ granted a (n + length xs) ys"
  by (simp add: granted_def enumerate_append_eq)

lemma granted_set: "p \<in> set (granted a n due) \<longleftrightarrow> (\<exists>i<length due. c_str (snd (due ! i)) = p \<and> a (n + i) p)"
proof (induction due arbitrary: n)
  case (Cons e due)
  have "granted a n (e # due) = (if a n (c_str (snd e)) then [c_str (snd e)] else []) @ granted a (Suc n) due"
    by (simp add: granted_def)
  then show ?case using Cons [of "Suc n"] by (auto simp: less_Suc_eq_0_disj)
qed (simp add: granted_def)

lemma remove_all_disk:
  "\<exists>out'. remove_all a key names (n, d, out) = (n + length names, d - set (granted a n (map (Pair key) names)), out')"
proof (induction names arbitrary: n d out)
  case (Cons p names)
  have "granted a n (map (Pair key) (p # names)) =
      (if a n (c_str p) then [c_str p] else []) @ granted a (Suc n) (map (Pair key) names)"
    by (simp add: granted_def)
  then have names: "d - set (granted a n (map (Pair key) (p # names))) =
      (if c_str p \<notin> d \<or> \<not> a n (c_str p) then d else d - {c_str p}) - set (granted a (Suc n) (map (Pair key) names))"
    by auto
  show ?case unfolding names using Cons.IH [of "Suc n"] by (simp add: Let_def)
qed (simp add: granted_def)

lemma schedule_filter: "schedule (filter (\<lambda>e. P (fst e)) fs) = filter (\<lambda>e. P (fst e)) (schedule fs)"
  by (induction fs) (auto simp: filter_map comp_def)

lemma consume_eq:
  "\<exists>out'. consume a ss fs (n, d, out) =
    (filter (\<lambda>e. ss < fst e) fs, n + length (filter (\<lambda>e. fst e \<le> ss) (schedule fs)),
     d - set (granted a n (filter (\<lambda>e. fst e \<le> ss) (schedule fs))), out')"
proof (induction fs arbitrary: n d out)
  case (Cons e fs)
  obtain key names where e: "e = (key, names)" by (cases e)
  show ?case
  proof (cases "key \<le> ss")
    case True
    have due: "filter (\<lambda>e. fst e \<le> ss) (schedule (e # fs)) =
        map (Pair key) names @ filter (\<lambda>e. fst e \<le> ss) (schedule fs)"
      using True by (simp add: e filter_map comp_def)
    obtain out1 where r: "remove_all a key names (n, d, out @ print_nat 10 (unat key) @ '' '') =
        (n + length names, d - set (granted a n (map (Pair key) names)), out1)"
      using remove_all_disk by blast
    show ?thesis
      using True r Cons.IH [of "n + length names" "d - set (granted a n (map (Pair key) names))" "out1 @ ''.'' @ [CHR 0x0A]"]
      unfolding due by (auto simp: e granted_append Diff_eq ac_simps)
  next
    case False
    then have "filter (\<lambda>e. fst e \<le> ss) (schedule (e # fs)) = filter (\<lambda>e. fst e \<le> ss) (schedule fs)"
      by (simp add: e filter_map comp_def)
    then show ?thesis
      using False Cons.IH [of n d "(out @ print_nat 10 (unat key) @ '' '') @ ''.'' @ [CHR 0x0A]"]
      by (auto simp: e Let_def)
  qed
qed (simp add: granted_def)

lemma Consumer_pass_parts:
  "files_of (Consumer_pass a ss s) = filter (\<lambda>e. ss < fst e) (files_of s)"
  "disk (Consumer_pass a ss s) = disk s - set (granted a 0 (filter (\<lambda>e. fst e \<le> ss) (schedule (files_of s))))"
  using consume_eq [of a ss "files_of s" 0 "disk s" "cout s"] by (auto simp: Consumer_pass_def)

lemma Consumer_pass_ok: "ttl_ok s \<Longrightarrow> ttl_ok (Consumer_pass a ss s)"
  unfolding ttl_ok_def Consumer_pass_parts
  by (auto simp: sorted_wrt_map sorted_wrt_filter)

lemma Consumer_pass_abs: "promise_step (Tick ss a) (abs_ttl s) = Inr (abs_ttl (Consumer_pass a ss s))"
  by (simp add: abs_ttl_def Consumer_pass_parts schedule_filter)

section \<open>The promise is kept\<close>

definition start :: "string set \<Rightarrow> FileTTL" where
  "start d = \<lparr>files_of = [], disk = d, cout = []\<rparr>"

lemma service_step_abs: "ttl_ok s \<Longrightarrow> promise_step e (abs_ttl s) = rmap abs_ttl (service_step e s)"
proof (cases e)
  case (Receive dgram)
  then show "ttl_ok s \<Longrightarrow> ?thesis"
    by (cases "decode_packet (read_datagram dgram)")
      (auto simp: Run_pass_def InsertPair_abs abs_ttl_def [of s])
next
  case (Tick ss a)
  then show ?thesis by (simp only: service_step.simps rmap.simps Consumer_pass_abs)
qed (simp add: abs_ttl_def)

lemma service_step_ok: "service_step e s = Inr s' \<Longrightarrow> ttl_ok s \<Longrightarrow> ttl_ok s'"
  by (cases e) (auto simp: Run_pass_def InsertPair_ok Consumer_pass_ok fault_simps, simp add: ttl_ok_def)

lemma service_abs: "ttl_ok s \<Longrightarrow> promise_run es (abs_ttl s) = rmap abs_ttl (service es s)"
proof (induction es arbitrary: s)
  case (Cons e es)
  then show ?case
    using service_step_ok [of e s] by (cases "service_step e s") (simp_all add: service_step_abs)
qed simp

lemma service_ok: "service es s = Inr s' \<Longrightarrow> ttl_ok s \<Longrightarrow> ttl_ok s'"
  by (induction es arbitrary: s) (auto simp: fault_simps dest: service_step_ok)

lemma start_ok: "ttl_ok (start d)" "abs_ttl (start d) = ([], d)"
  by (simp_all add: start_def ttl_ok_def abs_ttl_def)

text \<open>C4:
  The service keeps its promise: whatever datagrams arrive, whenever the consumer wakes up and whichever removals the
  host refuses, the map holds exactly the deadlines and paths that are not yet due, in the order of the deadlines and of
  arrival, the disk has lost exactly the due paths whose removal was granted, and the service fails exactly where a
  datagram cannot be decoded. A path whose removal is refused is forgotten like the others. The map stays ordered by
  deadline, with at least one path for every deadline.\<close>

theorem fttl_refines:
  "promise_run es ([], d) = rmap abs_ttl (service es (start d))
   \<and> (case service es (start d) of Inl _ \<Rightarrow> True | Inr s \<Rightarrow> ttl_ok s)"
  using service_abs [of "start d" es] service_ok [of es "start d"]
  by (simp add: start_ok split: sum.split)

lemma service_append: "service (xs @ ys) s = rbind (service xs s) (service ys)"
proof (induction xs arbitrary: s)
  case (Cons x xs)
  then show ?case by (cases "service_step x s") simp_all
qed simp

lemma promise_run_append: "promise_run (xs @ ys) P = rbind (promise_run xs P) (promise_run ys)"
proof (induction xs arbitrary: P)
  case (Cons x xs)
  then show ?case by (cases "promise_step x P") simp_all
qed simp

definition received :: "event list \<Rightarrow> u64 \<Rightarrow> string \<Rightarrow> bool" where
  "received es t q \<longleftrightarrow> (\<exists>dgram. Receive dgram \<in> set es \<and> decode_packet (read_datagram dgram) = Inr (t, q))"

lemma set_insert_due: "set (insert_due tp L) = insert tp (set L)"
  by (auto simp: insert_due_def)

lemma promise_pending:
  "promise_run es (L, D) = Inr (L', D') \<Longrightarrow> (t, q) \<in> set L' \<Longrightarrow> (t, q) \<in> set L \<or> received es t q"
proof (induction es arbitrary: L D)
  case (Cons e es)
  then obtain L1 D1 where step: "promise_step e (L, D) = Inr (L1, D1)"
    and run: "promise_run es (L1, D1) = Inr (L', D')" by (auto simp: fault_simps)
  from Cons.IH [OF run Cons.prems(2)] show ?case
    using step by (cases e) (auto simp: received_def fault_simps set_insert_due)
qed simp

lemma promise_early:
  "promise_run es (L, D) = Inr (L', D') \<Longrightarrow> p \<in> D \<Longrightarrow> p \<notin> D' \<Longrightarrow>
   \<exists>ss a i t q. Tick ss a \<in> set es \<and> a i p \<and> t \<le> ss \<and> c_str q = p \<and> ((t, q) \<in> set L \<or> received es t q)"
proof (induction es arbitrary: L D)
  case (Cons e es)
  then obtain L1 D1 where step: "promise_step e (L, D) = Inr (L1, D1)"
    and run: "promise_run es (L1, D1) = Inr (L', D')" by (auto simp: fault_simps)
  show ?case
  proof (cases "p \<in> D1")
    case True
    then obtain ss a i t q where h: "Tick ss a \<in> set es" "a i p" "t \<le> ss" "c_str q = p" "(t, q) \<in> set L1 \<or> received es t q"
      using Cons.IH [OF run _ Cons.prems(3)] by blast
    then have "(t, q) \<in> set L \<or> received (e # es) t q"
      using promise_pending [of "[e]" L D L1 D1 t q] step by (auto simp: received_def)
    then show ?thesis using h by (intro exI [of _ ss] exI [of _ a] exI [of _ i] exI [of _ t] exI [of _ q]) simp
  next
    case False
    then obtain ss a where e: "e = Tick ss a" and D1: "D1 = D - set (granted a 0 (filter (\<lambda>e. fst e \<le> ss) L))"
      using step Cons.prems(2) by (cases e) (auto simp: fault_simps)
    let ?due = "filter (\<lambda>e. fst e \<le> ss) L"
    have "p \<in> set (granted a 0 ?due)" using False Cons.prems(2) D1 by blast
    then obtain i where i: "i < length ?due" "c_str (snd (?due ! i)) = p" "a i p" by (auto simp: granted_set)
    have "?due ! i \<in> set ?due" using i(1) by (rule nth_mem)
    then show ?thesis
      using i e by (intro exI [of _ ss] exI [of _ a] exI [of _ i] exI [of _ "fst (?due ! i)"] exI [of _ "snd (?due ! i)"]) simp
  qed
qed simp

text \<open>A tick whose removals of a path are granted.\<close>

definition grants :: "string \<Rightarrow> event \<Rightarrow> bool" where
  "grants p e \<longleftrightarrow> (case e of Tick ss a \<Rightarrow> (\<forall>i. a i p) | _ \<Rightarrow> True)"

lemma promise_tick:
  assumes "promise_step (Tick ss a) (L, D) = Inr (L', D')" and "grants (c_str q) (Tick ss a)"
    and "(t, q) \<in> set L" and "t \<le> ss"
  shows "c_str q \<notin> D'"
proof -
  have "(t, q) \<in> set (filter (\<lambda>e. fst e \<le> ss) L)" using assms(3,4) by simp
  then obtain i where "i < length (filter (\<lambda>e. fst e \<le> ss) L)" "filter (\<lambda>e. fst e \<le> ss) L ! i = (t, q)"
    by (metis in_set_conv_nth)
  then have "c_str q \<in> set (granted a 0 (filter (\<lambda>e. fst e \<le> ss) L))"
    using assms(2) by (auto simp: granted_set grants_def)
  then show ?thesis using assms(1) by auto
qed

lemma promise_due:
  "promise_run es (L, D) = Inr (L', D') \<Longrightarrow> Touch (c_str q) \<notin> set es \<Longrightarrow> \<forall>e\<in>set es. grants (c_str q) e \<Longrightarrow>
   (t, q) \<in> set L \<or> c_str q \<notin> D \<Longrightarrow> (t, q) \<in> set L' \<or> c_str q \<notin> D'"
proof (induction es arbitrary: L D)
  case (Cons e es)
  then obtain L1 D1 where step: "promise_step e (L, D) = Inr (L1, D1)"
    and run: "promise_run es (L1, D1) = Inr (L', D')" by (auto simp: fault_simps)
  have "(t, q) \<in> set L1 \<or> c_str q \<notin> D1"
  proof (cases e)
    case (Tick ss a)
    then show ?thesis
      using step Cons.prems(3,4) promise_tick [of ss a L D L1 D1 q t] by (cases "t \<le> ss") (auto simp: not_le)
  qed (use step Cons.prems in \<open>auto simp: fault_simps set_insert_due\<close>)
  then show ?case using Cons.IH [OF run] Cons.prems by simp
qed simp

text \<open>C30:
  No file is removed early: a file of the disk that is gone had a deadline, sent in some datagram, that was not after the
  time of a tick at which its removal was granted. None is forgotten that the host lets go: after a tick at or after the
  deadline of a received path the file is gone, if the host granted its removal at the ticks since and nobody put it on
  the disk again. But after any tick nothing due is left in the map, so a file whose removal was refused has lost its
  deadline.\<close>

theorem deadlines_kept:
  assumes "service es (start d) = Inr s"
  shows "(\<forall>p\<in>d. p \<notin> disk s \<longrightarrow>
            (\<exists>ss a i t q. Tick ss a \<in> set es \<and> a i p \<and> t \<le> ss \<and> c_str q = p \<and> received es t q))
    \<and> (\<forall>xs dgram ys ss a t q. es = xs @ Receive dgram # ys @ [Tick ss a]
            \<and> decode_packet (read_datagram dgram) = Inr (t, q) \<and> t \<le> ss \<and> Touch (c_str q) \<notin> set ys
            \<and> (\<forall>e\<in>set (ys @ [Tick ss a]). grants (c_str q) e)
          \<longrightarrow> c_str q \<notin> disk s)
    \<and> (\<forall>xs ss a. es = xs @ [Tick ss a] \<longrightarrow> (\<forall>(t, ps)\<in>set (files_of s). ss < t))"
proof (intro conjI ballI allI impI)
  have run: "promise_run es ([], d) = Inr (schedule (files_of s), disk s)"
    using service_abs [of "start d" es] assms by (simp add: start_ok) (simp add: abs_ttl_def)
  show "\<exists>ss a i t q. Tick ss a \<in> set es \<and> a i p \<and> t \<le> ss \<and> c_str q = p \<and> received es t q"
    if "p \<in> d" "p \<notin> disk s" for p
    using promise_early [OF run that] by simp
  show "c_str q \<notin> disk s"
    if h: "es = xs @ Receive dgram # ys @ [Tick ss a]
        \<and> decode_packet (read_datagram dgram) = Inr (t, q) \<and> t \<le> ss \<and> Touch (c_str q) \<notin> set ys
        \<and> (\<forall>e\<in>set (ys @ [Tick ss a]). grants (c_str q) e)"
    for xs dgram ys ss a t q
  proof -
    obtain L1 D1 where "promise_run xs ([], d) = Inr (L1, D1)"
      and "promise_run (ys @ [Tick ss a]) (insert_due (t, q) L1, D1) = Inr (schedule (files_of s), disk s)"
      using run h by (auto simp: promise_run_append fault_simps simp del: promise_run_append [of ys])
    then obtain L2 D2 where "promise_run ys (insert_due (t, q) L1, D1) = Inr (L2, D2)"
      and tick: "promise_step (Tick ss a) (L2, D2) = Inr (schedule (files_of s), disk s)"
      by (auto simp: promise_run_append fault_simps simp del: promise_step.simps)
    then have "(t, q) \<in> set L2 \<or> c_str q \<notin> D2"
      using promise_due [of ys _ D1 L2 D2 q t] h by (auto simp: set_insert_due)
    then show ?thesis using promise_tick [OF tick, of q t] tick h by auto
  qed
  show "case e of (t, ps) \<Rightarrow> ss < t" if h: "es = xs @ [Tick ss a]" and e: "e \<in> set (files_of s)" for xs ss a e
  proof -
    obtain s1 where "s = Consumer_pass a ss s1" using assms h by (auto simp: service_append fault_simps)
    then show ?thesis using e by (auto simp: Consumer_pass_parts)
  qed
qed

text \<open>A refused file stays for good: the next ticks do not try again.\<close>

lemma refused_stays:
  assumes "disk s = {''/a''}" and "files_of s = [(7, [''/a''])]"
  shows "disk (Consumer_pass (\<lambda>_ _. True) ss (Consumer_pass (\<lambda>_ _. False) 9 s)) = {''/a''}"
  using assms by (simp add: Consumer_pass_parts granted_def)

section \<open>The datagram of the client\<close>

lemma puts_append:
  "puts bs (Inr (pre @ rest, length pre)) =
     (if length bs \<le> length rest then Inr (pre @ bs @ drop (length bs) rest, length pre + length bs)
      else Inl Out_Of_Bounds)"
proof (induction bs arbitrary: pre rest)
  case (Cons b bs)
  have inl: "puts bs (Inl Out_Of_Bounds) = Inl Out_Of_Bounds" for bs
    by (induction bs) (simp_all add: puts_def)
  show ?case
  proof (cases rest)
    case Nil
    then show ?thesis using inl [of bs] by (simp add: puts_def)
  next
    case (Cons r rs)
    then show ?thesis using Cons.IH [of "pre @ [b]" rs] by (simp add: puts_def)
  qed
qed (simp add: puts_def)

lemma ucast_low: "ucast (0xff AND x) = (ucast (x :: u64) :: u8)"
proof -
  have eq: "(0xff :: u64) = mask 8" by (simp add: mask_eq_exp_minus_1)
  show ?thesis unfolding eq by (rule bit_word_eqI) (auto simp: bit_simps)
qed


lemma le_bytes_masked:
  "le_bytes 8 t = [ucast (0xff AND t), ucast (0xff AND drop_bit 8 t), ucast (0xff AND drop_bit 16 t),
     ucast (0xff AND drop_bit 24 t), ucast (0xff AND drop_bit 32 t), ucast (0xff AND drop_bit 40 t),
     ucast (0xff AND drop_bit 48 t), ucast (0xff AND drop_bit 56 (t :: u64))]"
  "le_bytes 4 t = [ucast (0xff AND t), ucast (0xff AND drop_bit 8 t), ucast (0xff AND drop_bit 16 t),
     ucast (0xff AND drop_bit 24 t)]"
  by (simp_all only: ucast_low) (simp_all add: numeral_eq_Suc drop_bit_drop_bit)

definition packet :: "string \<Rightarrow> u64 \<Rightarrow> bytes" where
  "packet path t = le_bytes 4 (of_nat (length path) :: u64) @ map byte_of path @ le_bytes 8 t"

lemma encode_packet_eq:
  "encode_packet path timestamp =
     (if message_size < 4 + length path then Inl Out_Of_Bounds
      else rbind (stoull timestamp 10) (\<lambda>t.
        if message_size < length (packet path t) then Inl Out_Of_Bounds
        else Inr (packet path t @ replicate (message_size - length (packet path t)) 0,
                  length (packet path t))))"
proof -
  let ?l = "le_bytes 4 (of_nat (length path) :: u64)" and ?p = "map byte_of path"
  have a: "puts ?l (Inr (replicate message_size 0, 0)) = Inr (?l @ replicate (message_size - 4) 0, 4)"
    using puts_append [of ?l "[]" "replicate message_size 0"] by (simp add: message_size_def)
  have b: "puts ?p (Inr (?l @ replicate (message_size - 4) 0, 4)) =
      (if message_size < 4 + length path then Inl Out_Of_Bounds
       else Inr ((?l @ ?p) @ replicate (message_size - (4 + length path)) 0, 4 + length path))"
    using puts_append [of ?p ?l "replicate (message_size - 4) 0"] by (simp add: message_size_def)
  have c: "puts (le_bytes 8 t) (Inr ((?l @ ?p) @ replicate (message_size - (4 + length path)) 0, 4 + length path)) =
      (if message_size < length (packet path t) then Inl Out_Of_Bounds
       else Inr (packet path t @ replicate (message_size - length (packet path t)) 0, length (packet path t)))"
    if "4 + length path \<le> message_size" for t
    using puts_append [of "le_bytes 8 t" "?l @ ?p" "replicate (message_size - (4 + length path)) 0"] that
    by (auto simp: packet_def message_size_def)
  show ?thesis
    unfolding encode_packet_def Let_def le_bytes_masked [symmetric] a b
    by (cases "message_size < 4 + length path"; cases "stoull timestamp 10")
      (simp_all only: c [OF leI] rbind.simps if_True if_False not_False_eq_True simp_thms)
qed

lemma length_packet [simp]: "length (packet path t) = 12 + length path"
  by (simp add: packet_def)

lemma decode_packet_eq:
  "decode_packet buffer =
     rbind (read_range buffer 0 4) (\<lambda>b.
       let n = unat (le_value b :: u64) in
       rbind (read_range buffer 4 n) (\<lambda>path.
       rbind (read_range buffer (4 + n) 8) (\<lambda>t. Inr (le_value t, map char_of_byte path))))"
  unfolding decode_packet_def Let_def
proof (rule rbind_cong [OF refl])
  fix b
  assume "read_range buffer 0 4 = Inr b"
  then have b: "length b = 4" by (auto dest: read_range_length)
  show "rbind (read_range buffer 4 (unat (ucast (b ! 0) OR push_bit 8 (ucast (b ! 1)) OR push_bit 16 (ucast (b ! 2))
             OR push_bit 24 (ucast (b ! 3)) :: u64))) (\<lambda>path.
          rbind (read_range buffer (4 + unat (ucast (b ! 0) OR push_bit 8 (ucast (b ! 1)) OR push_bit 16 (ucast (b ! 2))
             OR push_bit 24 (ucast (b ! 3)) :: u64)) 8) (\<lambda>t.
            Inr (ucast (t ! 0) OR push_bit 8 (ucast (t ! 1)) OR push_bit 16 (ucast (t ! 2))
                 OR push_bit 24 (ucast (t ! 3)) OR push_bit 32 (ucast (t ! 4))
                 OR push_bit 40 (ucast (t ! 5)) OR push_bit 48 (ucast (t ! 6))
                 OR push_bit 56 (ucast (t ! 7)), map char_of_byte path)))
      = rbind (read_range buffer 4 (unat (le_value b :: u64))) (\<lambda>path.
          rbind (read_range buffer (4 + unat (le_value b :: u64)) 8) (\<lambda>t. Inr (le_value t, map char_of_byte path)))"
    unfolding le_value_4 [OF b, symmetric]
    by (intro rbind_cong refl) (auto simp: le_value_8 dest: read_range_length)
qed

lemma length_read_datagram [simp]: "length (read_datagram dgram) = message_size"
  by (cases dgram) (auto simp: read_datagram_def)

lemma decode_packet_packet:
  assumes "length path \<le> 1012"
  shows "decode_packet (read_datagram (Some (packet path t))) = Inr (t, path)"
proof -
  let ?z = "replicate (message_size - length (packet path t)) (0 :: u8)"
  have buf: "read_datagram (Some (packet path t)) =
      le_bytes 4 (of_nat (length path) :: u64) @ map byte_of path @ le_bytes 8 t @ ?z"
    using assms by (simp add: read_datagram_def message_size_def) (simp add: packet_def)
  have n: "(le_value (le_bytes 4 (of_nat (length path) :: u64)) :: u64) = of_nat (length path)"
    using assms by (simp add: le_value_le_bytes)
      (simp add: word_unat_eq_iff unsigned_take_bit_eq unat_of_nat take_bit_nat_eq_self_iff)
  have u: "unat (of_nat (length path) :: u64) = length path"
    using assms by (simp add: unat_of_nat)
  show ?thesis
    using n u by (simp add: decode_packet_eq buf read_range_def byte_simps comp_def)
qed


lemma find_char_send: "find_char (CHR '' '') (''send '' @ s) = Some 4"
  by (simp add: numeral_eq_Suc)

lemma contains_send: "contains ''send'' (''send '' @ s)"
  by simp

lemma client_line_send:
  assumes "CHR '':'' \<notin> set path"
  shows "client_line True sendto (''send '' @ path @ CHR '':'' # ts) =
      rmap (\<lambda>(o', d). (''token: '' @ (path @ CHR '':'' # ts) @ [CHR 0x0A] @ o', d))
        (send_message_fn True sendto path ts)"
proof -
  let ?in = "''send '' @ path @ CHR '':'' # ts" and ?tok = "path @ CHR '':'' # ts"
  have tok: "take (length ?in - 4 - 1) (drop (4 + 1) ?in) = ?tok" by simp
  have ts: "take (length ?tok - 1) (drop (length path + 1) ?tok) = ts" by simp
  have col: "find_char (CHR '':'') ?tok = Some (length path)" by (rule find_char_append [OF assms])
  have nohelp: "?in \<noteq> ''help''" by simp
  have pth: "take (length path) ?tok = path" by simp
  show ?thesis
    unfolding client_line_def Let_def tok find_char_send option.case col ts pth
    by (simp only: if_not_P [OF nohelp] contains_send not_True_eq_False if_False append_Nil append_assoc)
qed

text \<open>C29: what the user asks the client for is what the server stores: for a path without a colon of at most 1012
  characters, the line \<open>send path:t\<close> makes the client send a datagram from which the server
  inserts that path with that deadline; a longer path overruns the client's buffer.\<close>

theorem client_server_roundtrip:
  assumes "CHR '':'' \<notin> set path"
  shows "if length path \<le> 1012
    then \<exists>out d. client_line True sendto (''send '' @ path @ CHR '':'' # print_nat 10 (unat t)) = Inr (out, Some d)
           \<and> length d = 12 + length path \<and> Run_pass (Some d) s = Inr (InsertPair t path s)
    else client_line True sendto (''send '' @ path @ CHR '':'' # print_nat 10 (unat t)) = Inl Out_Of_Bounds"
proof -
  have "unat t < 2 ^ 64" using unsigned_less [of t, where ?'a = nat] by simp
  then have ts: "stoull (print_nat 10 (unat t)) 10 = Inr t"
    by (simp add: stoull_def scan_number_print_nat)
  show ?thesis
  proof (cases "length path \<le> 1012")
    case True
    then have enc: "encode_packet path (print_nat 10 (unat t)) =
        Inr (packet path t @ replicate (1012 - length path) 0, 12 + length path)"
      by (simp add: encode_packet_eq ts message_size_def)
    have "Run_pass (Some (packet path t)) s = Inr (InsertPair t path s)"
      using decode_packet_packet [OF True, of t] by (simp add: Run_pass_def)
    moreover obtain out where "client_line True sendto (''send '' @ path @ CHR '':'' # print_nat 10 (unat t))
        = Inr (out, Some (packet path t))"
      unfolding client_line_send [OF assms] using enc by (simp add: send_message_fn_def)
    moreover have "length (packet path t) = 12 + length path" by simp
    ultimately show ?thesis unfolding if_P [OF True] by blast
  next
    case False
    then have "encode_packet path (print_nat 10 (unat t)) = Inl Out_Of_Bounds"
      by (simp add: encode_packet_eq ts message_size_def)
    then show ?thesis unfolding if_not_P [OF False] client_line_send [OF assms] by (simp add: send_message_fn_def)
  qed
qed

theorem client_server_roundtrip_witness:
  "\<exists>out d. client_line True (\<lambda>_. 15) ''send /a:7'' = Inr (out, Some d) \<and> length d = 14
     \<and> Run_pass (Some d) (start {}) = Inr (InsertPair 7 ''/a'' (start {}))"
proof -
  have "print_nat 10 (unat (7 :: u64)) = ''7''" by code_simp
  then show ?thesis
    using client_server_roundtrip [of "''/a''" "\<lambda>_. 15" 7 "start {}"] by simp
qed

text \<open>The witness of the deadlines: a file with the deadline 7 is gone after a tick at 9 at which the host lets it go.\<close>

theorem deadlines_kept_witness:
  "''/a'' \<notin> disk (Consumer_pass (\<lambda>_ _. True) 9 (InsertPair 7 ''/a'' (start {''/a''})))"
proof -
  let ?p = "packet ''/a'' 7"
  have d: "decode_packet (read_datagram (Some ?p)) = Inr (7, ''/a'')" by (rule decode_packet_packet) simp
  then have "service [Receive (Some ?p), Tick 9 (\<lambda>_ _. True)] (start {''/a''})
      = Inr (Consumer_pass (\<lambda>_ _. True) 9 (InsertPair 7 ''/a'' (start {''/a''})))"
    by (simp add: Run_pass_def)
  note k = deadlines_kept [OF this, THEN conjunct2, THEN conjunct1, rule_format, of "[]" "Some ?p" "[]" 9 "\<lambda>_ _. True" 7 "''/a''"]
  have "c_str ''/a'' = ''/a''" by (simp add: c_str_def)
  then show ?thesis using k d by (simp add: grants_def)
qed

text \<open>The server trusts its input: a datagram is read out of bounds exactly when its size field exceeds 1012, a
  failed read is taken for an empty path with the deadline 0, and the destructor leaves the socket open.\<close>

theorem server_trusts_input:
  "(Run_pass dgram s = Inl Out_Of_Bounds \<longleftrightarrow>
      1012 < unat (le_value (take 4 (read_datagram dgram)) :: u64))
   \<and> Run_pass None s = Inr (InsertPair 0 [] s)
   \<and> DeinitSocket 3 = []"
proof (intro conjI)
  show "Run_pass dgram s = Inl Out_Of_Bounds \<longleftrightarrow>
      1012 < unat (le_value (take 4 (read_datagram dgram)) :: u64)"
    by (auto simp: Run_pass_def decode_packet_eq read_range_def message_size_def Let_def)
  have "read_datagram None = read_datagram (Some (packet [] 0))"
    by (simp add: read_datagram_def packet_def message_size_def)
      (simp add: numeral_eq_Suc)
  then show "Run_pass None s = Inr (InsertPair 0 [] s)"
    using decode_packet_packet [of "[]" 0] by (simp add: Run_pass_def)
qed (simp add: DeinitSocket_def)

end
