(* ===== verification/Granulator.thy ===== *)
theory Granulator
  imports Prelude
begin

text \<open>
  The partitioning of \<^verbatim>\<open>common/granulator.h\<close>, the threaded sum of \<^verbatim>\<open>misc/multi-vector.cc\<close> that
  uses it, and the dump of bytes of \<^verbatim>\<open>common/hexdump.cc\<close>. Sizes are 64 bits wide.
\<close>

section \<open>Granulator\<close>

record Granulator =
  threshold :: u64
  num_elements :: u64
  num_threads :: u64
  grain :: u64
  step :: u64

text \<open>The constructor; \<open>hw\<close> is what \<open>hardware_concurrency()\<close> answers, 0 when it is not known.\<close>

definition mk_granulator :: "u64 \<Rightarrow> u64 \<Rightarrow> Granulator result" where
  "mk_granulator hw n =
     (if hw = 0 then Inl Div_By_Zero
      else
        (let g = \<lparr>threshold = 128, num_elements = n, num_threads = hw, grain = n div hw, step = 0\<rparr>
         in Inr (if num_elements g \<le> num_threads g * threshold g
                 then g\<lparr>num_threads := 1, grain := num_elements g\<rparr> else g)))"

definition GetNumThreads :: "Granulator \<Rightarrow> u64" where
  "GetNumThreads g = num_threads g"

definition GetGrain :: "Granulator \<Rightarrow> u64" where
  "GetGrain g = grain g"

definition ResetSteps :: "Granulator \<Rightarrow> Granulator" where
  "ResetSteps g = g\<lparr>step := 0\<rparr>"

definition Step :: "Granulator \<Rightarrow> (u64 \<times> u64) \<times> Granulator" where
  "Step g =
     (let from = step g * grain g;
          to = (step g + 1) * grain g - 1;
          to = (if to + threshold g \<ge> num_elements g then num_elements g - 1 else to)
      in ((from, to), g\<lparr>step := step g + 1\<rparr>))"

section \<open>The threaded sum\<close>

text \<open>
  \<open>work_fn\<close>: the loop over an inclusive range. An index that passes the bounds check is below the
  size of the vector, so the increment does not wrap and the index is a natural number here.
\<close>

function work_loop :: "u64 list \<Rightarrow> nat \<Rightarrow> nat \<Rightarrow> u64 \<Rightarrow> u64 result" where
  "work_loop nms hi i acc =
     (if i \<le> hi then
        (if i < length nms then work_loop nms hi (i + 1) (acc + nms ! i) else Inl Out_Of_Bounds)
      else Inr acc)"
  by pat_completeness auto
termination by (relation "measure (\<lambda>(nms, hi, i, acc). length nms - i)") auto

declare work_loop.simps [simp del]

definition work_fn :: "u64 list \<Rightarrow> u64 \<times> u64 \<Rightarrow> u64 result" where
  "work_fn nms rng = work_loop nms (unat (snd rng)) (unat (fst rng)) 0"

text \<open>The numbers from 1 on, and the ranges of the loop over the threads.\<close>

definition numbers :: "u64 \<Rightarrow> u64 list" where
  "numbers max_number = map (\<lambda>counter. of_nat (Suc counter)) [0..<unat max_number]"

fun steps :: "nat \<Rightarrow> Granulator \<Rightarrow> (u64 \<times> u64) list" where
  "steps 0 g = []"
| "steps (Suc k) g = (let (rg, g) = Step g in rg # steps k g)"

text \<open>
  A thread gets a reference to the variable \<open>range\<close> of one pass of the loop, which ends when the pass does. \<open>in_time i\<close> is
  whether the \<open>i\<close>-th thread has read its range for the last time by then; a later read is of a variable that is gone.
\<close>

fun collect :: "'a result list \<Rightarrow> 'a list result" where
  "collect [] = Inr []"
| "collect (r # rs) = rbind r (\<lambda>x. rmap (\<lambda>xs. x # xs) (collect rs))"

definition thread_results :: "u64 \<Rightarrow> u64 \<Rightarrow> (nat \<Rightarrow> bool) \<Rightarrow> u64 list result" where
  "thread_results hw max_number in_time =
     rbind (mk_granulator hw max_number) (\<lambda>suggestion.
       let ranges = steps (unat (GetNumThreads suggestion)) suggestion
       in collect (map (\<lambda>i. if in_time i then work_fn (numbers max_number) (ranges ! i) else Inl Dangling)
            [0..<length ranges]))"

text \<open>\<open>items\<close> is what the threads added to the shared vector, in the order in which they did.\<close>

definition final_sum :: "u64 list \<Rightarrow> u64" where
  "final_sum items = foldl (+) 0 items"

section \<open>Dump of bytes\<close>

fun VecU8_loop :: "nat \<Rightarrow> nat \<Rightarrow> bytes \<Rightarrow> string" where
  "VecU8_loop count_row count_col [] = []"
| "VecU8_loop count_row count_col (b # bs) =
     setw 2 (CHR ''0'') (print_nat 16 (unat b)) @ '' ''
     @ (let count_row = count_row + 1; count_col = count_col + 1;
            (count_col, gap) = (if count_col \<ge> 8 then (0, '' '') else (count_col, []));
            (count_row, nl) = (if count_row \<ge> 16 then (0, [CHR 0x0A]) else (count_row, []))
        in gap @ nl @ VecU8_loop count_row count_col bs)"

definition VecU8 :: "bytes \<Rightarrow> string" where
  "VecU8 vec = VecU8_loop 0 0 vec"

section \<open>The ranges partition the elements\<close>

text \<open>
  A granulator with \<open>T\<close> threads and a grain of \<open>G\<close> for \<open>n\<close> elements, at step \<open>j\<close>: the shape in which the
  threshold decides the end of the last range and of no other one.
\<close>

definition fits :: "nat \<Rightarrow> nat \<Rightarrow> nat \<Rightarrow> bool" where
  "fits T G n \<longleftrightarrow> 1 \<le> T \<and> 1 \<le> G \<and> T * G \<le> n \<and> n \<le> T * G + 127 \<and> n + 128 < 2 ^ 64 \<and> (T = 1 \<or> 128 \<le> G)"

definition granulator_at :: "nat \<Rightarrow> nat \<Rightarrow> nat \<Rightarrow> nat \<Rightarrow> Granulator" where
  "granulator_at T G n j = \<lparr>threshold = 128, num_elements = of_nat n, num_threads = of_nat T,
     grain = of_nat G, step = of_nat j\<rparr>"

definition range_at :: "nat \<Rightarrow> nat \<Rightarrow> nat \<Rightarrow> nat \<Rightarrow> nat \<times> nat" where
  "range_at T G n j = (j * G, if Suc j = T then n - 1 else Suc j * G - 1)"

lemma of_nat_u64_le_iff: "a < 2 ^ 64 \<Longrightarrow> b < 2 ^ 64 \<Longrightarrow> (of_nat a :: u64) \<le> of_nat b \<longleftrightarrow> a \<le> b"
  by (simp add: word_le_nat_alt unat_of_nat)

lemma Step_eq:
  "Step \<lparr>threshold = th, num_elements = n, num_threads = t, grain = g, step = s\<rparr> =
    ((s * g, if n \<le> (s + 1) * g - 1 + th then n - 1 else (s + 1) * g - 1),
     \<lparr>threshold = th, num_elements = n, num_threads = t, grain = g, step = s + 1\<rparr>)"
  by (simp add: Step_def)

lemma step_fits:
  assumes "fits T G n" and "j < T"
  shows "Step (granulator_at T G n j) =
    ((of_nat (fst (range_at T G n j)), of_nat (snd (range_at T G n j))), granulator_at T G n (Suc j))"
proof -
  have f: "1 \<le> G" "T * G \<le> n" "n \<le> T * G + 127" "n + 128 < 2 ^ 64" "T = 1 \<or> 128 \<le> G"
    using assms(1) by (simp_all add: fits_def)
  let ?to = "Suc j * G - 1"
  have le: "Suc j * G \<le> T * G" using assms(2) by (intro mult_le_mono1) simp
  then have to: "?to + 128 < 2 ^ 64" "1 \<le> Suc j * G" "?to < n" using f by auto
  have w: "((of_nat j + 1) * of_nat G - 1 :: u64) = of_nat ?to"
    using to(2) by (simp add: of_nat_diff algebra_simps)
  have cmp: "(of_nat n :: u64) \<le> of_nat ?to + 128 \<longleftrightarrow> n \<le> ?to + 128"
    using of_nat_u64_le_iff [of n "?to + 128"] f(4) to(1) by simp
  have last: "n \<le> ?to + 128 \<longleftrightarrow> Suc j = T"
  proof
    assume n: "n \<le> ?to + 128"
    show "Suc j = T"
    proof (rule ccontr)
      assume "Suc j \<noteq> T"
      with assms(2) have "Suc (Suc j) * G \<le> T * G" by (intro mult_le_mono1) simp
      moreover have "128 \<le> G" using f(5) assms(2) \<open>Suc j \<noteq> T\<close> by auto
      ultimately show False using n f(2) to(2) by simp
    qed
  next
    assume "Suc j = T"
    with f(3) to(2) show "n \<le> ?to + 128" by auto
  qed
  have n1: "(of_nat n - 1 :: u64) = of_nat (n - 1)" using to(3) by (simp add: of_nat_diff)
  show ?thesis
    unfolding granulator_at_def Step_eq w cmp last
    by (simp add: range_at_def n1 add.commute)
qed

lemma steps_fits:
  "fits T G n \<Longrightarrow> j + k \<le> T \<Longrightarrow> steps k (granulator_at T G n j) =
     map (\<lambda>i. (of_nat (fst (range_at T G n i)), of_nat (snd (range_at T G n i)))) [j..<j + k]"
proof (induction k arbitrary: j)
  case (Suc k)
  then show ?case using step_fits [of T G n j] Suc.IH [of "Suc j"] by (simp add: upt_rec [of j])
qed simp

lemma mk_granulator_fits:
  assumes "1 \<le> hw" and "hw \<le> 128" and "1 \<le> n" and "n + 128 < 2 ^ 64"
  shows "\<exists>T G. fits T G n \<and> T \<le> 128 \<and> mk_granulator (of_nat hw) (of_nat n) = Inr (granulator_at T G n 0)"
proof -
  have "unat (of_nat hw :: u64) = hw" using assms(2) by (simp add: unat_of_nat)
  then have hw: "(of_nat hw :: u64) \<noteq> 0" using assms(1) by (metis not_one_le_zero unat_0)
  have mult: "(of_nat n :: u64) \<le> of_nat hw * 128 \<longleftrightarrow> n \<le> hw * 128"
    using of_nat_u64_le_iff [of n "hw * 128"] assms(2,4) by simp
  have dv: "(of_nat n :: u64) div of_nat hw = of_nat (n div hw)"
    using assms(2,4) by (simp add: word_arith_nat_div unat_of_nat)
  show ?thesis
  proof (cases "n \<le> hw * 128")
    case True
    then have "mk_granulator (of_nat hw) (of_nat n) = Inr (granulator_at 1 n n 0)"
      using hw mult by (simp add: mk_granulator_def granulator_at_def)
    moreover have "fits 1 n n" using assms by (simp add: fits_def)
    ultimately show ?thesis by force
  next
    case False
    then have "mk_granulator (of_nat hw) (of_nat n) = Inr (granulator_at hw (n div hw) n 0)"
      using hw mult dv by (simp add: mk_granulator_def granulator_at_def)
    moreover have "n = hw * (n div hw) + n mod hw" "n mod hw < hw" using assms(1) by simp_all
    moreover have "128 \<le> n div hw" using False assms(1) by (simp add: less_eq_div_iff_mult_less_eq mult.commute)
    ultimately have "mk_granulator (of_nat hw) (of_nat n) = Inr (granulator_at hw (n div hw) n 0)"
      "fits hw (n div hw) n" using assms unfolding fits_def by linarith+
    then show ?thesis using assms(2) by blast
  qed
qed


lemma range_at_bounds: "fits T G n \<Longrightarrow> j < T \<Longrightarrow> fst (range_at T G n j) \<le> snd (range_at T G n j) \<and> snd (range_at T G n j) < n"
proof -
  assume f: "fits T G n" and j: "j < T"
  have "Suc j * G \<le> T * G" using j by (intro mult_le_mono1) simp
  then show ?thesis using f by (auto simp: range_at_def fits_def)
qed

lemma ranges_concat:
  assumes "fits T G n"
  shows "concat (map (\<lambda>j. [fst (range_at T G n j)..<Suc (snd (range_at T G n j))]) [0..<T]) = [0..<n]"
proof -
  let ?r = "\<lambda>j. [fst (range_at T G n j)..<Suc (snd (range_at T G n j))]"
  have init: "concat (map ?r [0..<m]) = [0..<m * G]" if "m < T" for m
    using that
  proof (induction m)
    case (Suc m)
    then have "?r m = [m * G..<m * G + G]" using assms by (auto simp: range_at_def fits_def add.commute)
    then show ?case using Suc upt_add_eq_append [of 0 "m * G" G] by (simp add: add.commute)
  qed simp
  obtain m where m: "T = Suc m" using assms by (cases T) (auto simp: fits_def)
  then have "?r m = [m * G..<n]" using assms by (auto simp: range_at_def fits_def)
  moreover have "m * G \<le> n" using assms m by (auto simp: fits_def)
  ultimately show ?thesis
    using init [of m] upt_add_eq_append [of 0 "m * G" "n - m * G"] m by simp
qed

definition elements :: "(u64 \<times> u64) list \<Rightarrow> nat list" where
  "elements rs = concat (map (\<lambda>(a, b). [unat a..<Suc (unat b)]) rs)"

lemma steps_all:
  assumes "fits T G n" and "T \<le> 128"
  shows "steps (unat (GetNumThreads (granulator_at T G n 0))) (granulator_at T G n 0) =
     map (\<lambda>i. (of_nat (fst (range_at T G n i)), of_nat (snd (range_at T G n i)))) [0..<T]"
  using steps_fits [OF assms(1), of 0 T] assms(2)
  by (simp add: GetNumThreads_def granulator_at_def unat_of_nat)

lemma unat_range_at:
  assumes "fits T G n" and "j < T"
  shows "unat (of_nat (fst (range_at T G n j)) :: u64) = fst (range_at T G n j)"
    and "unat (of_nat (snd (range_at T G n j)) :: u64) = snd (range_at T G n j)"
proof -
  have "n < 2 ^ 64" using assms(1) by (simp add: fits_def)
  then show "unat (of_nat (fst (range_at T G n j)) :: u64) = fst (range_at T G n j)"
    "unat (of_nat (snd (range_at T G n j)) :: u64) = snd (range_at T G n j)"
    using range_at_bounds [OF assms] by (simp_all add: unat_of_nat)
qed

lemma elements_fits:
  assumes "fits T G n"
  shows "elements (map (\<lambda>i. (of_nat (fst (range_at T G n i)), of_nat (snd (range_at T G n i)))) [0..<T]) = [0..<n]"
proof -
  have m: "map (\<lambda>i. [unat (of_nat (fst (range_at T G n i)) :: u64)..<Suc (unat (of_nat (snd (range_at T G n i)) :: u64))]) [0..<T]
      = map (\<lambda>j. [fst (range_at T G n j)..<Suc (snd (range_at T G n j))]) [0..<T]"
    by (rule map_cong [OF refl]) (simp add: unat_range_at [OF assms] del: upt_Suc)
  show ?thesis unfolding elements_def map_map comp_def prod.case m by (rule ranges_concat [OF assms])
qed

text \<open>C16:
  For one to 128 hardware threads the ranges that the granulator hands out are an exact partition: read one
  after the other they are the positions of all elements, in order and each once, and none is empty.\<close>

theorem granulator_partition:
  assumes "1 \<le> unat hw" and "unat hw \<le> 128" and "1 \<le> unat n" and "unat n + 128 < 2 ^ 64"
  shows "\<exists>g. mk_granulator hw n = Inr g
    \<and> elements (steps (unat (GetNumThreads g)) g) = [0..<unat n]
    \<and> (\<forall>(a, b)\<in>set (steps (unat (GetNumThreads g)) g). a \<le> b)"
proof -
  obtain T G where f: "fits T G (unat n)" "T \<le> 128"
    and g: "mk_granulator hw n = Inr (granulator_at T G (unat n) 0)"
    using mk_granulator_fits [OF assms] by auto
  have "(of_nat (fst (range_at T G (unat n) j)) :: u64) \<le> of_nat (snd (range_at T G (unat n) j))" if "j < T" for j
    using unat_range_at [OF f(1) that] range_at_bounds [OF f(1) that] by (simp add: word_le_nat_alt)
  then show ?thesis using g steps_all [OF f] elements_fits [OF f(1)] by auto
qed

theorem granulator_partition_witness:
  "\<exists>g. mk_granulator 2 300 = Inr g \<and> elements (steps (unat (GetNumThreads g)) g) = [0..<300]"
  using granulator_partition [of 2 300] by auto

section \<open>The sum\<close>

lemma work_loop_sum:
  "hi < length nms \<Longrightarrow> i \<le> Suc hi \<Longrightarrow> work_loop nms hi i acc = Inr (acc + (\<Sum>k\<leftarrow>[i..<Suc hi]. nms ! k))"
proof (induction nms hi i acc rule: work_loop.induct)
  case (1 nms hi i acc)
  show ?case
  proof (cases "i \<le> hi")
    case True
    then show ?thesis using 1 by (simp add: work_loop.simps [of nms hi i] upt_rec [of i] add.assoc del: upt_Suc)
  next
    case False
    then show ?thesis using 1 by (simp add: work_loop.simps [of nms hi i])
  qed
qed

lemma collect_Inr: "collect (map (\<lambda>x. Inr (f x)) xs) = Inr (map f xs)"
  by (induction xs) simp_all

lemma collect_late:
  "collect (map (\<lambda>i. if P i then Inr (f i) else Inl e) xs) = (if \<forall>i\<in>set xs. P i then Inr (map f xs) else Inl e)"
  by (induction xs) auto

lemma final_sum_mset: "final_sum items = sum_mset (mset items)"
proof -
  have "foldl (+) a items = a + sum_mset (mset items)" for a :: u64
    by (induction items arbitrary: a) (simp_all add: add.assoc)
  then show ?thesis by (simp add: final_sum_def)
qed

lemma sum_concat: "(\<Sum>x\<leftarrow>concat xss. f x) = (\<Sum>xs\<leftarrow>xss. \<Sum>x\<leftarrow>xs. (f x :: u64))"
  by (induction xss) simp_all

lemma sum_numbers: "(\<Sum>k\<leftarrow>[0..<m]. of_nat (Suc k) :: u64) = of_nat (m * (m + 1) div 2)"
proof (induction m)
  case (Suc m)
  have "Suc m * (Suc m + 1) div 2 = m * (m + 1) div 2 + Suc m" by simp
  then show ?case using Suc by (simp only: upt_Suc_append map_append sum_list_append of_nat_add) simp
qed simp

lemma thread_results_eq:
  assumes "fits T G (unat n)" and "T \<le> 128" and g: "mk_granulator hw n = Inr (granulator_at T G (unat n) 0)"
  shows "thread_results hw n in_time =
    (if \<forall>i<T. in_time i
     then Inr (map (\<lambda>i. \<Sum>k\<leftarrow>[fst (range_at T G (unat n) i)..<Suc (snd (range_at T G (unat n) i))]. of_nat (Suc k)) [0..<T])
     else Inl Dangling)"
proof -
  let ?R = "range_at T G (unat n)" and ?N = "numbers n"
  have w: "work_fn ?N (of_nat (fst (?R j)), of_nat (snd (?R j)))
      = Inr (\<Sum>k\<leftarrow>[fst (?R j)..<Suc (snd (?R j))]. of_nat (Suc k))" if "j < T" for j
  proof -
    have m: "map ((!) ?N) [fst (?R j)..<Suc (snd (?R j))] = map (\<lambda>k. of_nat (Suc k)) [fst (?R j)..<Suc (snd (?R j))]"
      using range_at_bounds [OF assms(1) that] by (intro map_cong refl) (auto simp: numbers_def)
    have "length ?N = unat n" by (simp add: numbers_def)
    then have "snd (?R j) < length ?N" "fst (?R j) \<le> Suc (snd (?R j))"
      using range_at_bounds [OF assms(1) that] by simp_all
    from work_loop_sum [OF this, of 0] show ?thesis
      by (simp only: work_fn_def fst_conv snd_conv unat_range_at [OF assms(1) that] m add_0)
  qed
  have m: "map (\<lambda>i. if in_time i then work_fn ?N (map (\<lambda>i. (of_nat (fst (?R i)), of_nat (snd (?R i)))) [0..<T] ! i) else Inl Dangling) [0..<T]
      = map (\<lambda>i. if in_time i then Inr (\<Sum>k\<leftarrow>[fst (?R i)..<Suc (snd (?R i))]. of_nat (Suc k)) else Inl Dangling) [0..<T]"
    by (intro map_cong refl) (simp add: w del: upt_Suc)
  have all: "(\<forall>i\<in>set [0..<T]. in_time i) \<longleftrightarrow> (\<forall>i<T. in_time i)" by auto
  show ?thesis
    unfolding thread_results_def g rbind.simps Let_def steps_all [OF assms(1,2)]
      length_map length_upt diff_zero m collect_late all by (rule refl)
qed

lemma thread_results_sum:
  assumes "fits T G (unat n)" and "T \<le> 128" and g: "mk_granulator hw n = Inr (granulator_at T G (unat n) 0)"
  shows "(\<exists>i<T. \<not> in_time i) \<and> thread_results hw n in_time = Inl Dangling
    \<or> (\<forall>i<T. in_time i) \<and> (\<exists>rs. thread_results hw n in_time = Inr rs \<and> sum_list rs = of_nat (unat n * (unat n + 1) div 2))"
proof (cases "\<forall>i<T. in_time i")
  case True
  let ?R = "range_at T G (unat n)"
  let ?rs = "map (\<lambda>j. \<Sum>k\<leftarrow>[fst (?R j)..<Suc (snd (?R j))]. of_nat (Suc k) :: u64) [0..<T]"
  have "thread_results hw n in_time = Inr ?rs" using True by (simp add: thread_results_eq [OF assms] del: upt_Suc)
  moreover have "sum_list ?rs = (\<Sum>k\<leftarrow>[0..<unat n]. of_nat (Suc k))"
    using sum_concat [of "\<lambda>k. of_nat (Suc k)" "map (\<lambda>j. [fst (?R j)..<Suc (snd (?R j))]) [0..<T]"]
      ranges_concat [OF assms(1)] by (simp add: comp_def del: upt_Suc)
  ultimately show ?thesis using True sum_numbers [of "unat n"] by simp
qed (use thread_results_eq [OF assms] in auto)

text \<open>When every thread reads its range in time, all threads finish without a fault and, in whatever order
  they add their results, the sum of the shared vector is that of the numbers from 1 to \<open>n\<close>, modulo
  the width of the sum.\<close>

theorem parallel_sum:
  assumes "1 \<le> unat hw" and "unat hw \<le> 128" and "1 \<le> unat n" and "unat n + 128 < 2 ^ 64"
  shows "\<exists>rs. thread_results hw n (\<lambda>i. True) = Inr rs
    \<and> (\<forall>items. mset items = mset rs \<longrightarrow> final_sum items = of_nat (unat n * (unat n + 1) div 2))"
proof -
  obtain T G where f: "fits T G (unat n)" "T \<le> 128"
    and g: "mk_granulator hw n = Inr (granulator_at T G (unat n) 0)"
    using mk_granulator_fits [OF assms] by auto
  show ?thesis
    using thread_results_sum [OF f g, of "\<lambda>i. True"] by (auto simp: final_sum_mset sum_mset_sum_list)
qed

theorem parallel_sum_witness:
  "\<exists>rs. thread_results 4 1000 (\<lambda>i. True) = Inr rs \<and> final_sum (rev rs) = 500500"
  using parallel_sum [of 4 1000] by auto


lemma length_steps: "length (steps k g) = k"
  by (induction k arbitrary: g) (simp_all add: split_beta)

lemma steps_nth: "i < k \<Longrightarrow> steps k g ! i = fst (Step (g\<lparr>step := step g + of_nat i\<rparr>))"
proof (induction k arbitrary: g i)
  case (Suc k)
  have s: "snd (Step g) = g\<lparr>step := step g + 1\<rparr>" by (simp add: Step_def Let_def)
  show ?case
    using Suc by (cases i) (simp_all add: split_beta s add.assoc)
qed simp

text \<open>Where the partition fails: with 129 threads the last range ends before the last elements; without an answer
  of the library about the hardware the constructor divides by zero; an empty vector is read out of bounds;
  and a thread that reads its range after the pass that made it reads a variable that is gone.\<close>

theorem granulator_limits:
  "rmap (\<lambda>g. unat (snd (last (steps 129 g)))) (mk_granulator 129 16640) = Inr 16511
   \<and> mk_granulator 0 n = Inl Div_By_Zero
   \<and> thread_results 8 0 (\<lambda>i. True) = Inl Out_Of_Bounds
   \<and> thread_results 2 300 (\<lambda>i. i = 1) = Inl Dangling"
proof (intro conjI)
  have "mk_granulator 129 16640 = Inr (\<lparr>threshold = 128, num_elements = 16640, num_threads = 129, grain = 128, step = 0\<rparr>)"
    by code_simp
  moreover have "steps 129 g \<noteq> []" for g using length_steps [of 129 g] by (metis list.size(3) zero_neq_numeral)
  ultimately show "rmap (\<lambda>g. unat (snd (last (steps 129 g)))) (mk_granulator 129 16640) = Inr 16511"
    by (simp add: last_conv_nth length_steps steps_nth Step_def)
  show "mk_granulator 0 n = Inl Div_By_Zero" by (simp add: mk_granulator_def)
  have "mk_granulator 8 0 = Inr \<lparr>threshold = 128, num_elements = 0, num_threads = 1, grain = 0, step = 0\<rparr>"
    by (simp add: mk_granulator_def)
  then show "thread_results 8 0 (\<lambda>i. True) = Inl Out_Of_Bounds"
    by (simp add: thread_results_def GetNumThreads_def Step_eq work_fn_def work_loop.simps numbers_def)
  have f: "fits 2 150 (unat (300 :: u64))" by (simp add: fits_def)
  have g: "mk_granulator 2 300 = Inr (granulator_at 2 150 (unat (300 :: u64)) 0)"
    by (simp add: mk_granulator_def granulator_at_def)
  have "\<exists>i<2. i \<noteq> (1 :: nat)" by (intro exI [of _ 0]) simp
  then show "thread_results 2 300 (\<lambda>i. i = 1) = Inl Dangling"
    using thread_results_eq [OF f _ g, of "\<lambda>i. i = 1"] by simp
qed

end
