(* ===== verification/Lbos.thy ===== *)
theory Lbos
  imports Prelude
begin

text \<open>
  The concurrency exercises of \<^verbatim>\<open>misc/lbos.cc\<close>: a machine whose threads interleave at the level of
  the atomic operations, with the semaphore of the file, and its four programs. An increment of a plain
  variable is a load and a store. \<open>preserved\<close> is the contract of an invariant of the machine.
\<close>

section \<open>The machine\<close>

datatype instr =
    Print string
  | Signal nat
  | Wait nat
  | Fetch_Add
  | Lock
  | Unlock
  | Load
  | Store
  | Yield

type_synonym thread = "instr list \<times> u64"

text \<open>
  The semaphores are named by numbers; \<open>sems\<close> gives the field \<open>value_\<close>. The mutex names the
  thread that holds it. A thread is what it has left to do and its copy of the counter.
\<close>

record machine =
  sems :: "nat \<Rightarrow> 64 word"
  mutex_held :: "nat option"
  counter :: u64
  out :: "string list"
  threads :: "thread list"

text \<open>\<open>Semaphore::signal\<close>, and the test of the loop in \<open>Semaphore::wait\<close>, which changes nothing.\<close>

definition signal :: "64 word \<Rightarrow> 64 word" where
  "signal v = v + 1"

definition must_wait :: "64 word \<Rightarrow> bool" where
  "must_wait v \<longleftrightarrow> sint v \<le> 0"

text \<open>One step of the \<open>i\<close>-th thread: none when it is finished, or blocked at a lock or a semaphore.\<close>

definition thread_step :: "nat \<Rightarrow> machine \<Rightarrow> machine option" where
  "thread_step i m =
     (if i < length (threads m) then
        (case threads m ! i of
           ([], r) \<Rightarrow> None
         | (ins # rest, r) \<Rightarrow>
             (let go = (\<lambda>m r'. Some (m\<lparr>threads := (threads m)[i := (rest, r')]\<rparr>)) in
              case ins of
                Print s \<Rightarrow> go (m\<lparr>out := out m @ [s]\<rparr>) r
              | Signal k \<Rightarrow> go (m\<lparr>sems := (sems m)(k := signal (sems m k))\<rparr>) r
              | Wait k \<Rightarrow> if must_wait (sems m k) then None else go m r
              | Fetch_Add \<Rightarrow> go (m\<lparr>counter := counter m + 1\<rparr>) r
              | Lock \<Rightarrow> if mutex_held m = None then go (m\<lparr>mutex_held := Some i\<rparr>) r else None
              | Unlock \<Rightarrow> go (m\<lparr>mutex_held := None\<rparr>) r
              | Load \<Rightarrow> go m (counter m)
              | Store \<Rightarrow> go (m\<lparr>counter := r + 1\<rparr>) r
              | Yield \<Rightarrow> go m r))
      else None)"

definition start :: "(nat \<Rightarrow> 64 word) \<Rightarrow> instr list list \<Rightarrow> machine" where
  "start s progs = \<lparr>sems = s, mutex_held = None, counter = 0, out = [], threads = map (\<lambda>p. (p, 0)) progs\<rparr>"

text \<open>The runs of a machine, by the thread that moves at every step.\<close>

inductive runs :: "machine \<Rightarrow> nat list \<Rightarrow> machine \<Rightarrow> bool" for m0 where
  runs_Nil: "runs m0 [] m0"
| runs_snoc: "runs m0 sched m \<Longrightarrow> thread_step i m = Some m' \<Longrightarrow> runs m0 (sched @ [i]) m'"

definition stuck :: "machine \<Rightarrow> bool" where
  "stuck m \<longleftrightarrow> (\<forall>i<length (threads m). thread_step i m = None)"

definition finished :: "machine \<Rightarrow> bool" where
  "finished m \<longleftrightarrow> (\<forall>t\<in>set (threads m). fst t = [])"

section \<open>The programs\<close>

definition counters_atomic :: machine where
  "counters_atomic = (let fn = replicate 100 Fetch_Add in start (\<lambda>_. 0) [fn, fn])"

definition add_thread :: "instr list" where
  "add_thread = concat (replicate 1000 [Lock, Load, Store, Yield, Unlock])"

definition counters_mutex :: machine where
  "counters_mutex = start (\<lambda>_. 0) [add_thread, add_thread]"

text \<open>The semaphores \<open>sa\<close> and \<open>sb\<close> of \<open>rendez_vous\<close> are 0 and 1.\<close>

definition a1 :: string where "a1 = ''thread a, statement 1''"
definition a2 :: string where "a2 = ''thread a, statement 2''"
definition b1 :: string where "b1 = ''thread b, statement 1''"
definition b2 :: string where "b2 = ''thread b, statement 2''"

definition rendez_vous :: machine where
  "rendez_vous = start (\<lambda>_. 0)
     [[Print a1, Signal 1, Wait 0, Print a2], [Print b1, Wait 1, Signal 0, Print b2]]"

definition max_threads :: nat where
  "max_threads = 5"

definition num_threads :: nat where
  "num_threads = 100"

definition multiplex :: machine where
  "multiplex = start (\<lambda>_. of_nat max_threads) (replicate num_threads [Wait 0, Load, Store, Signal 0])"

text \<open>The programs that \<open>main\<close> runs for an option; \<open>exit\<close> for any other one.\<close>

definition lbos_option :: "char \<Rightarrow> machine list result" where
  "lbos_option opt =
     (if opt = CHR ''a'' then Inr [counters_atomic, counters_mutex]
      else if opt = CHR ''b'' then Inr [rendez_vous]
      else Inl Exited)"

section \<open>Steps\<close>

lemmas thread_step_simps = thread_step_def Let_def signal_def

text \<open>What a step of a thread does to the machine, by the instruction it executes.\<close>

lemma thread_step_cases:
  assumes "thread_step i m = Some m'"
  obtains ins rest r r' where "i < length (threads m)" "threads m ! i = (ins # rest, r)"
    "threads m' = (threads m)[i := (rest, r')]"
    "sems m' = (case ins of Signal k \<Rightarrow> (sems m)(k := sems m k + 1) | _ \<Rightarrow> sems m)"
    "mutex_held m' = (case ins of Lock \<Rightarrow> Some i | Unlock \<Rightarrow> None | _ \<Rightarrow> mutex_held m)"
    "counter m' = (case ins of Fetch_Add \<Rightarrow> counter m + 1 | Store \<Rightarrow> r + 1 | _ \<Rightarrow> counter m)"
    "out m' = (case ins of Print s \<Rightarrow> out m @ [s] | _ \<Rightarrow> out m)"
    "r' = (case ins of Load \<Rightarrow> counter m | _ \<Rightarrow> r)"
    "ins = Lock \<Longrightarrow> mutex_held m = None" "\<And>k. ins = Wait k \<Longrightarrow> \<not> must_wait (sems m k)"
proof -
  have i: "i < length (threads m)" using assms by (auto simp: thread_step_def split: if_splits)
  then obtain ins rest r where t: "threads m ! i = (ins # rest, r)"
    using assms by (cases "threads m ! i"; cases "fst (threads m ! i)") (auto simp: thread_step_def)
  show thesis
    using assms i t
    by (intro that [of ins rest r "case ins of Load \<Rightarrow> counter m | _ \<Rightarrow> r"])
      (cases ins; auto simp: thread_step_simps split: if_splits)+
qed

lemma thread_step_enabled:
  "i < length (threads m) \<Longrightarrow> threads m ! i = (ins # rest, r) \<Longrightarrow>
   thread_step i m = None \<longleftrightarrow> (ins = Lock \<and> mutex_held m \<noteq> None) \<or> (\<exists>k. ins = Wait k \<and> must_wait (sems m k))"
  by (cases ins) (auto simp: thread_step_simps)

text \<open>Every step makes the programs that are left shorter by one instruction.\<close>

definition remaining :: "machine \<Rightarrow> nat" where
  "remaining m = (\<Sum>t\<leftarrow>threads m. length (fst t))"

lemma sum_list_update:
  fixes f :: "'a \<Rightarrow> 'b::comm_monoid_add"
  assumes "i < length xs"
  shows "(\<Sum>x\<leftarrow>xs[i := y]. f x) + f (xs ! i) = (\<Sum>x\<leftarrow>xs. f x) + f y"
  using assms
proof (induction xs arbitrary: i)
  case (Cons x xs)
  then show ?case by (cases i) (auto simp: algebra_simps)
qed simp

lemma remaining_step: "thread_step i m = Some m' \<Longrightarrow> remaining m = Suc (remaining m')"
proof -
  assume "thread_step i m = Some m'"
  then obtain ins rest r r' where t: "i < length (threads m)" "threads m ! i = (ins # rest, r)"
    and m': "threads m' = (threads m)[i := (rest, r')]" by (rule thread_step_cases)
  show ?thesis
    using sum_list_update [OF t(1), of "\<lambda>t. length (fst t)" "(rest, r')"] by (simp add: remaining_def t(2) m')
qed

lemma runs_length: "runs m0 sched m \<Longrightarrow> length sched + remaining m = remaining m0"
  by (induction rule: runs.induct) (auto dest: remaining_step)

lemma finished_remaining: "finished m \<longleftrightarrow> remaining m = 0"
  by (auto simp: finished_def remaining_def sum_list_eq_0_iff)

lemma finished_stuck: "finished m \<Longrightarrow> stuck m"
proof -
  assume f: "finished m"
  have "thread_step i m = None" if "i < length (threads m)" for i
  proof -
    have "fst (threads m ! i) = []" using f that by (simp add: finished_def)
    then show ?thesis by (cases "threads m ! i") (simp add: thread_step_def)
  qed
  then show ?thesis by (simp add: stuck_def)
qed

section \<open>Invariants\<close>

locale preserved =
  fixes inv :: "machine \<Rightarrow> bool"
  assumes inv_step: "inv m \<Longrightarrow> thread_step i m = Some m' \<Longrightarrow> inv m'"
begin

lemma inv_runs: "runs m0 sched m \<Longrightarrow> inv m0 \<Longrightarrow> inv m"
  by (induction rule: runs.induct) (auto intro: inv_step)

end

text \<open>An invariant under which only a finished machine is stuck.\<close>

locale live = preserved +
  assumes inv_progress: "inv m \<Longrightarrow> stuck m \<Longrightarrow> finished m"
begin

lemma stuck_finished: "runs m0 sched m \<Longrightarrow> inv m0 \<Longrightarrow> stuck m \<longleftrightarrow> finished m"
  using inv_runs inv_progress finished_stuck by blast

text \<open>So a run can be continued until it has as many steps as the programs have instructions.\<close>

lemma run_complete: "runs m0 sched m \<Longrightarrow> inv m0 \<Longrightarrow> \<exists>sched' m'. runs m0 (sched @ sched') m' \<and> finished m'"
proof (induction "remaining m" arbitrary: sched m)
  case 0
  then show ?case by (intro exI [of _ "[]"] exI [of _ m]) (simp add: finished_remaining)
next
  case (Suc k)
  then have "\<not> stuck m" by (simp add: stuck_finished finished_remaining)
  then obtain i m1 where s: "thread_step i m = Some m1" by (auto simp: stuck_def)
  have "k = remaining m1" using remaining_step [OF s] Suc.hyps(2) by simp
  from Suc.hyps(1) [OF this runs_snoc [OF Suc.prems(1) s] Suc.prems(2)]
  obtain sched' m' where "runs m0 (sched @ (i # sched')) m'" "finished m'" by auto
  then show ?case by blast
qed

end


section \<open>Counters\<close>

definition atomic_inv :: "machine \<Rightarrow> bool" where
  "atomic_inv m \<longleftrightarrow> (\<forall>t\<in>set (threads m). set (fst t) \<subseteq> {Fetch_Add}) \<and> counter m + of_nat (remaining m) = 200"

interpretation atomic: live atomic_inv
proof
  fix i m m'
  assume inv: "atomic_inv m" and st: "thread_step i m = Some m'"
  from st obtain ins rest r r' where t: "i < length (threads m)" "threads m ! i = (ins # rest, r)"
    and m': "threads m' = (threads m)[i := (rest, r')]"
    and c: "counter m' = (case ins of Fetch_Add \<Rightarrow> counter m + 1 | Store \<Rightarrow> r + 1 | _ \<Rightarrow> counter m)"
    by (rule thread_step_cases)
  have "(ins # rest, r) \<in> set (threads m)" using t by (metis nth_mem)
  then have "set (fst (ins # rest, r)) \<subseteq> {Fetch_Add}" using inv by (simp only: atomic_inv_def)
  then have h: "ins = Fetch_Add" "set rest \<subseteq> {Fetch_Add}" by auto
  have "set (fst t) \<subseteq> {Fetch_Add}" if "t \<in> set (threads m')" for t
  proof -
    have "t = (rest, r') \<or> t \<in> set (threads m)"
      using that set_update_subset_insert [of "threads m" i "(rest, r')"] by (auto simp: m')
    then show ?thesis using inv h(2) by (auto simp only: atomic_inv_def fst_conv)
  qed
  moreover have "counter m' + of_nat (remaining m') = 200"
    using inv remaining_step [OF st] h(1) by (simp add: atomic_inv_def c algebra_simps)
  ultimately show "atomic_inv m'" by (simp add: atomic_inv_def)
next
  fix m
  assume inv: "atomic_inv m" and "stuck m"
  have "fst t = []" if tm: "t \<in> set (threads m)" for t
  proof -
    obtain i where i: "i < length (threads m)" "threads m ! i = t" using tm by (auto simp: in_set_conv_nth)
    have "set (fst t) \<subseteq> {Fetch_Add}" using inv tm by (simp add: atomic_inv_def)
    moreover have "thread_step i m = None" using \<open>stuck m\<close> i by (simp add: stuck_def)
    ultimately show ?thesis
      using thread_step_enabled [OF i(1)] i(2) by (cases t; cases "fst t") auto
  qed
  then show "finished m" by (simp add: finished_def)
qed

lemma atomic_start: "atomic_inv counters_atomic"
  by (auto simp: atomic_inv_def counters_atomic_def start_def remaining_def Let_def)

text \<open>
  What is left of a thread that adds under the mutex, by what it must still do before it gives the mutex
  back: 0 outside, then down from 4.
\<close>

inductive mutex_prog :: "nat \<Rightarrow> instr list \<Rightarrow> bool" where
  mp_end: "mutex_prog 0 []"
| mp_unlock: "mutex_prog 0 p \<Longrightarrow> mutex_prog 1 (Unlock # p)"
| mp_yield: "mutex_prog 1 p \<Longrightarrow> mutex_prog 2 (Yield # p)"
| mp_store: "mutex_prog 2 p \<Longrightarrow> mutex_prog 3 (Store # p)"
| mp_load: "mutex_prog 3 p \<Longrightarrow> mutex_prog 4 (Load # p)"
| mp_lock: "mutex_prog 4 p \<Longrightarrow> mutex_prog 0 (Lock # p)"

inductive_cases mutex_progE: "mutex_prog k (ins # p)"

inductive_simps mutex_prog_Nil: "mutex_prog k []"

lemma mutex_prog_add: "mutex_prog 0 (concat (replicate n [Lock, Load, Store, Yield, Unlock]))"
  by (induction n) (auto intro!: mutex_prog.intros)

definition stores :: "machine \<Rightarrow> nat" where
  "stores m = (\<Sum>t\<leftarrow>threads m. count_list (fst t) Store)"

definition mutex_inv :: "machine \<Rightarrow> bool" where
  "mutex_inv m \<longleftrightarrow>
     (\<forall>i<length (threads m). \<exists>k. mutex_prog k (fst (threads m ! i)) \<and> (mutex_held m = Some i \<longleftrightarrow> k \<noteq> 0)
        \<and> (k = 3 \<longrightarrow> snd (threads m ! i) = counter m))
     \<and> (\<forall>i. mutex_held m = Some i \<longrightarrow> i < length (threads m))
     \<and> counter m + of_nat (stores m) = 2000"

lemma mutex_inv_step:
  assumes inv: "mutex_inv m" and st: "thread_step i m = Some m'"
  shows "mutex_inv m'"
proof -
  obtain ins rest r r' where t: "i < length (threads m)" "threads m ! i = (ins # rest, r)"
    and m': "threads m' = (threads m)[i := (rest, r')]"
      "mutex_held m' = (case ins of Lock \<Rightarrow> Some i | Unlock \<Rightarrow> None | _ \<Rightarrow> mutex_held m)"
      "counter m' = (case ins of Fetch_Add \<Rightarrow> counter m + 1 | Store \<Rightarrow> r + 1 | _ \<Rightarrow> counter m)"
      "r' = (case ins of Load \<Rightarrow> counter m | _ \<Rightarrow> r)"
    and l: "ins = Lock \<Longrightarrow> mutex_held m = None"
    using st by (rule thread_step_cases) blast
  obtain k where k: "mutex_prog k (ins # rest)" "mutex_held m = Some i \<longleftrightarrow> k \<noteq> 0" "k = 3 \<longrightarrow> r = counter m"
    using inv t by (auto simp: mutex_inv_def)
  have "stores m = stores m' + (if ins = Store then 1 else 0)"
    using sum_list_update [OF t(1), of "\<lambda>t. count_list (fst t) Store" "(rest, r')"]
    by (simp add: stores_def m'(1) t(2) split: if_splits)
  then have "(of_nat (stores m) :: u64) = of_nat (stores m') + (if ins = Store then 1 else 0)" by simp
  moreover have "counter m' = counter m + (if ins = Store then 1 else 0)"
    using k m'(3) by (auto elim!: mutex_progE)
  moreover have "counter m + of_nat (stores m) = 2000" using inv by (simp add: mutex_inv_def)
  ultimately have "counter m' + of_nat (stores m') = 2000" by (simp add: ac_simps)
  moreover have "\<exists>k. mutex_prog k (fst (threads m' ! j)) \<and> (mutex_held m' = Some j \<longleftrightarrow> k \<noteq> 0)
      \<and> (k = 3 \<longrightarrow> snd (threads m' ! j) = counter m')" if "j < length (threads m')" for j
  proof (cases "j = i")
    case True
    then show ?thesis using k t m' l by (auto elim!: mutex_progE)
  next
    case False
    then obtain kj where kj: "mutex_prog kj (fst (threads m ! j))" "mutex_held m = Some j \<longleftrightarrow> kj \<noteq> 0"
      "kj = 3 \<longrightarrow> snd (threads m ! j) = counter m"
      using inv \<open>j < length (threads m')\<close> by (auto simp: mutex_inv_def m'(1))
    then show ?thesis using False k m' l by (intro exI [of _ kj]) (auto elim!: mutex_progE)
  qed
  moreover have "j < length (threads m')" if "mutex_held m' = Some j" for j
    using that inv t k m' by (auto simp: mutex_inv_def elim!: mutex_progE)
  ultimately show ?thesis by (simp add: mutex_inv_def)
qed

lemma mutex_inv_progress:
  assumes inv: "mutex_inv m" and "stuck m"
  shows "finished m"
proof (rule ccontr)
  assume "\<not> finished m"
  then obtain i where i: "i < length (threads m)" "fst (threads m ! i) \<noteq> []"
    by (auto simp: finished_def in_set_conv_nth)
  show False
  proof (cases "mutex_held m")
    case None
    obtain ins rest r where t: "threads m ! i = (ins # rest, r)"
      using i(2) by (cases "threads m ! i"; cases "fst (threads m ! i)") auto
    have "mutex_prog 0 (ins # rest)" using inv i(1) None t by (fastforce simp: mutex_inv_def)
    then show False
      using None \<open>stuck m\<close> i(1) thread_step_enabled [OF i(1) t] by (auto simp: stuck_def elim: mutex_progE)
  next
    case (Some j)
    then have j: "j < length (threads m)" using inv by (simp add: mutex_inv_def)
    then obtain k where k: "mutex_prog k (fst (threads m ! j))" "k \<noteq> 0"
      using inv Some by (auto simp: mutex_inv_def)
    then obtain ins rest r where t: "threads m ! j = (ins # rest, r)"
      by (cases "threads m ! j"; cases "fst (threads m ! j)") (auto simp: mutex_prog_Nil)
    then show False
      using k \<open>stuck m\<close> j thread_step_enabled [OF j t] by (auto simp: stuck_def elim: mutex_progE)
  qed
qed

interpretation mutex: live mutex_inv
  by unfold_locales (auto intro: mutex_inv_step mutex_inv_progress)

lemma stores_add: "count_list (concat (replicate n [Lock, Load, Store, Yield, Unlock])) Store = n"
  by (induction n) auto

lemma mutex_start: "mutex_inv counters_mutex"
proof -
  have "stores counters_mutex = 2000"
    by (simp only: stores_def counters_mutex_def start_def add_thread_def machine.simps list.map sum_list.Cons
        sum_list.Nil fst_conv stores_add)
  moreover have "mutex_prog 0 add_thread" unfolding add_thread_def by (rule mutex_prog_add)
  ultimately show ?thesis
    by (auto simp: mutex_inv_def counters_mutex_def start_def less_Suc_eq nth_Cons')
qed


text \<open>C15:
  Neither of the two ways to count loses an increment: however the threads interleave, they cannot block each
  other, and when none of them can move the atomic counter is 200 and the one under the mutex 2000.\<close>

theorem counters_total:
  "(runs counters_atomic sched m \<longrightarrow> (stuck m \<longleftrightarrow> length sched = 200) \<and> (stuck m \<longrightarrow> counter m = 200))
   \<and> (runs counters_mutex sched m \<longrightarrow> (stuck m \<longleftrightarrow> length sched = 10000) \<and> (stuck m \<longrightarrow> counter m = 2000))"
proof (intro conjI impI)
  have ra: "remaining counters_atomic = 200" by (simp add: counters_atomic_def remaining_def start_def Let_def)
  have "length add_thread = 5000" by (simp add: add_thread_def length_concat sum_list_replicate)
  then have rm: "remaining counters_mutex = 10000" by (simp add: counters_mutex_def remaining_def start_def)
  show "stuck m \<longleftrightarrow> length sched = 200" if r: "runs counters_atomic sched m"
    using atomic.stuck_finished [OF r atomic_start] runs_length [OF r] by (auto simp: ra finished_remaining)
  show "stuck m \<longleftrightarrow> length sched = 10000" if r: "runs counters_mutex sched m"
    using mutex.stuck_finished [OF r mutex_start] runs_length [OF r] by (auto simp: rm finished_remaining)
  show "counter m = 200" if r: "runs counters_atomic sched m" and "stuck m"
    using that atomic.stuck_finished [OF r atomic_start] atomic.inv_runs [OF r atomic_start]
    by (simp add: atomic_inv_def finished_remaining)
  show "counter m = 2000" if r: "runs counters_mutex sched m" and "stuck m"
  proof -
    have "finished m" using that mutex.stuck_finished [OF r mutex_start] by simp
    then have "stores m = 0" by (auto simp: stores_def finished_def sum_list_eq_0_iff)
    then show ?thesis using mutex.inv_runs [OF r mutex_start] by (simp add: mutex_inv_def)
  qed
qed

theorem counters_total_witness:
  "(\<exists>sched m. runs counters_atomic sched m \<and> counter m = 200)
   \<and> (\<exists>sched m. runs counters_mutex sched m \<and> counter m = 2000)"
proof (intro conjI)
  show "\<exists>sched m. runs counters_atomic sched m \<and> counter m = 200"
    using atomic.run_complete [OF runs_Nil atomic_start] counters_total finished_stuck by blast
  show "\<exists>sched m. runs counters_mutex sched m \<and> counter m = 2000"
    using mutex.run_complete [OF runs_Nil mutex_start] counters_total finished_stuck by blast
qed

section \<open>The rendezvous\<close>

definition left :: "nat \<Rightarrow> machine \<Rightarrow> nat" where
  "left i m = length (fst (threads m ! i))"

definition rendez_inv :: "machine \<Rightarrow> bool" where
  "rendez_inv m \<longleftrightarrow> length (threads m) = 2 \<and> left 0 m \<le> 4 \<and> left 1 m \<le> 4
     \<and> fst (threads m ! 0) = drop (4 - left 0 m) [Print a1, Signal 1, Wait 0, Print a2]
     \<and> fst (threads m ! 1) = drop (4 - left 1 m) [Print b1, Wait 1, Signal 0, Print b2]
     \<and> sems m 0 = (if left 1 m \<le> 1 then 1 else 0) \<and> sems m 1 = (if left 0 m \<le> 2 then 1 else 0)
     \<and> (left 0 m \<le> 1 \<longrightarrow> left 1 m \<le> 1) \<and> (left 1 m \<le> 2 \<longrightarrow> left 0 m \<le> 2)
     \<and> (\<forall>s. s \<in> set (out m) \<longleftrightarrow> s = a1 \<and> left 0 m \<le> 3 \<or> s = a2 \<and> left 0 m = 0
          \<or> s = b1 \<and> left 1 m \<le> 3 \<or> s = b2 \<and> left 1 m = 0)"


lemma blocked:
  assumes "i < length (threads m)" and "thread_step i m = None"
  shows "fst (threads m ! i) = [] \<or> hd (fst (threads m ! i)) = Lock
    \<or> (\<exists>k. hd (fst (threads m ! i)) = Wait k \<and> must_wait (sems m k))"
proof (cases "threads m ! i")
  case (Pair p r)
  then show ?thesis using thread_step_enabled [OF assms(1)] assms(2) by (cases p) auto
qed

lemma must_wait_simps: "must_wait 0" "\<not> must_wait 1"
  by (simp_all add: must_wait_def)

lemma rendez_inv_step:
  assumes inv: "rendez_inv m" and st: "thread_step i m = Some m'"
  shows "rendez_inv m'"
proof -
  have len: "length (threads m) = 2" using inv by (simp add: rendez_inv_def)
  obtain ins rest r r' where t: "i < length (threads m)" "threads m ! i = (ins # rest, r)"
    and m': "threads m' = (threads m)[i := (rest, r')]"
      "sems m' = (case ins of Signal k \<Rightarrow> (sems m)(k := sems m k + 1) | _ \<Rightarrow> sems m)"
      "out m' = (case ins of Print s \<Rightarrow> out m @ [s] | _ \<Rightarrow> out m)"
    and w: "\<And>k. ins = Wait k \<Longrightarrow> \<not> must_wait (sems m k)"
    using st by (rule thread_step_cases) blast
  have "i = 0 \<or> i = 1" using t(1) len by auto
  then show ?thesis
  proof
    assume i: "i = 0"
    have l: "left 0 m = Suc (length rest)" "left 0 m' = length rest" "left 1 m' = left 1 m"
      using t m' i len by (simp_all add: left_def)
    have "ins # rest = drop (4 - left 0 m) [Print a1, Signal 1, Wait 0, Print a2]"
      using inv t i by (simp add: rendez_inv_def)
    moreover have "left 0 m = 1 \<or> left 0 m = 2 \<or> left 0 m = 3 \<or> left 0 m = 4"
      using inv l(1) unfolding rendez_inv_def by linarith
    ultimately show ?thesis
      using inv l m' w i len must_wait_simps by (auto simp: rendez_inv_def split: if_splits)
  next
    assume i: "i = 1"
    have l: "left 1 m = Suc (length rest)" "left 1 m' = length rest" "left 0 m' = left 0 m"
      using t m' i len by (simp_all add: left_def)
    have "ins # rest = drop (4 - left 1 m) [Print b1, Wait 1, Signal 0, Print b2]"
      using inv t i by (simp add: rendez_inv_def)
    moreover have "left 1 m = 1 \<or> left 1 m = 2 \<or> left 1 m = 3 \<or> left 1 m = 4"
      using inv l(1) unfolding rendez_inv_def by linarith
    ultimately show ?thesis
      using inv l m' w i len must_wait_simps by (auto simp: rendez_inv_def split: if_splits)
  qed
qed

lemma rendez_inv_progress:
  assumes inv: "rendez_inv m" and st: "stuck m"
  shows "finished m"
proof -
  have len: "length (threads m) = 2" using inv by (simp add: rendez_inv_def)
  have p0: "fst (threads m ! 0) = drop (4 - left 0 m) [Print a1, Signal 1, Wait 0, Print a2]"
    and p1: "fst (threads m ! 1) = drop (4 - left 1 m) [Print b1, Wait 1, Signal 0, Print b2]"
    using inv unfolding rendez_inv_def by blast+
  have s: "sems m 0 = (if left 1 m \<le> 1 then 1 else 0)" "sems m 1 = (if left 0 m \<le> 2 then 1 else 0)"
    "left 0 m \<le> 1 \<longrightarrow> left 1 m \<le> 1"
    using inv unfolding rendez_inv_def by blast+
  have t0: "thread_step 0 m = None" and t1: "thread_step 1 m = None" using st len by (simp_all add: stuck_def)
  have "left 0 m = 0 \<or> left 0 m = 1 \<or> left 0 m = 2 \<or> left 0 m = 3 \<or> left 0 m = 4"
    using inv unfolding rendez_inv_def by linarith
  then have a: "left 0 m = 0 \<or> left 0 m = 2 \<and> must_wait (sems m 0)"
    using blocked [OF _ t0] len p0 by (elim disjE) simp_all
  have "left 1 m = 0 \<or> left 1 m = 1 \<or> left 1 m = 2 \<or> left 1 m = 3 \<or> left 1 m = 4"
    using inv unfolding rendez_inv_def by linarith
  then have b: "left 1 m = 0 \<or> left 1 m = 3 \<and> must_wait (sems m 1)"
    using blocked [OF _ t1] len p1 by (elim disjE) simp_all
  have "left 0 m = 0 \<and> left 1 m = 0"
    using a b s must_wait_simps by (elim disjE) (simp_all split: if_splits)
  then have "remaining m = 0" using len by (auto simp: remaining_def left_def numeral_2_eq_2 length_Suc_conv)
  then show ?thesis by (simp add: finished_remaining)
qed

interpretation rendez: live rendez_inv
  by unfold_locales (auto intro: rendez_inv_step rendez_inv_progress)

lemma rendez_start: "rendez_inv rendez_vous"
  by (simp add: rendez_inv_def rendez_vous_def start_def left_def)

text \<open>C14:
  The rendezvous: the second statement of each thread is printed only after the first one of the other, and the
  threads cannot block each other: when none of them can move both are finished and all is printed.\<close>

theorem rendezvous:
  assumes "runs rendez_vous sched m"
  shows "(a2 \<in> set (out m) \<longrightarrow> b1 \<in> set (out m)) \<and> (b2 \<in> set (out m) \<longrightarrow> a1 \<in> set (out m))
    \<and> (stuck m \<longrightarrow> finished m \<and> set (out m) = {a1, a2, b1, b2})"
proof -
  have inv: "rendez_inv m" by (rule rendez.inv_runs [OF assms rendez_start])
  have ne: "a1 \<noteq> a2" "b1 \<noteq> b2" "a1 \<noteq> b1" "a1 \<noteq> b2" "a2 \<noteq> b1" "a2 \<noteq> b2"
    by (simp_all add: a1_def a2_def b1_def b2_def)
  have o: "s \<in> set (out m) \<longleftrightarrow> s = a1 \<and> left 0 m \<le> 3 \<or> s = a2 \<and> left 0 m = 0
      \<or> s = b1 \<and> left 1 m \<le> 3 \<or> s = b2 \<and> left 1 m = 0" for s
    using inv unfolding rendez_inv_def by blast
  have l: "left 0 m \<le> 1 \<longrightarrow> left 1 m \<le> 1" "left 1 m \<le> 2 \<longrightarrow> left 0 m \<le> 2" "length (threads m) = 2"
    using inv unfolding rendez_inv_def by blast+
  have "finished m" "left 0 m = 0" "left 1 m = 0" if "stuck m"
    using that rendez.stuck_finished [OF assms rendez_start] l(3) by (simp_all add: finished_def left_def)
  moreover have "a2 \<in> set (out m) \<longrightarrow> b1 \<in> set (out m)" "b2 \<in> set (out m) \<longrightarrow> a1 \<in> set (out m)"
    using o [of a2] o [of b1] o [of b2] o [of a1] l(1,2) ne by auto
  moreover have "set (out m) = {a1, a2, b1, b2}" if "left 0 m = 0" "left 1 m = 0" using o that by auto
  ultimately show ?thesis by blast
qed

theorem rendezvous_witness:
  "\<exists>sched m. runs rendez_vous sched m \<and> set (out m) = {a1, a2, b1, b2}"
proof -
  obtain sched m where r: "runs rendez_vous sched m" "finished m"
    using rendez.run_complete [OF runs_Nil rendez_start] by auto
  then show ?thesis using rendezvous [OF r(1)] finished_stuck [OF r(2)] by blast
qed


section \<open>The multiplexer\<close>

lemma runs_append: "runs m s1 m' \<Longrightarrow> runs m' s2 m'' \<Longrightarrow> runs m (s1 @ s2) m''"
  by (rotate_tac, induction rule: runs.induct) (auto simp flip: append_assoc intro: runs_snoc)

text \<open>A sweep: every one of the threads executes the same instruction once, in turn.\<close>

definition row :: "nat \<Rightarrow> nat \<Rightarrow> instr \<Rightarrow> instr list \<Rightarrow> u64 \<Rightarrow> u64 \<Rightarrow> thread list" where
  "row k n ins p r r' = replicate k (p, r') @ replicate (n - k) (ins # p, r)"

lemma row_nth: "k < n \<Longrightarrow> row k n ins p r r' ! k = (ins # p, r)"
  by (simp add: row_def nth_append)

lemma row_update: "k < n \<Longrightarrow> (row k n ins p r r')[k := (p, r')] = row (Suc k) n ins p r r'"
proof -
  assume "k < n"
  then have "replicate (n - k) (ins # p, r) = (ins # p, r) # replicate (n - Suc k) (ins # p, r)"
    by (simp add: Suc_diff_Suc flip: replicate_Suc)
  moreover have "replicate (Suc k) (p, r') = replicate k (p, r') @ [(p, r')]" by (simp add: replicate_append_same)
  ultimately show ?thesis by (simp add: row_def list_update_append del: replicate_Suc)
qed

lemma length_row [simp]: "k \<le> n \<Longrightarrow> length (row k n ins p r r') = n"
  by (simp add: row_def)

lemma sweep_wait:
  assumes "threads m = replicate n (Wait j # p, r)" and "\<not> must_wait (sems m j)" and "k \<le> n"
  shows "runs m [0..<k] (m\<lparr>threads := row k n (Wait j) p r r\<rparr>)"
  using assms(3)
proof (induction k)
  case 0
  have "m\<lparr>threads := row 0 n (Wait j) p r r\<rparr> = m" using assms(1) by (simp add: row_def)
  then show ?case using runs_Nil [of m] by simp
next
  case (Suc k)
  then have k: "k < n" "runs m [0..<k] (m\<lparr>threads := row k n (Wait j) p r r\<rparr>)" by auto
  show ?case
    using runs_snoc [OF k(2), of k] assms(2) k(1)
    by (simp add: thread_step_simps row_nth row_update)
qed

lemma sweep_load:
  assumes "threads m = replicate n (Load # p, r)" and "k \<le> n"
  shows "runs m [0..<k] (m\<lparr>threads := row k n Load p r (counter m)\<rparr>)"
  using assms(2)
proof (induction k)
  case 0
  have "m\<lparr>threads := row 0 n Load p r (counter m)\<rparr> = m" using assms(1) by (simp add: row_def)
  then show ?case using runs_Nil [of m] by simp
next
  case (Suc k)
  then have k: "k < n" "runs m [0..<k] (m\<lparr>threads := row k n Load p r (counter m)\<rparr>)" by auto
  show ?case
    using runs_snoc [OF k(2), of k] k(1) by (simp add: thread_step_simps row_nth row_update)
qed

lemma machine_swap: "m\<lparr>counter := c, threads := ts\<rparr> = m\<lparr>threads := ts, counter := c\<rparr>"
  by simp

lemma sweep_store:
  assumes "threads m = replicate n (Store # p, r)" and "k \<le> n" and "0 < k"
  shows "runs m [0..<k] (m\<lparr>threads := row k n Store p r r, counter := r + 1\<rparr>)"
  using assms(2,3)
proof (induction k)
  case (Suc k)
  show ?case
  proof (cases "k = 0")
    case True
    have "m\<lparr>threads := row 0 n Store p r r\<rparr> = m" using assms(1) by (simp add: row_def)
    then have "runs m [] (m\<lparr>threads := row 0 n Store p r r\<rparr>)" using runs_Nil [of m] by simp
    from runs_snoc [OF this, of 0] show ?thesis
      using Suc.prems True machine_swap [where m = m and c = "r + 1"] by (simp add: thread_step_simps row_nth row_update)
  next
    case False
    then have k: "k < n" "runs m [0..<k] (m\<lparr>threads := row k n Store p r r, counter := r + 1\<rparr>)"
      using Suc by auto
    show ?thesis
      using runs_snoc [OF k(2), of k] k(1) machine_swap [where m = m and c = "r + 1"]
      by (simp add: thread_step_simps row_nth row_update)
  qed
qed simp

text \<open>The multiplexer does not bound the number of threads: \<open>wait\<close> does not take what it waits for, so all hundred
  threads can stand between \<open>wait\<close> and \<open>signal\<close> at once though the semaphore starts at five, and then all
  but one of their increments can be lost.\<close>

theorem multiplex_unbounded:
  "(\<exists>sched m. runs multiplex sched m \<and> map fst (threads m) = replicate num_threads [Load, Store, Signal 0])
   \<and> (\<exists>sched m. runs multiplex sched m \<and> map fst (threads m) = replicate num_threads [Signal 0] \<and> counter m = 1)"
proof -
  let ?n = "num_threads"
  have pos: "0 < ?n" by (simp add: num_threads_def)
  have row: "row ?n ?n ins p r r' = replicate ?n (p, r')" for ins p r r' by (simp add: row_def)
  let ?m1 = "multiplex\<lparr>threads := replicate ?n ([Load, Store, Signal 0], 0)\<rparr>"
  have "threads multiplex = replicate ?n ([Wait 0, Load, Store, Signal 0], 0)"
    and "\<not> must_wait (sems multiplex 0)" and c: "counter multiplex = 0"
    by (simp_all add: multiplex_def start_def must_wait_def max_threads_def)
  from sweep_wait [OF this(1,2) order_refl] have 1: "runs multiplex [0..<?n] ?m1" by (simp add: row)
  let ?m2 = "?m1\<lparr>threads := replicate ?n ([Store, Signal 0], 0)\<rparr>"
  have "runs ?m1 [0..<?n] ?m2" using sweep_load [of ?m1 ?n "[Store, Signal 0]" 0 ?n] c by (simp add: row)
  moreover let ?m3 = "?m2\<lparr>threads := replicate ?n ([Signal 0], 0), counter := 1\<rparr>"
  have "runs ?m2 [0..<?n] ?m3"
    using sweep_store [of ?m2 ?n "[Signal 0]" 0 ?n] pos by (simp add: row)
  ultimately have "runs multiplex ([0..<?n] @ [0..<?n] @ [0..<?n]) ?m3" using 1 runs_append by blast
  moreover have "map fst (threads ?m3) = replicate ?n [Signal 0]" "counter ?m3 = 1" by simp_all
  moreover have "map fst (threads ?m1) = replicate ?n [Load, Store, Signal 0]" by simp
  ultimately show ?thesis using 1 by blast
qed

end
