(* ===== verification/Packetdraw.thy ===== *)
theory Packetdraw
  imports Prelude
begin

text \<open>
  The drawing service of \<^verbatim>\<open>packetdraw/\<close>: the packed message with its union, the client that fills
  it, the server that stores what it receives, the calls to the renderer that a stored message makes, and the
  options. A message is the twenty bytes of the packed structure, so that a field of one
  member of the union can be read through another one, as the code does.
\<close>

section \<open>The packed message\<close>

text \<open>
  The discriminator is at 0, \<open>x\<close> and \<open>y\<close> of all members at 1 and 5; the colours of a pixel are at 9, the
  second point of lines and rectangles at 9 and 13, and their colours at 17.
\<close>

definition message_bytes :: nat where
  "message_bytes = 20"

definition get_u32 :: "nat \<Rightarrow> bytes \<Rightarrow> u32" where
  "get_u32 i b = le_value (take 4 (drop i b))"

definition set_at :: "nat \<Rightarrow> bytes \<Rightarrow> bytes \<Rightarrow> bytes" where
  "set_at i v b = take i b @ v @ drop (i + length v) b"

definition set_u32 :: "nat \<Rightarrow> u32 \<Rightarrow> bytes \<Rightarrow> bytes" where
  "set_u32 i v b = set_at i (le_bytes 4 v) b"

definition set_u8 :: "nat \<Rightarrow> u8 \<Rightarrow> bytes \<Rightarrow> bytes" where
  "set_u8 i v b = set_at i [v] b"

text \<open>\<open>htonl\<close> on a little-endian host.\<close>

definition htonl :: "u32 \<Rightarrow> u32" where
  "htonl v = le_value (rev (le_bytes 4 v))"

datatype packetdraw_msgtype = Unknown | Pixel | Line | Rectangle

fun msgtype_value :: "packetdraw_msgtype \<Rightarrow> u8" where
  "msgtype_value Unknown = 0"
| "msgtype_value Pixel = 1"
| "msgtype_value Line = 2"
| "msgtype_value Rectangle = 3"

section \<open>Client\<close>

record client =
  cl_host :: string
  cl_type :: packetdraw_msgtype
  cl_port :: u16
  cl_x :: u32
  cl_y :: u32
  cl_w :: u32
  cl_h :: u32
  cl_r :: u8
  cl_g :: u8
  cl_b :: u8

definition pixel_message :: "client \<Rightarrow> bytes" where
  "pixel_message c =
     (let mess = replicate message_bytes 0;
          mess = set_u8 0 (msgtype_value Pixel) mess;
          mess = set_u32 1 (htonl (cl_x c)) mess;
          mess = set_u32 5 (htonl (cl_y c)) mess;
          mess = set_u8 9 (cl_r c) mess;
          mess = set_u8 10 (cl_g c) mess
      in set_u8 11 (cl_b c) mess)"

definition shape_message :: "packetdraw_msgtype \<Rightarrow> client \<Rightarrow> bytes" where
  "shape_message t c =
     (let mess = replicate message_bytes 0;
          mess = set_u8 0 (msgtype_value t) mess;
          mess = set_u32 1 (htonl (cl_x c)) mess;
          mess = set_u32 5 (htonl (cl_y c)) mess;
          mess = set_u32 9 (htonl (cl_w c)) mess;
          mess = set_u32 13 (htonl (cl_h c)) mess;
          mess = set_u8 17 (cl_r c) mess;
          mess = set_u8 18 (cl_g c) mess
      in set_u8 19 (cl_b c) mess)"

text \<open>
  What is handed to \<open>send_buffer\<close>, a buffer of 512 bytes, and the return value; \<open>send_ok\<close> is whether the socket
  calls succeed.
\<close>

definition send_message :: "bool \<Rightarrow> client \<Rightarrow> bytes option \<times> int" where
  "send_message send_ok c =
     (let send = (\<lambda>mess. (Some (set_at 0 mess (replicate 512 0)), if send_ok then 0 else - 1)) in
      case cl_type c of
        Pixel \<Rightarrow> send (pixel_message c)
      | Line \<Rightarrow> send (shape_message Line c)
      | Rectangle \<Rightarrow> send (shape_message Rectangle c)
      | Unknown \<Rightarrow> (None, - 1))"

section \<open>Server\<close>

record server =
  srv_port :: int
  messages_len :: nat
  messages_cap :: nat
  messages :: "bytes list"

datatype server_status = Server_Success | Server_ENOMEM | Server_BADSOCK | Server_BADBIND

text \<open>
  The results of the calls to the system: whether \<open>calloc\<close> succeeds, the value of \<open>errno\<close> then (which
  nothing resets), and whether \<open>socket\<close>, \<open>setsockopt\<close> and \<open>bind\<close> succeed.
\<close>

definition initial_message_amount :: nat where
  "initial_message_amount = 4096"

definition server_create :: "bool \<Rightarrow> int \<Rightarrow> bool \<Rightarrow> bool \<Rightarrow> bool \<Rightarrow> int \<Rightarrow> server option \<times> server_status" where
  "server_create calloc_ok errno socket_ok setsockopt_ok bind_ok port =
     (if \<not> calloc_ok then (None, Server_ENOMEM)
      else if errno \<noteq> 0 then (None, Server_ENOMEM)
      else if \<not> socket_ok then (None, Server_BADSOCK)
      else if \<not> setsockopt_ok then (None, Server_BADSOCK)
      else if \<not> bind_ok then (None, Server_BADBIND)
      else (Some \<lparr>srv_port = port, messages_len = 0, messages_cap = initial_message_amount,
                  messages = replicate initial_message_amount (replicate message_bytes 0)\<rparr>,
            Server_Success))"

definition store_pixel :: "bytes \<Rightarrow> bytes \<Rightarrow> bytes" where
  "store_pixel mess m =
     (let m = set_u8 0 (msgtype_value Pixel) m;
          m = set_u32 1 (htonl (get_u32 1 mess)) m;
          m = set_u32 5 (htonl (get_u32 5 mess)) m;
          m = set_u8 9 (mess ! 9) m;
          m = set_u8 10 (mess ! 10) m
      in set_u8 11 (mess ! 11) m)"

definition store_line :: "bytes \<Rightarrow> bytes \<Rightarrow> bytes" where
  "store_line mess m =
     (let m = set_u8 0 (msgtype_value Line) m;
          m = set_u32 1 (htonl (get_u32 1 mess)) m;
          m = set_u32 1 (htonl (get_u32 1 mess)) m;
          m = set_u32 5 (htonl (get_u32 5 mess)) m;
          m = set_u32 9 (htonl (get_u32 9 mess)) m;
          m = set_u32 13 (htonl (get_u32 13 mess)) m;
          m = set_u8 17 (mess ! 17) m;
          m = set_u8 18 (mess ! 18) m
      in set_u8 19 (mess ! 19) m)"

definition store_rectangle :: "bytes \<Rightarrow> bytes \<Rightarrow> bytes" where
  "store_rectangle mess m =
     (let m = set_u8 0 (msgtype_value Rectangle) m;
          m = set_u32 1 (htonl (get_u32 1 mess)) m;
          m = set_u32 5 (htonl (get_u32 5 mess)) m;
          m = set_u32 9 (htonl (get_u32 9 mess)) m;
          m = set_u32 13 (htonl (get_u32 13 mess)) m;
          m = set_u8 17 (mess ! 17) m;
          m = set_u8 18 (mess ! 18) m
      in set_u8 19 (mess ! 19) m)"

definition insert_message_from_buffer :: "bytes \<Rightarrow> server \<Rightarrow> server result" where
  "insert_message_from_buffer mess s =
     (if messages_len s \<ge> messages_cap s then Inr s
      else
        (let write = (\<lambda>f. let len = messages_len s in
               if len < length (messages s)
               then Inr (s\<lparr>messages_len := len + 1, messages := (messages s)[len := f (messages s ! len)]\<rparr>)
               else Inl Out_Of_Bounds)
         in if mess ! 0 = msgtype_value Pixel then write (store_pixel mess)
            else if mess ! 0 = msgtype_value Line then write (store_line mess)
            else if mess ! 0 = msgtype_value Rectangle then write (store_rectangle mess)
            else Inr s))"

text \<open>The loop of \<open>async_listen\<close>, over what \<open>recvfrom\<close> gives: an error or a datagram, cut to the buffer.\<close>

definition receive :: "bytes option \<Rightarrow> server \<Rightarrow> server result" where
  "receive dgram s =
     (case dgram of
        None \<Rightarrow> Inr s
      | Some d \<Rightarrow> insert_message_from_buffer (set_at 0 (take 512 d) (replicate 512 0)) s)"

fun async_listen :: "bytes option list \<Rightarrow> server \<Rightarrow> server result" where
  "async_listen [] s = Inr s"
| "async_listen (d # ds) s = rbind (receive d s) (async_listen ds)"

section \<open>Rendering\<close>

text \<open>The calls to the renderer; the coordinates are signed integers of 32 bits there.\<close>

datatype sdl_call =
    SetRenderDrawColor u8 u8 u8 u8
  | RenderDrawRect int int int int
  | RenderDrawPoint int int
  | RenderDrawLine int int int int

text \<open>The arguments of \<open>RenderDrawRect\<close> are the fields \<open>x\<close>, \<open>y\<close>, \<open>w\<close> and \<open>h\<close> of the rectangle, in this order.\<close>

definition draw_rect :: "bytes \<Rightarrow> sdl_call list" where
  "draw_rect m =
     [SetRenderDrawColor (m ! 17) (m ! 18) (m ! 19) 0xff,
      RenderDrawRect (sint (get_u32 1 m)) (sint (get_u32 5 m)) (sint (get_u32 13 m)) (sint (get_u32 9 m))]"

definition draw_pixel :: "bytes \<Rightarrow> sdl_call list" where
  "draw_pixel m =
     [SetRenderDrawColor (m ! 9) (m ! 10) (m ! 11) 0xff,
      RenderDrawPoint (sint (get_u32 1 m)) (sint (get_u32 5 m))]"

definition draw_line :: "bytes \<Rightarrow> sdl_call list" where
  "draw_line m =
     [SetRenderDrawColor (m ! 17) (m ! 18) (m ! 19) 0xff,
      RenderDrawLine (sint (get_u32 1 m)) (sint (get_u32 5 m)) (sint (get_u32 9 m)) (sint (get_u32 13 m))]"

definition draw_message :: "bytes \<Rightarrow> sdl_call list" where
  "draw_message m =
     (if m ! 0 = msgtype_value Pixel then draw_pixel m
      else if m ! 0 = msgtype_value Line then draw_line m
      else if m ! 0 = msgtype_value Rectangle then draw_rect m
      else [])"

text \<open>One pass of the loop over the messages in \<open>packetdraw_graphics_render\<close>.\<close>

definition render_pass :: "server \<Rightarrow> sdl_call list" where
  "render_pass s = concat (map (\<lambda>i. draw_message (messages s ! i)) [0..<messages_len s])"


section \<open>Options\<close>

text \<open>\<open>parse_int_or_die\<close> and \<open>parse_uint32_or_die\<close>; the value is stored in an \<open>int\<close> first.\<close>

definition parse_int_or_die :: "string \<Rightarrow> 32 word result" where
  "parse_int_or_die arg =
     (case number0 arg of
        None \<Rightarrow> Inl Exited
      | Some (neg, v) \<Rightarrow>
          if (if neg then 2 ^ 63 < v else 2 ^ 63 \<le> v) then Inl Exited
          else Inr (if neg then - of_nat v else of_nat v))"

definition parse_uint32_or_die :: "string \<Rightarrow> u32 result" where
  "parse_uint32_or_die arg =
     (case number0 arg of
        None \<Rightarrow> Inl Exited
      | Some (neg, v) \<Rightarrow> if 2 ^ 64 \<le> v then Inl Exited else Inr (if neg then - of_nat v else of_nat v))"

record session =
  sess_host :: string
  sess_port :: "32 word"
  server_mode :: bool
  client_mode :: bool
  sess_cl :: client

definition empty_client :: client where
  "empty_client = \<lparr>cl_host = [], cl_type = Unknown, cl_port = 0, cl_x = 0, cl_y = 0, cl_w = 0, cl_h = 0,
     cl_r = 0, cl_g = 0, cl_b = 0\<rparr>"

definition empty_session :: session where
  "empty_session = \<lparr>sess_host = [], sess_port = 0, server_mode = False, client_mode = False, sess_cl = empty_client\<rparr>"

definition shape_type :: "string \<Rightarrow> packetdraw_msgtype" where
  "shape_type arg =
     (if arg = ''pixel'' then Pixel else if arg = ''line'' then Line else if arg = ''rect'' then Rectangle
      else Unknown)"

text \<open>One option of \<open>main\<close> with its argument, as \<open>getopt\<close> gives them.\<close>

definition pd_option :: "char \<times> string \<Rightarrow> session \<Rightarrow> session result" where
  "pd_option o' sess =
     (let (opt, arg) = o';
          cl = (\<lambda>f. Inr (sess\<lparr>sess_cl := f (sess_cl sess)\<rparr>));
          u32 = (\<lambda>f. rmap (\<lambda>v. sess\<lparr>sess_cl := f v (sess_cl sess)\<rparr>) (parse_uint32_or_die arg));
          u8 = (\<lambda>f. rmap (\<lambda>v. sess\<lparr>sess_cl := f (ucast v :: u8) (sess_cl sess)\<rparr>) (parse_int_or_die arg))
      in if opt = CHR ''h'' then Inr (sess\<lparr>sess_host := take 511 arg\<rparr>)
         else if opt = CHR ''p'' then rmap (\<lambda>p. sess\<lparr>sess_port := p\<rparr>) (parse_int_or_die arg)
         else if opt = CHR ''s'' then Inr (sess\<lparr>server_mode := True\<rparr>)
         else if opt = CHR ''c'' then Inr (sess\<lparr>client_mode := True\<rparr>)
         else if opt = CHR ''t'' then cl (cl_type_update (\<lambda>_. shape_type arg))
         else if opt = CHR ''x'' then u32 (\<lambda>v. cl_x_update (\<lambda>_. v))
         else if opt = CHR ''y'' then u32 (\<lambda>v. cl_y_update (\<lambda>_. v))
         else if opt = CHR ''w'' then u32 (\<lambda>v. cl_w_update (\<lambda>_. v))
         else if opt = CHR ''k'' then u32 (\<lambda>v. cl_h_update (\<lambda>_. v))
         else if opt = CHR ''r'' then u8 (\<lambda>v. cl_r_update (\<lambda>_. v))
         else if opt = CHR ''g'' then u8 (\<lambda>v. cl_g_update (\<lambda>_. v))
         else if opt = CHR ''b'' then u8 (\<lambda>v. cl_b_update (\<lambda>_. v))
         else Inr sess)"

fun pd_options :: "(char \<times> string) list \<Rightarrow> session \<Rightarrow> session result" where
  "pd_options [] sess = Inr sess"
| "pd_options (o' # os) sess = rbind (pd_option o' sess) (pd_options os)"

datatype action = Render_Loop "32 word" | Send_Message client | Nothing

definition packetdraw_main :: "(char \<times> string) list \<Rightarrow> action result" where
  "packetdraw_main os =
     rmap (\<lambda>sess. if server_mode sess then Render_Loop (sess_port sess)
            else if client_mode sess
            then Send_Message ((sess_cl sess)\<lparr>cl_port := ucast (sess_port sess), cl_host := take 255 (sess_host sess)\<rparr>)
            else Nothing)
       (pd_options os empty_session)"

section \<open>Fields of a message\<close>

lemma length_set_at [simp]: "i + length v \<le> length b \<Longrightarrow> length (set_at i v b) = length b"
  by (simp add: set_at_def)

lemma nth_set_at:
  "i + length v \<le> length b \<Longrightarrow> k < length b \<Longrightarrow>
   set_at i v b ! k = (if i \<le> k \<and> k < i + length v then v ! (k - i) else b ! k)"
  by (auto simp: set_at_def nth_append)

lemma get_u32_same: "i + 4 \<le> length b \<Longrightarrow> get_u32 i (set_at i (le_bytes 4 v) b) = v"
  by (simp add: get_u32_def set_at_def byte_simps)

lemma get_u32_other:
  assumes "i + 4 \<le> j \<or> j + length v \<le> i" and "j + length v \<le> length b" and "i + 4 \<le> length b"
  shows "get_u32 i (set_at j v b) = get_u32 i b"
proof -
  have "take 4 (drop i (set_at j v b)) = take 4 (drop i b)"
    using assms by (intro nth_equalityI) (auto simp: nth_set_at)
  then show ?thesis by (simp add: get_u32_def)
qed

lemmas message_simps = Let_def set_u8_def set_u32_def nth_set_at get_u32_same get_u32_other

text \<open>The number that four bytes spell with the most significant one first.\<close>

definition be_u32 :: "nat \<Rightarrow> bytes \<Rightarrow> u32" where
  "be_u32 i b = le_value (rev (take 4 (drop i b)))"

lemma htonl_get: "i + 4 \<le> length b \<Longrightarrow> htonl (get_u32 i b) = be_u32 i b"
  using le_bytes_le_value [of "take 4 (drop i b)", where 'a = 32]
  by (simp add: htonl_def get_u32_def be_u32_def)

lemma htonl_htonl: "htonl (htonl v) = v"
  using le_bytes_le_value [of "rev (le_bytes 4 v)", where 'a = 32]
  by (simp add: htonl_def byte_simps)

text \<open>What a datagram asks for: the number of a shape, its points and its colours.\<close>

definition recognised :: "bytes \<Rightarrow> bool" where
  "recognised b \<longleftrightarrow> b ! 0 = 1 \<or> b ! 0 = 2 \<or> b ! 0 = 3"

definition picture :: "bytes \<Rightarrow> sdl_call list" where
  "picture b =
     (let p = (\<lambda>i. sint (be_u32 i b)) in
      if b ! 0 = 1 then [SetRenderDrawColor (b ! 9) (b ! 10) (b ! 11) 0xff, RenderDrawPoint (p 1) (p 5)]
      else [SetRenderDrawColor (b ! 17) (b ! 18) (b ! 19) 0xff,
            if b ! 0 = 2 then RenderDrawLine (p 1) (p 5) (p 9) (p 13) else RenderDrawRect (p 1) (p 5) (p 13) (p 9)])"

lemma store_draws:
  assumes "20 \<le> length b" and "length m = 20"
  shows "length (store_pixel b m) = 20" "length (store_line b m) = 20" "length (store_rectangle b m) = 20"
    and "b ! 0 = 1 \<Longrightarrow> draw_message (store_pixel b m) = picture b"
    and "b ! 0 = 2 \<Longrightarrow> draw_message (store_line b m) = picture b"
    and "b ! 0 = 3 \<Longrightarrow> draw_message (store_rectangle b m) = picture b"
  using assms
  by (simp_all add: store_pixel_def store_line_def store_rectangle_def draw_message_def draw_pixel_def
      draw_line_def draw_rect_def picture_def message_simps htonl_get)


section \<open>The server keeps what it can\<close>

definition srv_ok :: "server \<Rightarrow> bool" where
  "srv_ok s \<longleftrightarrow> length (messages s) = messages_cap s \<and> messages_len s \<le> messages_cap s
     \<and> (\<forall>m\<in>set (messages s). length m = 20)
     \<and> (\<forall>i<messages_len s. recognised (messages s ! i))"

definition received :: "bytes option list \<Rightarrow> bytes list" where
  "received ds = map (\<lambda>d. set_at 0 (take 512 d) (replicate 512 0)) (concat (map (case_option [] (\<lambda>d. [d])) ds))"

lemma received_simps [simp]:
  "received [] = []" "received (None # ds) = received ds"
  "received (Some d # ds) = set_at 0 (take 512 d) (replicate 512 0) # received ds"
  by (simp_all add: received_def)

lemma length_received: "b \<in> set (received ds) \<Longrightarrow> length b = 512"
  by (auto simp: received_def)

lemma store_recognised: "20 \<le> length b \<Longrightarrow> length m = 20 \<Longrightarrow>
    recognised (store_pixel b m) \<and> recognised (store_line b m) \<and> recognised (store_rectangle b m)"
  by (simp add: recognised_def store_pixel_def store_line_def store_rectangle_def message_simps)

lemma render_pass_Suc:
  "i < length (messages s) \<Longrightarrow> i = messages_len s \<Longrightarrow>
   render_pass (s\<lparr>messages_len := i + 1, messages := (messages s)[i := m]\<rparr>) = render_pass s @ draw_message m"
proof -
  assume i: "i < length (messages s)" "i = messages_len s"
  have p: "map (\<lambda>k. draw_message ((messages s)[messages_len s := m] ! k)) [0..<messages_len s]
      = map (\<lambda>k. draw_message (messages s ! k)) [0..<messages_len s]"
    by (rule map_cong [OF refl]) simp
  show ?thesis using i by (simp add: render_pass_def p)
qed

lemma insert_spec:
  assumes ok: "srv_ok s" and b: "20 \<le> length b"
  shows "\<exists>s'. insert_message_from_buffer b s = Inr s' \<and> srv_ok s' \<and> messages_cap s' = messages_cap s
    \<and> (if recognised b \<and> messages_len s < messages_cap s
       then messages_len s' = messages_len s + 1 \<and> render_pass s' = render_pass s @ picture b
       else s' = s)"
proof (cases "recognised b \<and> messages_len s < messages_cap s")
  case True
  define i where "i = messages_len s"
  define f where "f = (if b ! 0 = 1 then store_pixel b else if b ! 0 = 2 then store_line b else store_rectangle b)"
  have i: "i < length (messages s)" using True ok by (simp add: i_def srv_ok_def)
  then have m: "length (messages s ! i) = 20" using ok by (simp add: srv_ok_def)
  let ?s' = "s\<lparr>messages_len := i + 1, messages := (messages s)[i := f (messages s ! i)]\<rparr>"
  have "insert_message_from_buffer b s = Inr ?s'"
    using True i by (auto simp: insert_message_from_buffer_def recognised_def f_def i_def Let_def)
  moreover have fm: "length (f (messages s ! i)) = 20" "recognised (f (messages s ! i))"
    "draw_message (f (messages s ! i)) = picture b"
    using store_draws [OF b m] store_recognised [OF b m] True by (auto simp: f_def recognised_def [of b])
  then have "srv_ok ?s'"
    using ok i True set_update_subset_insert [of "messages s" i "f (messages s ! i)"]
    by (auto simp: srv_ok_def i_def [symmetric] nth_list_update less_Suc_eq)
  moreover have "render_pass ?s' = render_pass s @ picture b"
    using render_pass_Suc [OF i i_def] fm by simp
  ultimately show ?thesis using True by (simp add: i_def)
next
  case False
  then have "insert_message_from_buffer b s = Inr s"
    by (auto simp: insert_message_from_buffer_def recognised_def Let_def)
  then show ?thesis using ok unfolding if_not_P [OF False] by simp
qed

lemma listen_spec:
  "srv_ok s \<Longrightarrow> \<exists>s'. async_listen ds s = Inr s' \<and> srv_ok s' \<and> messages_cap s' = messages_cap s
    \<and> render_pass s' = render_pass s
        @ concat (map picture (take (messages_cap s - messages_len s) (filter recognised (received ds))))"
proof (induction ds arbitrary: s)
  case (Cons d ds)
  show ?case
  proof (cases d)
    case None
    then show ?thesis using Cons by (simp add: receive_def)
  next
    case (Some x)
    let ?b = "set_at 0 (take 512 x) (replicate 512 0)"
    obtain s1 where s1: "insert_message_from_buffer ?b s = Inr s1" "srv_ok s1" "messages_cap s1 = messages_cap s"
      "if recognised ?b \<and> messages_len s < messages_cap s
       then messages_len s1 = messages_len s + 1 \<and> render_pass s1 = render_pass s @ picture ?b else s1 = s"
      using insert_spec [OF Cons.prems, of ?b] by auto
    obtain s2 where s2: "async_listen ds s1 = Inr s2" "srv_ok s2" "messages_cap s2 = messages_cap s1"
      "render_pass s2 = render_pass s1
        @ concat (map picture (take (messages_cap s1 - messages_len s1) (filter recognised (received ds))))"
      using Cons.IH [OF s1(2)] by blast
    have "async_listen (d # ds) s = Inr s2" using s1(1) s2(1) Some by (simp add: receive_def)
    moreover have "render_pass s2 = render_pass s
        @ concat (map picture (take (messages_cap s - messages_len s) (filter recognised (received (d # ds)))))"
    proof (cases "recognised ?b \<and> messages_len s < messages_cap s")
      case True
      then have "messages_cap s - messages_len s = Suc (messages_cap s1 - messages_len s1)"
        using s1(3,4) by (simp add: Suc_diff_Suc)
      then show ?thesis using True s1(4) s2(4) Some by simp
    next
      case False
      then have "s1 = s" using s1(4) by simp
      then show ?thesis using False s2(4) Some by (cases "recognised ?b") auto
    qed
    ultimately show ?thesis using s1(3) s2(2,3) by simp
  qed
qed simp

lemma create_ok: "server_create True 0 True True True port = (Some s, st) \<Longrightarrow>
    srv_ok s \<and> messages_len s = 0 \<and> messages_cap s = 4096 \<and> render_pass s = []"
  by (auto simp: server_create_def srv_ok_def initial_message_amount_def message_bytes_def render_pass_def)

text \<open>C8:
  What the window shows: after any sequence of datagrams and failed reads the server has not faulted, and a pass of
  the renderer draws, in the order of arrival, exactly the first 4096 datagrams of a known shape, with the
  coordinates read most significant byte first; all others are ignored.\<close>

theorem server_draws:
  "\<exists>s0 s. server_create True 0 True True True port = (Some s0, Server_Success) \<and> async_listen ds s0 = Inr s
    \<and> srv_ok s \<and> render_pass s = concat (map picture (take 4096 (filter recognised (received ds))))"
proof -
  obtain s0 where s0: "server_create True 0 True True True port = (Some s0, Server_Success)"
    by (simp add: server_create_def)
  from create_ok [OF this] have ok: "srv_ok s0" "messages_len s0 = 0" "messages_cap s0 = 4096" "render_pass s0 = []"
    by simp_all
  then show ?thesis using s0 listen_spec [OF ok(1), of ds] by auto
qed

section \<open>From the command line to the window\<close>

lemma be_htonl: "be_u32 i (set_at i (le_bytes 4 (htonl v)) b) = v" if "i + 4 \<le> length b"
  using htonl_get [of i "set_at i (le_bytes 4 (htonl v)) b"] that
  by (simp add: get_u32_same htonl_htonl)

lemma be_other: "i + 4 \<le> j \<or> j + length v \<le> i \<Longrightarrow> j + length v \<le> length b \<Longrightarrow> i + 4 \<le> length b \<Longrightarrow>
    be_u32 i (set_at j v b) = be_u32 i b"
  using htonl_get [of i b] htonl_get [of i "set_at j v b"] get_u32_other [of i j v b] by simp

definition figure :: "client \<Rightarrow> sdl_call list" where
  "figure c =
     [SetRenderDrawColor (cl_r c) (cl_g c) (cl_b c) 0xff,
      (case cl_type c of
         Pixel \<Rightarrow> RenderDrawPoint (sint (cl_x c)) (sint (cl_y c))
       | Line \<Rightarrow> RenderDrawLine (sint (cl_x c)) (sint (cl_y c)) (sint (cl_w c)) (sint (cl_h c))
       | _ \<Rightarrow> RenderDrawRect (sint (cl_x c)) (sint (cl_y c)) (sint (cl_h c)) (sint (cl_w c)))]"


definition sent :: "bytes \<Rightarrow> bytes" where
  "sent mess = set_at 0 (take 512 (set_at 0 mess (replicate 512 0))) (replicate 512 0)"

lemma sent_eq: "length mess = 20 \<Longrightarrow> sent mess = mess @ replicate 492 0"
  by (simp add: sent_def set_at_def)

lemma message_lengths [simp]: "length (pixel_message c) = 20" "length (shape_message t c) = 20"
  by (simp_all add: pixel_message_def shape_message_def message_bytes_def message_simps)

lemma be_append: "i + 4 \<le> length b \<Longrightarrow> be_u32 i (b @ z) = be_u32 i b"
  by (simp add: be_u32_def)

lemma client_picture:
  assumes "cl_type c \<noteq> Unknown"
  shows "\<exists>d. fst (send_message ok c) = Some d
    \<and> (let b = set_at 0 (take 512 d) (replicate 512 0) in recognised b \<and> picture b = figure c)"
proof (cases "cl_type c")
  case Pixel
  have "length (pixel_message c) = 20" by simp
  then show ?thesis
    using Pixel sent_eq [of "pixel_message c"] unfolding sent_def
    by (simp add: send_message_def Let_def recognised_def picture_def figure_def nth_append be_append)
      (simp add: pixel_message_def message_bytes_def message_simps be_htonl be_other)
next
  case Line
  have "length (shape_message Line c) = 20" by simp
  then show ?thesis
    using Line sent_eq [of "shape_message Line c"] unfolding sent_def
    by (simp add: send_message_def Let_def recognised_def picture_def figure_def nth_append be_append)
      (simp add: shape_message_def message_bytes_def message_simps be_htonl be_other)
next
  case Rectangle
  have "length (shape_message Rectangle c) = 20" by simp
  then show ?thesis
    using Rectangle sent_eq [of "shape_message Rectangle c"] unfolding sent_def
    by (simp add: send_message_def Let_def recognised_def picture_def figure_def nth_append be_append)
      (simp add: shape_message_def message_bytes_def message_simps be_htonl be_other)
qed (use assms in simp)

lemma parse_print: "parse_uint32_or_die (print_nat 10 (unat (v :: u32))) = Inr v"
  "parse_int_or_die (print_nat 10 (unat (u :: u8))) = Inr (ucast u)"
proof -
  have "unat v < 2 ^ 32" using unsigned_less [of v, where ?'a = nat] by simp
  then show "parse_uint32_or_die (print_nat 10 (unat v)) = Inr v"
    by (simp add: parse_uint32_or_die_def number0_print)
  have "unat u < 2 ^ 63" using unat_u8_less [of u] by (rule less_le_trans) simp
  then have "\<not> 2 ^ 63 \<le> unat u" by simp
  then show "parse_int_or_die (print_nat 10 (unat u)) = Inr (ucast u)"
    by (simp add: parse_int_or_die_def number0_print)
qed


definition figure_options ::
  "string \<Rightarrow> u32 \<Rightarrow> u32 \<Rightarrow> u32 \<Rightarrow> u32 \<Rightarrow> u8 \<Rightarrow> u8 \<Rightarrow> u8 \<Rightarrow> (char \<times> string) list" where
  "figure_options t x y w h r g b =
     [(CHR ''c'', []), (CHR ''t'', t),
      (CHR ''x'', print_nat 10 (unat x)), (CHR ''y'', print_nat 10 (unat y)),
      (CHR ''w'', print_nat 10 (unat w)), (CHR ''k'', print_nat 10 (unat h)),
      (CHR ''r'', print_nat 10 (unat r)), (CHR ''g'', print_nat 10 (unat g)), (CHR ''b'', print_nat 10 (unat b))]"

text \<open>C27:
  From the command line to the window: the options of the client for a shape, with its numbers in decimal, make it
  send one datagram, and a server with room for it then draws that shape after what it drew before, in the
  given colours; a rectangle gets the width as its height and the height as its width.\<close>

theorem command_to_window:
  assumes "srv_ok s" and "messages_len s < messages_cap s"
    and "(t, shape) \<in> {(''pixel'', RenderDrawPoint (sint x) (sint y)),
           (''line'', RenderDrawLine (sint x) (sint y) (sint w) (sint h)),
           (''rect'', RenderDrawRect (sint x) (sint y) (sint h) (sint w))}"
  shows "\<exists>c d s'. packetdraw_main (figure_options t x y w h r g b) = Inr (Send_Message c)
    \<and> fst (send_message True c) = Some d \<and> receive (Some d) s = Inr s'
    \<and> render_pass s' = render_pass s @ [SetRenderDrawColor r g b 0xff, shape]"
proof -
  let ?c = "\<lparr>cl_host = [], cl_type = shape_type t, cl_port = 0, cl_x = x, cl_y = y, cl_w = w, cl_h = h,
     cl_r = r, cl_g = g, cl_b = b\<rparr>"
  have u: "ucast (ucast v :: 32 word) = v" for v :: u8
    by (rule bit_word_eqI) (auto simp: bit_simps)
  have main: "packetdraw_main (figure_options t x y w h r g b) = Inr (Send_Message ?c)"
    by (simp add: packetdraw_main_def figure_options_def pd_option_def parse_print u
        empty_session_def empty_client_def)
  have fig: "cl_type ?c \<noteq> Unknown" "figure ?c = [SetRenderDrawColor r g b 0xff, shape]"
    using assms(3) by (auto simp: shape_type_def figure_def)
  obtain d where d: "fst (send_message True ?c) = Some d"
    and p: "recognised (set_at 0 (take 512 d) (replicate 512 0))"
      "picture (set_at 0 (take 512 d) (replicate 512 0)) = figure ?c"
    using client_picture [OF fig(1), of True] by (auto simp: Let_def)
  obtain s' where r: "receive (Some d) s = Inr s'" "render_pass s' = render_pass s @ figure ?c"
    using insert_spec [OF assms(1), of "set_at 0 (take 512 d) (replicate 512 0)"] p assms(2)
    by (auto simp: receive_def)
  have "render_pass s' = render_pass s @ [SetRenderDrawColor r g b 0xff, shape]"
    unfolding r(2) fig(2) by (rule refl)
  then show ?thesis using main d r(1) by (intro exI conjI)
qed

theorem command_to_window_witness:
  "\<exists>s0 c d s'. server_create True 0 True True True 9000 = (Some s0, Server_Success)
    \<and> packetdraw_main (figure_options ''rect'' 1 2 30 40 255 0 7) = Inr (Send_Message c)
    \<and> fst (send_message True c) = Some d \<and> receive (Some d) s0 = Inr s'
    \<and> render_pass s' = [SetRenderDrawColor 255 0 7 0xff, RenderDrawRect 1 2 40 30]"
proof -
  obtain s0 where s0: "server_create True 0 True True True 9000 = (Some s0, Server_Success)"
    by (simp add: server_create_def)
  then show ?thesis
    using command_to_window [of s0 "''rect''" "RenderDrawRect 1 2 40 30" 1 2 30 40 255 0 7] create_ok [OF s0] by simp
qed

text \<open>The server cannot start when an earlier call of the process left \<open>errno\<close> set.\<close>

lemma create_stale_errno: "e \<noteq> 0 \<Longrightarrow> server_create True e True True True port = (None, Server_ENOMEM)"
  by (simp add: server_create_def)

end
