(* ===== verification/Pshy.thy ===== *)
theory Pshy
  imports Prelude
begin

text \<open>
  The shell of \<^verbatim>\<open>pshy/\<close>: the growing buffer of \<^verbatim>\<open>dynbuf.c\<close>, the tokenizer, the built-in commands and the
  read loop. Memory that was never written holds \<open>None\<close>. The answers of the system are arguments: for
  which sizes \<open>realloc\<close> succeeds, and in which of its four possible ways each \<open>fork\<close> goes on.
\<close>

section \<open>Buffer\<close>

record pshy_buff =
  buff_len :: nat
  buff_cap :: nat
  buff_data :: "char option list"

definition NUL :: char where
  "NUL = CHR 0x00"

definition pshy_buff_create :: pshy_buff where
  "pshy_buff_create = \<lparr>buff_len = 0, buff_cap = 64, buff_data = replicate 64 (Some NUL)\<rparr>"

definition pshy_buff_add :: "(nat \<Rightarrow> bool) \<Rightarrow> pshy_buff \<Rightarrow> char \<Rightarrow> pshy_buff result" where
  "pshy_buff_add realloc_ok b c =
     rbind
       (if buff_len b + 1 \<ge> buff_cap b then
          (let cap = 2 * buff_cap b in
           if \<not> realloc_ok cap then Inl Aborted
           else
             (let data = buff_data b @ replicate (cap - length (buff_data b)) None;
                  data = take (buff_len b + 1) data @ replicate (cap - buff_len b - 1) (Some NUL)
              in Inr (b\<lparr>buff_cap := cap, buff_data := data\<rparr>)))
        else Inr b)
       (\<lambda>b. if buff_len b < length (buff_data b)
            then Inr (b\<lparr>buff_data := (buff_data b)[buff_len b := Some c], buff_len := buff_len b + 1\<rparr>)
            else Inl Out_Of_Bounds)"

definition pshy_buff_clear :: "pshy_buff \<Rightarrow> pshy_buff" where
  "pshy_buff_clear b = b\<lparr>buff_data := replicate (buff_cap b) (Some NUL), buff_len := 0\<rparr>"

definition pshy_buff_data :: "pshy_buff \<Rightarrow> char option list" where
  "pshy_buff_data b = buff_data b"

definition pshy_buff_len :: "pshy_buff \<Rightarrow> nat" where
  "pshy_buff_len b = buff_len b"

text \<open>The number of blocks that \<open>pshy_buff_free\<close> does not free.\<close>

definition pshy_buff_free :: "pshy_buff \<Rightarrow> nat" where
  "pshy_buff_free b = (if buff_len b > 0 then 0 else 1)"

text \<open>The string at the start of some memory, as \<open>strdup\<close> reads it.\<close>

fun c_read :: "char option list \<Rightarrow> string result" where
  "c_read [] = Inl Out_Of_Bounds"
| "c_read (None # m) = Inl Out_Of_Bounds"
| "c_read (Some c # m) = (if c = NUL then Inr [] else rmap (\<lambda>s. c # s) (c_read m))"

section \<open>Tokens\<close>

datatype token_builtin = Not_Builtin | Builtin_Exit | Builtin_Cd

text \<open>The list of words, \<open>None\<close> for the null pointer at its end.\<close>

type_synonym pshy_tokens = "string option list"

definition add_item :: "pshy_tokens \<Rightarrow> string option \<Rightarrow> pshy_tokens" where
  "add_item toks word = toks @ [word]"

definition pshy_tokens_len :: "pshy_tokens \<Rightarrow> nat" where
  "pshy_tokens_len toks = length toks"

definition strtok_r :: "string \<Rightarrow> (string \<times> string) option" where
  "strtok_r s =
     (let s = dropWhile (\<lambda>c. c = CHR '' '') s in
      if s = [] then None
      else Some (takeWhile (\<lambda>c. c \<noteq> CHR '' '') s, drop 1 (dropWhile (\<lambda>c. c \<noteq> CHR '' '') s)))"

lemma strtok_r_shorter: "strtok_r s = Some (w, s') \<Longrightarrow> length s' < length s"
proof -
  assume a: "strtok_r s = Some (w, s')"
  let ?d = "dropWhile (\<lambda>c. c = CHR '' '') s"
  have d: "?d \<noteq> []" "s' = drop 1 (dropWhile (\<lambda>c. c \<noteq> CHR '' '') ?d)"
    using a by (auto simp: strtok_r_def Let_def split: if_splits)
  obtain c cs where c: "?d = c # cs" using d(1) by (cases ?d) auto
  then have "c \<noteq> CHR '' ''" using hd_dropWhile [of "\<lambda>c. c = CHR '' ''" s] by simp
  then have "length s' \<le> length cs"
    using d(2) length_dropWhile_le [of "\<lambda>c. c \<noteq> CHR '' ''" cs] by (simp add: c)
  moreover have "length ?d \<le> length s" by (rule length_dropWhile_le)
  ultimately show ?thesis using c by simp
qed

function strtok_loop :: "string \<Rightarrow> pshy_tokens \<Rightarrow> pshy_tokens" where
  "strtok_loop data toks =
     (case strtok_r data of
        None \<Rightarrow> toks
      | Some (token, save) \<Rightarrow> strtok_loop save (add_item toks (Some token)))"
  by pat_completeness auto
termination by (relation "measure (\<lambda>(data, toks). length data)") (auto dest: strtok_r_shorter)

declare strtok_loop.simps [simp del]

definition pshy_tokens_from_buff :: "pshy_buff \<Rightarrow> pshy_tokens result" where
  "pshy_tokens_from_buff b =
     rmap (\<lambda>data. add_item (strtok_loop data []) None) (c_read (pshy_buff_data b))"

text \<open>\<open>strncmp\<close> with the length of the literal: equality of that many characters.\<close>

definition pshy_tokens_builtin :: "pshy_tokens \<Rightarrow> token_builtin result" where
  "pshy_tokens_builtin toks =
     (if toks = [] then Inr Not_Builtin
      else rmap (\<lambda>t. if take 4 t = ''exit'' then Builtin_Exit
                     else if take 2 t = ''cd'' then Builtin_Cd else Not_Builtin)
             (deref (hd toks)))"

section \<open>Shell\<close>

definition pshy_is_delimiter :: "char \<Rightarrow> bool" where
  "pshy_is_delimiter c \<longleftrightarrow> c = CHR 0x0A"

text \<open>How a process goes on after \<open>fork\<close>, and what it does that can be seen from outside.\<close>

datatype forked = Fork_Failed | Parent | Child_Exec | Child_Exec_Failed

datatype event =
    Prompt
  | Chdir "string option"
  | Usage
  | Run pshy_tokens
  | Exec pshy_tokens
  | Exec_Failed pshy_tokens
  | Fork_Error

record shell =
  instream :: string
  forks :: nat
  events :: "event list"
  leaked :: nat

text \<open>
  The loop that reads a line: it ends at a zero byte, at the end of the input, at a character that
  equals \<open>EOF\<close> as a \<open>char\<close>, and at a delimiter.
\<close>

fun read_line :: "(nat \<Rightarrow> bool) \<Rightarrow> string \<Rightarrow> pshy_buff \<Rightarrow> (pshy_buff \<times> string) result" where
  "read_line realloc_ok [] b = Inr (b, [])"
| "read_line realloc_ok (rc # rest) b =
     (if rc = NUL then Inr (b, rest)
      else if rc = CHR 0xFF then Inr (b, rest)
      else if pshy_is_delimiter rc then Inr (b, rest)
      else rbind (pshy_buff_add realloc_ok b rc) (read_line realloc_ok rest))"

text \<open>One pass of the loop of \<open>pshy_shell\<close>: whether the process is done, and the state.\<close>

definition shell_pass :: "(nat \<Rightarrow> bool) \<Rightarrow> (nat \<Rightarrow> forked) \<Rightarrow> shell \<Rightarrow> (bool \<times> shell) result" where
  "shell_pass realloc_ok fork s =
     rbind (read_line realloc_ok (instream s) pshy_buff_create) (\<lambda>(b, rest).
       let s = s\<lparr>instream := rest, events := events s @ [Prompt], leaked := leaked s + pshy_buff_free b\<rparr>;
           emit = (\<lambda>e s. s\<lparr>events := events s @ [e]\<rparr>)
       in if pshy_buff_len b = 0 then Inr (False, s)
          else
            rbind (pshy_tokens_from_buff b) (\<lambda>toks.
            rmap (\<lambda>builtin. case builtin of
                Builtin_Exit \<Rightarrow> (True, s)
              | Builtin_Cd \<Rightarrow>
                  if pshy_tokens_len toks < 2 then (False, emit Usage s) else (False, emit (Chdir (toks ! 1)) s)
              | Not_Builtin \<Rightarrow>
                  (let s' = s\<lparr>forks := forks s + 1\<rparr> in
                   case fork (forks s) of
                     Fork_Failed \<Rightarrow> (False, emit Fork_Error s')
                   | Parent \<Rightarrow> (False, emit (Run toks) s')
                   | Child_Exec \<Rightarrow> (True, emit (Exec toks) s')
                   | Child_Exec_Failed \<Rightarrow> (False, emit (Exec_Failed toks) s')))
              (pshy_tokens_builtin toks)))"

partial_function (option) pshy_shell ::
  "(nat \<Rightarrow> bool) \<Rightarrow> (nat \<Rightarrow> forked) \<Rightarrow> shell \<Rightarrow> shell result option" where
  "pshy_shell realloc_ok fork s =
     (case shell_pass realloc_ok fork s of
        Inl e \<Rightarrow> Some (Inl e)
      | Inr (is_done, s') \<Rightarrow> if is_done then Some (Inr s') else pshy_shell realloc_ok fork s')"


section \<open>The buffer holds a string\<close>

text \<open>
  The buffer after adding some characters: they stand at its start, all the rest of its memory is zero, and there
  is at least one byte of it.
\<close>

definition buff_holds :: "string \<Rightarrow> pshy_buff \<Rightarrow> bool" where
  "buff_holds cs b \<longleftrightarrow> buff_len b = length cs \<and> length cs < buff_cap b
     \<and> buff_data b = map Some cs @ replicate (buff_cap b - length cs) (Some NUL)"

definition add_all :: "(nat \<Rightarrow> bool) \<Rightarrow> string \<Rightarrow> pshy_buff \<Rightarrow> pshy_buff result" where
  "add_all realloc_ok cs b = foldl (\<lambda>r c. rbind r (\<lambda>b. pshy_buff_add realloc_ok b c)) (Inr b) cs"

lemma create_holds: "buff_holds [] pshy_buff_create"
  by (simp add: buff_holds_def pshy_buff_create_def)

lemma add_holds:
  assumes "buff_holds cs b"
  shows "\<exists>b'. pshy_buff_add (\<lambda>_. True) b c = Inr b' \<and> buff_holds (cs @ [c]) b'"
proof -
  have b: "buff_len b = length cs" "length cs < buff_cap b"
    "buff_data b = map Some cs @ replicate (buff_cap b - length cs) (Some NUL)"
    using assms by (simp_all add: buff_holds_def)
  obtain k where k: "buff_cap b = length cs + Suc k" using b(2) less_iff_Suc_add by auto
  have upd: "(map Some cs @ replicate (Suc n) (Some NUL))[length cs := Some c]
      = map Some (cs @ [c]) @ replicate n (Some NUL)" for n
    by (simp add: list_update_append)
  show ?thesis
  proof (cases "buff_len b + 1 \<ge> buff_cap b")
    case True
    then have "k = 0" using b(1) k by simp
    then have cap: "buff_cap b = length cs + 1" using k by simp
    have "take (buff_len b + 1) (buff_data b @ replicate (2 * buff_cap b - length (buff_data b)) None)
          @ replicate (2 * buff_cap b - buff_len b - 1) (Some NUL)
        = map Some cs @ replicate (Suc (length cs + 1)) (Some NUL)"
      using b cap by (simp flip: replicate_Suc replicate_add)
    then have "pshy_buff_add (\<lambda>_. True) b c = Inr (b\<lparr>buff_cap := 2 * buff_cap b,
        buff_data := map Some (cs @ [c]) @ replicate (length cs + 1) (Some NUL), buff_len := length cs + 1\<rparr>)"
      using True b(1) upd [of "length cs + 1"] by (simp add: pshy_buff_add_def Let_def)
    then show ?thesis using cap by (simp add: buff_holds_def)
  next
    case False
    then have "pshy_buff_add (\<lambda>_. True) b c = Inr (b\<lparr>buff_data := (buff_data b)[length cs := Some c],
        buff_len := length cs + 1\<rparr>)"
      using b by (simp add: pshy_buff_add_def)
    moreover have "(buff_data b)[length cs := Some c] = map Some (cs @ [c]) @ replicate k (Some NUL)"
      using upd [of k] by (simp add: b(3) k)
    ultimately show ?thesis using False b(1) k by (simp add: buff_holds_def)
  qed
qed

lemma c_read_holds: "NUL \<notin> set cs \<Longrightarrow> 0 < n \<Longrightarrow> c_read (map Some cs @ replicate n (Some NUL)) = Inr cs"
  by (induction cs) (auto simp: gr0_conv_Suc)

lemma holds_read: "buff_holds cs b \<Longrightarrow> NUL \<notin> set cs \<Longrightarrow> c_read (pshy_buff_data b) = Inr cs"
  by (simp add: buff_holds_def pshy_buff_data_def c_read_holds)

lemma add_all_holds:
  "buff_holds cs b \<Longrightarrow> \<exists>b'. add_all (\<lambda>_. True) ds b = Inr b' \<and> buff_holds (cs @ ds) b'"
proof (induction ds arbitrary: cs b)
  case (Cons d ds)
  obtain b1 where b1: "pshy_buff_add (\<lambda>_. True) b d = Inr b1" "buff_holds (cs @ [d]) b1"
    using add_holds [OF Cons.prems] by blast
  show ?case using Cons.IH [OF b1(2)] b1(1) by (simp add: add_all_def)
qed (simp add: add_all_def)

text \<open>C28:
  The buffer is a string of any length: as long as memory lasts, adding characters never writes outside the buffer or
  leaves memory unwritten, however often it grows; the characters stand in it in order with a zero byte behind them,
  its length is their number, and it reads back as the string up to the first zero byte.\<close>

theorem buffer_is_string:
  "\<exists>b. add_all (\<lambda>_. True) cs pshy_buff_create = Inr b \<and> pshy_buff_len b = length cs
    \<and> length (buff_data b) = buff_cap b \<and> None \<notin> set (buff_data b)
    \<and> c_read (pshy_buff_data b) = Inr (takeWhile (\<lambda>c. c \<noteq> NUL) cs)"
proof -
  obtain b where b: "add_all (\<lambda>_. True) cs pshy_buff_create = Inr b" "buff_holds cs b"
    using add_all_holds [OF create_holds, of cs] by auto
  have "c_read (map Some cs @ replicate n (Some NUL)) = Inr (takeWhile (\<lambda>c. c \<noteq> NUL) cs)" if "0 < n" for n
    using that by (induction cs) (auto simp: gr0_conv_Suc)
  then show ?thesis using b by (auto simp: buff_holds_def pshy_buff_len_def pshy_buff_data_def)
qed

section \<open>The tokens are the words\<close>

text \<open>The pieces of a line between single blanks; the words are those that are not empty.\<close>

fun pieces :: "string \<Rightarrow> string list" where
  "pieces [] = [[]]"
| "pieces (c # s) = (if c = CHR '' '' then [] # pieces s
      else (case pieces s of w # ws \<Rightarrow> (c # w) # ws | [] \<Rightarrow> []))"

definition words_of :: "string \<Rightarrow> string list" where
  "words_of s = filter (\<lambda>w. w \<noteq> []) (pieces s)"

lemma pieces_not_Nil [simp]: "pieces s \<noteq> []"
  by (induction s) (auto split: list.splits)

lemma pieces_word: "CHR '' '' \<notin> set w \<Longrightarrow> pieces (w @ CHR '' '' # s) = w # pieces s"
  by (induction w) auto

lemma pieces_end: "CHR '' '' \<notin> set w \<Longrightarrow> pieces w = [w]"
  by (induction w) auto

lemma words_skip_blank: "words_of (CHR '' '' # s) = words_of s"
  by (simp add: words_of_def)

lemma words_drop: "words_of (dropWhile (\<lambda>c. c = CHR '' '') s) = words_of s"
  by (induction s) (auto simp: words_skip_blank)

lemma words_strtok: "words_of s = (case strtok_r s of None \<Rightarrow> [] | Some (w, s') \<Rightarrow> w # words_of s')"
proof -
  define d where "d = dropWhile (\<lambda>c. c = CHR '' '') s"
  define w where "w = takeWhile (\<lambda>c. c \<noteq> CHR '' '') d"
  define r where "r = dropWhile (\<lambda>c. c \<noteq> CHR '' '') d"
  have dw: "d = w @ r" by (simp add: w_def r_def)
  have w: "CHR '' '' \<notin> set w" by (auto simp: w_def dest: set_takeWhileD)
  have wd: "words_of s = words_of d" by (simp add: d_def words_drop)
  show ?thesis
  proof (cases "d = []")
    case True
    then have "words_of s = []" unfolding wd by (simp add: words_of_def)
    then show ?thesis using True by (simp add: strtok_r_def d_def)
  next
    case False
    then have "hd d \<noteq> CHR '' ''" using hd_dropWhile [of "\<lambda>c. c = CHR '' ''" s] by (simp add: d_def)
    then have ne: "w \<noteq> []" using False by (cases d) (simp_all add: w_def)
    have "words_of (w @ r) = w # words_of (drop 1 r)"
    proof (cases r)
      case Nil
      then show ?thesis using pieces_end [OF w] ne by (simp add: words_of_def)
    next
      case (Cons x xs)
      then have "x = CHR '' ''" using hd_dropWhile [of "\<lambda>c. c \<noteq> CHR '' ''" d] by (simp add: r_def)
      then show ?thesis using pieces_word [OF w, of xs] ne Cons by (simp add: words_of_def)
    qed
    moreover have "strtok_r s = Some (w, drop 1 r)"
      using False by (simp add: strtok_r_def Let_def d_def [symmetric] w_def r_def)
    ultimately show ?thesis using wd dw by simp
  qed
qed

lemma strtok_loop_words: "strtok_loop s toks = toks @ map Some (words_of s)"
proof (induction s toks rule: strtok_loop.induct)
  case (1 data toks)
  then show ?case
    by (cases "strtok_r data") (auto simp: strtok_loop.simps [of data toks] words_strtok [of data] add_item_def)
qed

lemma tokens_holds:
  "buff_holds cs b \<Longrightarrow> NUL \<notin> set cs \<Longrightarrow> pshy_tokens_from_buff b = Inr (map Some (words_of cs) @ [None])"
  by (simp add: pshy_tokens_from_buff_def holds_read strtok_loop_words add_item_def)


section \<open>Sessions\<close>

definition NL :: char where
  "NL = CHR 0x0A"

definition plain :: "string \<Rightarrow> bool" where
  "plain l \<longleftrightarrow> list_all (\<lambda>c. c \<noteq> NUL \<and> c \<noteq> CHR 0xFF \<and> c \<noteq> NL) l"

definition exits :: "string \<Rightarrow> bool" where
  "exits l \<longleftrightarrow> words_of l \<noteq> [] \<and> take 4 (hd (words_of l)) = ''exit''"

definition goes_on :: "string \<Rightarrow> bool" where
  "goes_on l \<longleftrightarrow> l = [] \<or> (words_of l \<noteq> [] \<and> \<not> exits l)"

text \<open>What the shell does for a line, as the parent of all it starts.\<close>

definition command :: "string \<Rightarrow> event list" where
  "command l =
     (let ws = words_of l in
      if l = [] then []
      else if take 2 (hd ws) = ''cd'' then [Chdir (if 2 \<le> length ws then Some (ws ! 1) else None)]
      else [Run (map Some ws @ [None])])"

definition start :: "string \<Rightarrow> shell" where
  "start input = \<lparr>instream = input, forks = 0, events = [], leaked = 0\<rparr>"

lemma plain_Cons: "plain (c # l) \<longleftrightarrow> c \<noteq> NUL \<and> c \<noteq> CHR 0xFF \<and> c \<noteq> NL \<and> plain l"
  by (auto simp: plain_def)

text \<open>A line is read up to the character that ends it, whatever that is.\<close>

definition ends_line :: "char \<Rightarrow> bool" where
  "ends_line c \<longleftrightarrow> c = NUL \<or> c = CHR 0xFF \<or> pshy_is_delimiter c"

definition line_chars :: "string \<Rightarrow> string" where
  "line_chars inp = takeWhile (\<lambda>c. \<not> ends_line c) inp"

definition after_line_chars :: "string \<Rightarrow> string" where
  "after_line_chars inp = drop (length (line_chars inp) + 1) inp"

lemma line_chars_simps [simp]:
  "line_chars [] = []" "after_line_chars [] = []"
  "ends_line c \<Longrightarrow> line_chars (c # inp) = []" "ends_line c \<Longrightarrow> after_line_chars (c # inp) = inp"
  "\<not> ends_line c \<Longrightarrow> line_chars (c # inp) = c # line_chars inp"
  "\<not> ends_line c \<Longrightarrow> after_line_chars (c # inp) = after_line_chars inp"
  by (simp_all add: line_chars_def after_line_chars_def)

lemma line_chars_NUL: "NUL \<notin> set (line_chars inp)"
  by (auto simp: line_chars_def ends_line_def dest: set_takeWhileD)

lemma line_chars_plain: "plain l \<Longrightarrow> line_chars (l @ NL # rest) = l \<and> after_line_chars (l @ NL # rest) = rest"
  by (induction l) (auto simp: plain_Cons ends_line_def pshy_is_delimiter_def NL_def)

lemma read_line_chars:
  "buff_holds cs b \<Longrightarrow>
   \<exists>b'. read_line (\<lambda>_. True) inp b = Inr (b', after_line_chars inp) \<and> buff_holds (cs @ line_chars inp) b'"
proof (induction inp arbitrary: cs b)
  case (Cons c inp)
  obtain b1 where b1: "pshy_buff_add (\<lambda>_. True) b c = Inr b1" "buff_holds (cs @ [c]) b1"
    using add_holds [OF Cons.prems] by blast
  show ?case
  proof (cases "ends_line c")
    case True
    then show ?thesis using Cons.prems by (auto simp: ends_line_def)
  next
    case False
    then show ?thesis using Cons.IH [OF b1(2)] b1(1) by (auto simp: ends_line_def)
  qed
qed simp

lemma pass_chars:
  "shell_pass (\<lambda>_. True) fork s =
    (let l = line_chars (instream s);
         s1 = s\<lparr>instream := after_line_chars (instream s), events := events s @ [Prompt],
                leaked := leaked s + (if l = [] then 1 else 0)\<rparr>;
         emit = (\<lambda>e s. s\<lparr>events := events s @ [e]\<rparr>); ws = words_of l; toks = map Some ws @ [None] in
     if l = [] then Inr (False, s1)
     else if ws = [] then Inl Null_Deref
     else if take 4 (hd ws) = ''exit'' then Inr (True, s1)
     else if take 2 (hd ws) = ''cd'' then Inr (False, emit (Chdir (toks ! 1)) s1)
     else (let s' = s1\<lparr>forks := forks s1 + 1\<rparr> in
           case fork (forks s1) of
             Fork_Failed \<Rightarrow> Inr (False, emit Fork_Error s')
           | Parent \<Rightarrow> Inr (False, emit (Run toks) s')
           | Child_Exec \<Rightarrow> Inr (True, emit (Exec toks) s')
           | Child_Exec_Failed \<Rightarrow> Inr (False, emit (Exec_Failed toks) s')))"
proof -
  let ?l = "line_chars (instream s)"
  obtain b where r: "read_line (\<lambda>_. True) (instream s) pshy_buff_create = Inr (b, after_line_chars (instream s))"
    and h: "buff_holds ?l b"
    using read_line_chars [OF create_holds, of "instream s"] by auto
  have t: "pshy_tokens_from_buff b = Inr (map Some (words_of ?l) @ [None])"
    by (rule tokens_holds [OF h line_chars_NUL])
  have "pshy_buff_len b = length ?l" "pshy_buff_free b = (if ?l = [] then 1 else 0)"
    using h by (simp_all add: buff_holds_def pshy_buff_len_def pshy_buff_free_def)
  then show ?thesis
    unfolding shell_pass_def r rbind.simps prod.case t
    by (cases "words_of ?l") (auto simp: Let_def pshy_tokens_builtin_def pshy_tokens_len_def split: forked.splits)
qed

lemma pass_line:
  assumes "plain l" and "instream s = l @ NL # rest"
  shows "shell_pass (\<lambda>_. True) fork s =
    (let s1 = s\<lparr>instream := rest, events := events s @ [Prompt], leaked := leaked s + (if l = [] then 1 else 0)\<rparr>;
         emit = (\<lambda>e s. s\<lparr>events := events s @ [e]\<rparr>); ws = words_of l; toks = map Some ws @ [None] in
     if l = [] then Inr (False, s1)
     else if ws = [] then Inl Null_Deref
     else if take 4 (hd ws) = ''exit'' then Inr (True, s1)
     else if take 2 (hd ws) = ''cd'' then Inr (False, emit (Chdir (toks ! 1)) s1)
     else (let s' = s1\<lparr>forks := forks s1 + 1\<rparr> in
           case fork (forks s1) of
             Fork_Failed \<Rightarrow> Inr (False, emit Fork_Error s')
           | Parent \<Rightarrow> Inr (False, emit (Run toks) s')
           | Child_Exec \<Rightarrow> Inr (True, emit (Exec toks) s')
           | Child_Exec_Failed \<Rightarrow> Inr (False, emit (Exec_Failed toks) s')))"
  using line_chars_plain [OF assms(1), of rest] by (simp add: pass_chars assms(2) Let_def)

lemma shell_step: "pshy_shell ok fork s =
    (case shell_pass ok fork s of Inl e \<Rightarrow> Some (Inl e)
     | Inr (is_done, s') \<Rightarrow> if is_done then Some (Inr s') else pshy_shell ok fork s')"
  by (rule pshy_shell.simps)

text \<open>The state after the lines of a session, all run by the parent.\<close>

definition after_line :: "string \<Rightarrow> shell \<Rightarrow> shell" where
  "after_line l s = s\<lparr>instream := drop (length l + 1) (instream s), events := events s @ Prompt # command l,
     leaked := leaked s + (if l = [] then 1 else 0),
     forks := forks s + (if command l \<noteq> [] \<and> (\<exists>t. command l = [Run t]) then 1 else 0)\<rparr>"

lemma pass_goes_on:
  assumes "plain l" and "goes_on l" and "instream s = l @ NL # rest"
  shows "shell_pass (\<lambda>_. True) (\<lambda>_. Parent) s = Inr (False, after_line l s)"
proof -
  have "(map Some ws @ [None]) ! 1 = (if 2 \<le> length ws then Some (ws ! 1) else None)" if "ws \<noteq> []" for ws :: "string list"
    using that by (cases ws; cases "tl ws") (auto simp: nth_append)
  then show ?thesis
    using assms(2) pass_line [OF assms(1,3), of "\<lambda>_. Parent"]
    by (auto simp: goes_on_def exits_def after_line_def command_def Let_def assms(3))
qed

abbreviation lines :: "string list \<Rightarrow> string" where
  "lines ls \<equiv> concat (map (\<lambda>l. l @ [NL]) ls)"

lemma shell_lines:
  assumes "\<forall>l\<in>set ls. plain l \<and> goes_on l" and "instream s = lines ls @ rest"
  shows "pshy_shell (\<lambda>_. True) (\<lambda>_. Parent) s = pshy_shell (\<lambda>_. True) (\<lambda>_. Parent) (foldl (\<lambda>s l. after_line l s) s ls)
    \<and> instream (foldl (\<lambda>s l. after_line l s) s ls) = rest
    \<and> events (foldl (\<lambda>s l. after_line l s) s ls) = events s @ concat (map (\<lambda>l. Prompt # command l) ls)
    \<and> leaked (foldl (\<lambda>s l. after_line l s) s ls) = leaked s + length (filter (\<lambda>l. l = []) ls)"
  using assms
proof (induction ls arbitrary: s)
  case (Cons l ls)
  have p: "shell_pass (\<lambda>_. True) (\<lambda>_. Parent) s = Inr (False, after_line l s)"
    using Cons.prems by (intro pass_goes_on [of l s "lines ls @ rest"]) simp_all
  have "instream (after_line l s) = lines ls @ rest" using Cons.prems(2) by (simp add: after_line_def)
  then show ?case
    using Cons.IH [of "after_line l s"] Cons.prems(1) shell_step [of "\<lambda>_. True" "\<lambda>_. Parent" s] p
    by (simp add: after_line_def)
qed simp


lemma pass_eof: "instream s = [] \<Longrightarrow> \<exists>s'. shell_pass ok fork s = Inr (False, s') \<and> instream s' = []"
  by (simp add: shell_pass_def pshy_buff_len_def pshy_buff_create_def Let_def)

lemma shell_eof:
  assumes "instream s = []"
  shows "pshy_shell ok fork s = None"
proof -
  have "instream s \<noteq> []" if "pshy_shell ok fork s = Some y" for y
  proof (rule pshy_shell.raw_induct [of "\<lambda>ok fork s y. instream s \<noteq> []", OF _ that])
    fix loop ok fork s y
    assume IH: "\<And>ok fork s y. loop ok fork s = Some y \<Longrightarrow> instream s \<noteq> []"
      and body: "(case shell_pass ok fork s of Inl e \<Rightarrow> Some (Inl e)
        | Inr (is_done, s') \<Rightarrow> if is_done then Some (Inr s') else loop ok fork s') = Some y"
    show "instream s \<noteq> []"
    proof
      assume "instream s = []"
      then obtain s' where "shell_pass ok fork s = Inr (False, s')" "instream s' = []" using pass_eof by blast
      then show False using body IH by auto
    qed
  qed
  then show ?thesis using assms by (cases "pshy_shell ok fork s") auto
qed

lemma session_run:
  assumes "\<forall>l\<in>set ls. plain l \<and> goes_on l" and "plain e" and "exits e"
  shows "\<exists>s. pshy_shell (\<lambda>_. True) (\<lambda>_. Parent) (start (lines ls @ e @ NL # rest)) = Some (Inr s)
    \<and> events s = concat (map (\<lambda>l. Prompt # command l) ls) @ [Prompt]
    \<and> instream s = rest \<and> leaked s = length (filter (\<lambda>l. l = []) ls)"
proof -
  let ?s = "foldl (\<lambda>s l. after_line l s) (start (lines ls @ e @ NL # rest)) ls"
  note l = shell_lines [OF assms(1), of "start (lines ls @ e @ NL # rest)" "e @ NL # rest"]
  have i: "instream ?s = e @ NL # rest" using l by (simp add: start_def)
  have "e \<noteq> []" using assms(3) by (auto simp: exits_def words_of_def)
  then have "shell_pass (\<lambda>_. True) (\<lambda>_. Parent) ?s =
      Inr (True, ?s\<lparr>instream := rest, events := events ?s @ [Prompt], leaked := leaked ?s\<rparr>)"
    using pass_line [OF assms(2) i, of "\<lambda>_. Parent"] assms(3) by (simp add: exits_def Let_def)
  then have "pshy_shell (\<lambda>_. True) (\<lambda>_. Parent) ?s
      = Some (Inr (?s\<lparr>instream := rest, events := events ?s @ [Prompt], leaked := leaked ?s\<rparr>))"
    using shell_step [of "\<lambda>_. True" "\<lambda>_. Parent" ?s] by simp
  then show ?thesis using l by (simp add: start_def)
qed

text \<open>C9:
  A session with an exit: for lines that are empty or start with a word, none of which exits, and then one that does,
  the shell runs the commands of the lines in order, a prompt before each, and stops there without reading on;
  every empty line loses a block of memory.\<close>

theorem shell_session:
  assumes "\<forall>l\<in>set ls. plain l \<and> goes_on l" and "plain e" and "exits e"
  shows "\<exists>s. pshy_shell (\<lambda>_. True) (\<lambda>_. Parent) (start (lines ls @ e @ NL # rest)) = Some (Inr s)
    \<and> events s = concat (map (\<lambda>l. Prompt # command l) ls) @ [Prompt]
    \<and> instream s = rest \<and> leaked s = length (filter (\<lambda>l. l = []) ls)"
  using assms by (rule session_run)

theorem shell_session_witness:
  "\<exists>s. pshy_shell (\<lambda>_. True) (\<lambda>_. Parent) (start (lines [''ls -l'', [], ''cd /tmp''] @ ''exit'' @ NL # ''x'')) = Some (Inr s)
    \<and> events s = [Prompt, Run [Some ''ls'', Some ''-l'', None], Prompt, Prompt, Chdir (Some ''/tmp''), Prompt]
    \<and> instream s = ''x'' \<and> leaked s = 1"
proof -
  have pl: "plain ''ls -l''" "plain ''cd /tmp''" "plain ''exit''" "plain []"
    by (simp_all add: plain_def NUL_def NL_def)
  have w: "words_of ''ls -l'' = [''ls'', ''-l'']" "words_of ''cd /tmp'' = [''cd'', ''/tmp'']" "words_of ''exit'' = [''exit'']"
    by (simp_all add: words_of_def)
  show ?thesis
    using shell_session [of "[''ls -l'', [], ''cd /tmp'']" "''exit''" "''x''"] pl w
    by (simp add: goes_on_def exits_def command_def)
qed

text \<open>Without an exit the shell does not end: after its last line the end of the input is taken for an empty line
  again and again.\<close>

theorem shell_never_ends:
  assumes "\<forall>l\<in>set ls. plain l \<and> goes_on l"
  shows "pshy_shell (\<lambda>_. True) (\<lambda>_. Parent) (start (lines ls)) = None"
proof -
  note l = shell_lines [OF assms, of "start (lines ls)" "[]"]
  have "pshy_shell (\<lambda>_. True) (\<lambda>_. Parent) (foldl (\<lambda>s l. after_line l s) (start (lines ls)) ls) = None"
    using l by (intro shell_eof) (simp add: start_def)
  then show ?thesis using l by (simp add: start_def)
qed

theorem shell_never_ends_witness:
  "pshy_shell (\<lambda>_. True) (\<lambda>_. Parent) (start (''ls'' @ [NL])) = None"
  using shell_never_ends [of "[''ls'']"]
  by (simp add: plain_def NUL_def NL_def goes_on_def exits_def words_of_def)

text \<open>
  What the shell does not handle: a line of blanks is compared through a null pointer; \<open>cd\<close> alone changes to a
  null path, since the null pointer at the end of the words is counted; every word that starts with \<open>exit\<close>
  exits; and a child whose \<open>execvp\<close> fails goes on as a second shell on the same input.
\<close>

lemma shell_gaps:
  "pshy_shell (\<lambda>_. True) (\<lambda>_. Parent) (start (''  '' @ [NL])) = Some (Inl Null_Deref)"
  "rmap (\<lambda>(d, s). events s) (shell_pass (\<lambda>_. True) (\<lambda>_. Parent) (start (''cd'' @ [NL]))) = Inr [Prompt, Chdir None]"
  "rmap fst (shell_pass (\<lambda>_. True) (\<lambda>_. Parent) (start (''exiting'' @ [NL]))) = Inr True"
  "rmap (\<lambda>(d, s). (d, events s)) (shell_pass (\<lambda>_. True) (\<lambda>_. Child_Exec_Failed) (start (''nope'' @ [NL])))
     = Inr (False, [Prompt, Exec_Failed [Some ''nope'', None]])"
proof -
  have pl: "plain ''  ''" "plain ''cd''" "plain ''exiting''" "plain ''nope''"
    by (simp_all add: plain_def NUL_def NL_def)
  have w: "words_of ''  '' = []" "words_of ''cd'' = [''cd'']" "words_of ''exiting'' = [''exiting'']"
    "words_of ''nope'' = [''nope'']"
    by (simp_all add: words_of_def)
  show "pshy_shell (\<lambda>_. True) (\<lambda>_. Parent) (start (''  '' @ [NL])) = Some (Inl Null_Deref)"
    using pass_line [OF pl(1), of "start (''  '' @ [NL])" "[]"] w
    by (subst shell_step) (simp add: start_def Let_def)
  show "rmap (\<lambda>(d, s). events s) (shell_pass (\<lambda>_. True) (\<lambda>_. Parent) (start (''cd'' @ [NL]))) = Inr [Prompt, Chdir None]"
    using pass_line [OF pl(2), of "start (''cd'' @ [NL])" "[]"] w by (simp add: start_def Let_def)
  show "rmap fst (shell_pass (\<lambda>_. True) (\<lambda>_. Parent) (start (''exiting'' @ [NL]))) = Inr True"
    using pass_line [OF pl(3), of "start (''exiting'' @ [NL])" "[]"] w by (simp add: start_def Let_def)
  show "rmap (\<lambda>(d, s). (d, events s)) (shell_pass (\<lambda>_. True) (\<lambda>_. Child_Exec_Failed) (start (''nope'' @ [NL])))
     = Inr (False, [Prompt, Exec_Failed [Some ''nope'', None]])"
    using pass_line [OF pl(4), of "start (''nope'' @ [NL])" "[]" "\<lambda>_. Child_Exec_Failed"] w
    by (simp add: start_def Let_def)
qed

end
