(* ===== verification/Dsu.thy ===== *)
theory Dsu
  imports Psycal_Client
begin

text \<open>
  The status line of \<^verbatim>\<open>misc/dsu.cc\<close>: four functions append to a buffer of 256 bytes what the calendar, a fixed
  reminder, the batteries and the clock give, and the line becomes the name of the root window. The files, the
  clock and the display are arguments.
\<close>

section \<open>Buffers\<close>

text \<open>A C string in memory, and \<open>strncat\<close>, which appends at most \<open>n\<close> bytes and a zero, wherever the buffer ends.\<close>

definition c_chars :: "bytes \<Rightarrow> bytes" where
  "c_chars memory = takeWhile (\<lambda>b. b \<noteq> 0) memory"

definition strncat :: "bytes \<Rightarrow> bytes \<Rightarrow> nat \<Rightarrow> bytes result" where
  "strncat dest src n =
     (let len = length (c_chars dest); s = take n (c_chars src) in
      if len + length s < length dest
      then Inr (take len dest @ s @ [0] @ drop (len + length s + 1) dest)
      else Inl Out_Of_Bounds)"

definition literal :: "string \<Rightarrow> bytes" where
  "literal s = map byte_of s"

text \<open>\<open>sprintf\<close> into an array, and the conversion of an integer with at least \<open>w\<close> digits.\<close>

definition sprintf :: "nat \<Rightarrow> string \<Rightarrow> bytes result" where
  "sprintf room s = (if length s < room then Inr (literal s) else Inl Out_Of_Bounds)"

definition snprintf :: "nat \<Rightarrow> string \<Rightarrow> bytes" where
  "snprintf room s = literal (take (room - 1) s)"

definition fmt_d :: "nat \<Rightarrow> int \<Rightarrow> string" where
  "fmt_d w i = (if 0 \<le> i then setw w (CHR ''0'') (print_int i) else CHR ''-'' # setw (w - 1) (CHR ''0'') (print_int (- i)))"

section \<open>The four parts\<close>

definition EngraveDate :: "tm \<Rightarrow> bytes \<Rightarrow> nat \<Rightarrow> bytes result" where
  "EngraveDate t buffer sz =
     rbind (sprintf 64 (''['' @ fmt_d 2 (tm_hour t) @ '':'' @ fmt_d 2 (tm_min t) @ '']['' @ fmt_d 2 (tm_mday t)
         @ ''/'' @ fmt_d 2 (tm_mon t + 1) @ ''/'' @ fmt_d 2 (tm_year t + 1900) @ '']''))
       (\<lambda>store. strncat buffer store sz)"

text \<open>The first three bytes of a battery's file, up to a newline; a missing byte is a zero and read as a digit too.\<close>

fun battery_power :: "bytes \<Rightarrow> u16 \<Rightarrow> u16" where
  "battery_power [] tmp_power = tmp_power"
| "battery_power (c # cs) tmp_power =
     (if c = 0x0A then tmp_power else battery_power cs (ucast c - 48 + tmp_power * 10))"

definition fcontents :: "bytes \<Rightarrow> bytes" where
  "fcontents file = take 3 file @ replicate (3 - length file) 0"

definition battery_path :: "nat \<Rightarrow> string" where
  "battery_path n = take 255 (''/sys/class/power_supply/BAT'' @ print_nat 10 n @ ''/capacity'')"

text \<open>The loop over the batteries from \<open>bat_count\<close> on, of which \<open>n\<close> may follow: their number and their sum.\<close>

fun batteries :: "(string \<Rightarrow> bytes option) \<Rightarrow> nat \<Rightarrow> nat \<Rightarrow> u16 \<Rightarrow> nat \<times> u16" where
  "batteries files 0 bat_count cumulative = (bat_count, cumulative)"
| "batteries files (Suc n) bat_count cumulative =
     (case files (battery_path bat_count) of
        None \<Rightarrow> (bat_count, cumulative)
      | Some file \<Rightarrow> batteries files n (bat_count + 1) (cumulative + battery_power (fcontents file) 0))"

definition EngraveBattery :: "(string \<Rightarrow> bytes option) \<Rightarrow> bytes \<Rightarrow> nat \<Rightarrow> bytes result" where
  "EngraveBattery files buffer sz =
     (let (bat_count, cumulative_power) = batteries files 32 0 0 in
      if bat_count = 0 then Inl Div_By_Zero
      else strncat buffer (snprintf 16 (''[BAT:'' @ fmt_d 3 (int (unat cumulative_power div bat_count)) @ '']'')) sz)"

text \<open>\<open>strftime\<close> for the hour and the minute of a time of the day.\<close>

definition hourglass :: "tm \<Rightarrow> bytes" where
  "hourglass t = literal (fmt_d 2 (tm_hour t) @ ''h'' @ fmt_d 2 (tm_min t))"

fun strncats :: "bytes \<Rightarrow> bytes list \<Rightarrow> nat \<Rightarrow> bytes result" where
  "strncats buffer [] sz = Inr buffer"
| "strncats buffer (s # ss) sz = rbind (strncat buffer s sz) (\<lambda>buffer. strncats buffer ss sz)"

fun engrave_events :: "bytes \<Rightarrow> event list \<Rightarrow> nat \<Rightarrow> bytes result" where
  "engrave_events buffer [] sz = Inr buffer"
| "engrave_events buffer (e # es) sz =
     rbind (strncats buffer [hourglass (ev_tm e), literal '':'', ev_message e, literal ''/''] sz)
       (\<lambda>buffer. engrave_events buffer es sz)"

definition EngraveCalendar ::
  "(int \<Rightarrow> tm) \<Rightarrow> (u64 \<Rightarrow> bool) \<Rightarrow> (nat \<Rightarrow> bytes) \<Rightarrow> string option \<Rightarrow> (string \<Rightarrow> bytes option) \<Rightarrow> bytes \<Rightarrow> nat \<Rightarrow> bytes result"
where
  "EngraveCalendar localtime new_ok heap home files buffer sz =
     rbind (EventsFilePath home) (\<lambda>path.
     rbind (ReadEventsFrom localtime new_ok heap 0 (case files path of None \<Rightarrow> [] | Some is \<Rightarrow> is)) (\<lambda>events.
     rbind (strncat buffer (literal ''['') sz) (\<lambda>buffer.
     rbind (engrave_events buffer events sz) (\<lambda>buffer.
       strncat buffer (literal '']'') sz))))"

definition reminder :: bytes where
  "reminder = [byte_of (CHR ''[''), 0xe6, 0xad, 0xa3, 0xe7, 0xbe, 0xa9, byte_of (CHR '']'')]"

definition EngraveReminder :: "bytes \<Rightarrow> nat \<Rightarrow> bytes result" where
  "EngraveReminder buffer sz = strncat buffer reminder sz"

section \<open>One pass of the loop\<close>

text \<open>The buffer after the engravers, then the new name of the root window, if there is a display with one.\<close>

record dsu_host =
  d_localtime :: "int \<Rightarrow> tm"
  d_now :: tm
  d_new_ok :: "u64 \<Rightarrow> bool"
  d_heap :: "nat \<Rightarrow> bytes"
  d_home :: "string option"
  d_files :: "string \<Rightarrow> bytes option"

definition engrave_all :: "dsu_host \<Rightarrow> bytes \<Rightarrow> bytes result" where
  "engrave_all h buffer =
     (let sz = length buffer in
      rbind (EngraveCalendar (d_localtime h) (d_new_ok h) (d_heap h) (d_home h) (d_files h) buffer sz) (\<lambda>buffer.
      rbind (EngraveReminder buffer sz) (\<lambda>buffer.
      rbind (EngraveBattery (d_files h) buffer sz) (\<lambda>buffer.
        EngraveDate (d_now h) buffer sz))))"

definition dsu_pass :: "dsu_host \<Rightarrow> bool \<Rightarrow> bool \<Rightarrow> bytes \<Rightarrow> bytes result" where
  "dsu_pass h display root window_name =
     rmap (\<lambda>buffer. if display \<and> root then c_chars buffer else window_name) (engrave_all h (replicate 256 0))"

section \<open>Appending\<close>

text \<open>A string in a zeroed buffer of \<open>n\<close> bytes, if it fits with its zero: then appending is appending.\<close>

definition put :: "nat \<Rightarrow> bytes \<Rightarrow> bytes result" where
  "put n s = (if length s < n then Inr (s @ replicate (n - length s) 0) else Inl Out_Of_Bounds)"

lemma c_chars_no_zero [simp]: "0 \<notin> set (c_chars s)"
  unfolding c_chars_def by (auto dest: set_takeWhileD)

lemma c_chars_plain [simp]: "0 \<notin> set s \<Longrightarrow> c_chars s = s"
  unfolding c_chars_def by (rule takeWhile_all) auto

lemma c_chars_padded: "0 \<notin> set s \<Longrightarrow> c_chars (s @ 0 # r) = s"
  unfolding c_chars_def by (subst takeWhile_append2) auto

lemma c_chars_zeros: "0 \<notin> set s \<Longrightarrow> c_chars (s @ replicate m 0) = s"
  using c_chars_padded [of s "replicate (m - 1) 0"] by (cases m) simp_all

lemma strncat_put:
  assumes "0 \<notin> set s"
  shows "rbind (put n s) (\<lambda>b. strncat b t n) = put n (s @ c_chars t)"
proof (cases "length s < n")
  case True
  define m where "m = n - length s - 1"
  have n: "n - length s = Suc m" using True by (simp add: m_def)
  have c: "c_chars (s @ replicate (n - length s) 0) = s"
    using c_chars_padded [OF assms] by (simp add: n)
  show ?thesis
  proof (cases "length s + length (c_chars t) < n")
    case fits: True
    then have "take n (c_chars t) = c_chars t" by simp
    moreover have "drop (length s + length (c_chars t) + 1) (s @ replicate (n - length s) 0) =
        replicate (n - length s - length (c_chars t) - 1) 0" by simp
    moreover have "0 # replicate (n - length s - length (c_chars t) - 1) 0 = replicate (n - length (s @ c_chars t)) (0 :: u8)"
      using fits by (simp flip: replicate_Suc add: Suc_diff_le)
    ultimately show ?thesis using True fits by (simp add: put_def strncat_def c Let_def)
  next
    case False
    then have "\<not> length s + length (take n (c_chars t)) < n" by auto
    then show ?thesis using True False by (simp add: put_def strncat_def c Let_def)
  qed
qed (simp add: put_def)

lemma strncats_put:
  "0 \<notin> set s \<Longrightarrow> rbind (put n s) (\<lambda>b. strncats b ts n) = put n (s @ concat (map c_chars ts))"
proof (induction ts arbitrary: s)
  case Nil
  then show ?case by (cases "put n s") simp_all
next
  case (Cons t ts)
  have "rbind (put n s) (\<lambda>b. strncats b (t # ts) n) = rbind (rbind (put n s) (\<lambda>b. strncat b t n)) (\<lambda>b. strncats b ts n)"
    by (cases "put n s") simp_all
  also have "\<dots> = put n ((s @ c_chars t) @ concat (map c_chars ts))"
    unfolding strncat_put [OF Cons.prems] using Cons.prems by (intro Cons.IH) simp
  finally show ?case by simp
qed

definition entry :: "event \<Rightarrow> bytes" where
  "entry e = concat (map c_chars [hourglass (ev_tm e), literal '':'', ev_message e, literal ''/''])"

lemma entry_no_zero: "0 \<notin> set (entry e)"
  by (simp add: entry_def)

lemma engrave_events_put:
  "0 \<notin> set s \<Longrightarrow> rbind (put n s) (\<lambda>b. engrave_events b es n) = put n (s @ concat (map entry es))"
proof (induction es arbitrary: s)
  case Nil
  then show ?case by (cases "put n s") simp_all
next
  case (Cons e es)
  let ?ts = "[hourglass (ev_tm e), literal '':'', ev_message e, literal ''/'']"
  have "rbind (put n s) (\<lambda>b. engrave_events b (e # es) n) = rbind (rbind (put n s) (\<lambda>b. strncats b ?ts n)) (\<lambda>b. engrave_events b es n)"
    by (cases "put n s") simp_all
  also have "\<dots> = put n ((s @ entry e) @ concat (map entry es))"
    unfolding strncats_put [OF Cons.prems] entry_def [symmetric]
    using Cons.prems entry_no_zero by (intro Cons.IH) simp
  finally show ?case by simp
qed

lemma put_zeroed: "0 < n \<Longrightarrow> put n [] = Inr (replicate n 0)"
  by (simp add: put_def)

lemma put_put_chars: "0 \<notin> set s \<Longrightarrow> rmap c_chars (put n s) = (if length s < n then Inr s else Inl Out_Of_Bounds)"
  by (simp add: put_def c_chars_zeros)

subsection \<open>Text without zeros\<close>

lemma literal_no_zero: "CHR 0x00 \<notin> set s \<Longrightarrow> 0 \<notin> set (literal s)"
  by (auto simp: literal_def byte_of_eq_0_iff)

lemma print_nat_no_NUL: "CHR 0x00 \<notin> set (print_nat 10 n)"
proof
  assume "CHR 0x00 \<in> set (print_nat 10 n)"
  then have "is_base_digit 10 (CHR 0x00)" using set_print_nat [of 10 "CHR 0x00" n] by simp
  moreover have "\<not> is_base_digit 10 (CHR 0x00)" by code_simp
  ultimately show False by simp
qed

lemma fmt_d_no_NUL: "CHR 0x00 \<notin> set (fmt_d w i)"
  using print_nat_no_NUL by (auto simp: fmt_d_def setw_def print_int_def)

section \<open>The status line\<close>

definition battery_text :: "nat \<times> u16 \<Rightarrow> string" where
  "battery_text b = ''[BAT:'' @ fmt_d 3 (int (unat (snd b) div fst b)) @ '']''"

definition date_text :: "tm \<Rightarrow> string" where
  "date_text t = ''['' @ fmt_d 2 (tm_hour t) @ '':'' @ fmt_d 2 (tm_min t) @ '']['' @ fmt_d 2 (tm_mday t)
     @ ''/'' @ fmt_d 2 (tm_mon t + 1) @ ''/'' @ fmt_d 2 (tm_year t + 1900) @ '']''"

definition status_line :: "event list \<Rightarrow> nat \<times> u16 \<Rightarrow> tm \<Rightarrow> bytes" where
  "status_line events b now =
     literal ''['' @ concat (map entry events) @ literal '']'' @ reminder
     @ snprintf 16 (battery_text b) @ literal (date_text now)"

lemma brackets_no_zero: "0 \<notin> set (literal ''['')" "0 \<notin> set (literal '']'')" "0 \<notin> set reminder"
  by code_simp+

lemma snprintf_no_zero: "0 \<notin> set (snprintf 16 (battery_text b))"
  unfolding snprintf_def
  by (intro literal_no_zero) (auto simp: battery_text_def fmt_d_no_NUL dest: in_set_takeD)

lemma date_no_zero: "0 \<notin> set (literal (date_text t))"
  by (intro literal_no_zero) (simp add: date_text_def fmt_d_no_NUL)

lemma rbind_put: "0 \<notin> set s \<Longrightarrow> 0 \<notin> set t \<Longrightarrow> rbind (put n s) (\<lambda>b. strncat b t n) = put n (s @ t)"
  using strncat_put [of s n t] by simp

lemma rbind_assoc: "rbind r (\<lambda>x. rbind (f x) g) = rbind (rbind r f) g"
  by (cases r) simp_all

text \<open>The engravers, one after the other.\<close>

lemma EngraveCalendar_put:
  assumes "EventsFilePath home = Inr path"
    and "ReadEventsFrom lt new_ok heap 0 (case files path of None \<Rightarrow> [] | Some is \<Rightarrow> is) = Inr evs" and "0 < n"
  shows "EngraveCalendar lt new_ok heap home files (replicate n 0) n =
    put n (literal ''['' @ concat (map entry evs) @ literal '']'')"
proof -
  have "EngraveCalendar lt new_ok heap home files (replicate n 0) n =
    rbind (rbind (rbind (put n []) (\<lambda>b. strncat b (literal ''['') n)) (\<lambda>b. engrave_events b evs n)) (\<lambda>b. strncat b (literal '']'') n)"
    using assms by (simp add: EngraveCalendar_def put_zeroed rbind_assoc)
  also have "\<dots> = put n (literal ''['' @ concat (map entry evs) @ literal '']'')"
    using brackets_no_zero entry_no_zero by (simp add: rbind_put engrave_events_put)
  finally show ?thesis .
qed

lemma engrave_all_line:
  assumes "EventsFilePath (d_home h) = Inr path"
    and "ReadEventsFrom (d_localtime h) (d_new_ok h) (d_heap h) 0 (case d_files h path of None \<Rightarrow> [] | Some is \<Rightarrow> is) = Inr evs"
    and "0 < n" and "fst (batteries (d_files h) 32 0 0) \<noteq> 0" and "length (date_text (d_now h)) < 64"
  shows "engrave_all h (replicate n 0) = put n (status_line evs (batteries (d_files h) 32 0 0) (d_now h))"
proof -
  let ?b = "batteries (d_files h) 32 0 0"
  let ?cal = "literal ''['' @ concat (map entry evs) @ literal '']''"
  have battery: "EngraveBattery (d_files h) buffer n = strncat buffer (snprintf 16 (battery_text ?b)) n" for buffer
    using assms(4) by (cases ?b) (simp add: EngraveBattery_def battery_text_def)
  have date: "EngraveDate (d_now h) buffer n = strncat buffer (literal (date_text (d_now h))) n" for buffer
    unfolding EngraveDate_def date_text_def [symmetric] using assms(5) by (simp add: sprintf_def)
  have cal: "EngraveCalendar (d_localtime h) (d_new_ok h) (d_heap h) (d_home h) (d_files h) (replicate n 0) n = put n ?cal"
    by (rule EngraveCalendar_put) (rule assms)+
  have zero: "0 \<notin> set ?cal" using brackets_no_zero entry_no_zero by simp
  have "engrave_all h (replicate n 0) =
    rbind (rbind (rbind (put n ?cal) (\<lambda>b. strncat b reminder n)) (\<lambda>b. strncat b (snprintf 16 (battery_text ?b)) n))
      (\<lambda>b. strncat b (literal (date_text (d_now h))) n)"
    by (simp add: engrave_all_def Let_def cal EngraveReminder_def battery date rbind_assoc)
  also have "\<dots> = put n (status_line evs ?b (d_now h))"
    using zero brackets_no_zero(3) snprintf_no_zero date_no_zero
    by (simp add: rbind_put status_line_def)
  finally show ?thesis .
qed

lemma engrave_all_runs_out:
  assumes "EventsFilePath (d_home h) = Inr path"
    and "ReadEventsFrom (d_localtime h) (d_new_ok h) (d_heap h) 0 (case d_files h path of None \<Rightarrow> [] | Some is \<Rightarrow> is) = Inl e"
  shows "engrave_all h buffer = Inl e"
  using assms by (simp add: engrave_all_def EngraveCalendar_def)

text \<open>The events of the status line as the file gives them back.\<close>

definition shown :: "dsu_host \<Rightarrow> (tm \<Rightarrow> int) \<Rightarrow> event list \<Rightarrow> event list" where
  "shown h mktime es = map (\<lambda>(k, e). read_back (d_localtime h) mktime (d_heap h) k e) (enumerate 0 es)"

text \<open>C7: the events that the calendar's server saved come to the status line in the order of their times, each with
  its hour and its message, followed by the reminder, the batteries and the date, if the line is shorter than the buffer;
  otherwise an append writes outside it. A message goes on into the memory behind the buffer it was read into, whatever
  that holds, up to the first zero byte; where there is none, and always where nothing may be read there, the pass is a
  fault.\<close>

theorem status_shows_queue:
  assumes "SaveCurrentEvents mktime Written queue old_file = Inr file"
    and "EventsFilePath (d_home h) = Inr path" and "d_files h path = Some file"
    and "\<forall>e\<in>set queue. fits e \<and> d_new_ok h (of_nat (length (ev_message e)))"
    and "fst (batteries (d_files h) 32 0 0) \<noteq> 0" and "length (date_text (d_now h)) < 64"
  shows "\<exists>es. mset es = mset queue \<and> sorted (map (GetUnixTimestamp mktime) es)
    \<and> dsu_pass h True True w =
        (if runs_out (d_heap h) 0 es then Inl Out_Of_Bounds
         else let line = status_line (shown h mktime es) (batteries (d_files h) 32 0 0) (d_now h)
           in if length line < 256 then Inr line else Inl Out_Of_Bounds)"
proof -
  obtain es where es: "pops (pq_top mktime) (pq_pop mktime) (length queue) queue = Inr es"
    "mset es = mset queue" "sorted (map (GetUnixTimestamp mktime) es)"
    using pq.pops_sorted [of queue "length queue" mktime] by auto
  have saved: "file = concat (map (dump_event mktime) es)"
    using assms(1) es(1) by (simp add: SaveCurrentEvents_def)
  have "set es = set queue" using es(2) by (metis set_mset_mset)
  then have read: "ReadEventsFrom (d_localtime h) (d_new_ok h) (d_heap h) 0 file =
      (if runs_out (d_heap h) 0 es then Inl Out_Of_Bounds else Inr (shown h mktime es))"
    unfolding saved shown_def using assms(4) by (intro ReadEventsFrom_dump) auto
  let ?line = "status_line (shown h mktime es) (batteries (d_files h) 32 0 0) (d_now h)"
  have "dsu_pass h True True w =
      (if runs_out (d_heap h) 0 es then Inl Out_Of_Bounds else if length ?line < 256 then Inr ?line else Inl Out_Of_Bounds)"
  proof (cases "runs_out (d_heap h) 0 es")
    case True
    then show ?thesis using read engrave_all_runs_out [OF assms(2)] assms(3) by (simp add: dsu_pass_def)
  next
    case False
    have "engrave_all h (replicate 256 0) = put 256 ?line"
      using read assms False by (intro engrave_all_line) auto
    moreover have "0 \<notin> set ?line"
      using brackets_no_zero entry_no_zero snprintf_no_zero date_no_zero by (simp add: status_line_def)
    ultimately show ?thesis using False by (simp add: dsu_pass_def put_put_chars)
  qed
  then show ?thesis using es(2,3) by (auto simp: Let_def)
qed

text \<open>Without a battery the program divides by zero as soon as the calendar has fitted; without a home the exception
  of the path leaves it.\<close>

lemma no_battery:
  assumes "EventsFilePath (d_home h) = Inr path" and "d_files h path = None" and "d_files h (battery_path 0) = None"
  shows "dsu_pass h display root w = Inl Div_By_Zero"
proof -
  have "EngraveCalendar (d_localtime h) (d_new_ok h) (d_heap h) (d_home h) (d_files h) (replicate 256 0) 256 =
      put 256 (literal ''['' @ literal '']'')"
    using EngraveCalendar_put [of "d_home h" path "d_localtime h" "d_new_ok h" "d_heap h" "d_files h" "[]" 256] assms
    by (simp add: ReadEventsFrom.simps)
  moreover have "batteries (d_files h) 32 0 0 = (0, 0)"
    using assms(3) by (simp add: numeral_eq_Suc)
  moreover have "rbind (put 256 (literal ''['' @ literal '']'')) (\<lambda>b. strncat b reminder 256) = put 256 (literal ''['' @ literal '']'' @ reminder)"
    using brackets_no_zero by (simp add: rbind_put)
  moreover have "length (literal ''['' @ literal '']'' @ reminder) < 256" by (simp add: literal_def reminder_def)
  ultimately show ?thesis
    by (simp add: dsu_pass_def engrave_all_def EngraveReminder_def EngraveBattery_def rbind_assoc put_def)
qed

lemma no_home: "d_home h = None \<Longrightarrow> dsu_pass h display root w = Inl (Thrown ''bad_optional_access'')"
  by (simp add: dsu_pass_def engrave_all_def EngraveCalendar_def EventsFilePath_def ApplicationPath_def
      MakeApplicationPath_def GetConfigPath_def GetHomePath_def)

section \<open>Witness\<close>

definition sample_queue :: "event list" where
  "sample_queue = [sample_event 7 [104], sample_event 5 [105, 106]]"

definition sample_file :: bytes where
  "sample_file = dump_event sample_mktime (sample_event 5 [105, 106]) @ dump_event sample_mktime (sample_event 7 [104])"

definition sample_path :: string where
  "sample_path = ''/r/.config/psycal/events.psycal''"

definition sample_dsu :: dsu_host where
  "sample_dsu = \<lparr>d_localtime = sample_localtime, d_now = sample_localtime 9, d_new_ok = (\<lambda>_. True), d_heap = (\<lambda>_. [0]),
     d_home = Some ''/r'',
     d_files = (\<lambda>f. if f = sample_path then Some sample_file else if f = battery_path 0 then Some [57, 55, 10] else None)\<rparr>"

theorem status_shows_queue_witness:
  "\<exists>es. mset es = mset sample_queue \<and> sorted (map (GetUnixTimestamp sample_mktime) es)
    \<and> dsu_pass sample_dsu True True [] =
        (let line = status_line (shown sample_dsu sample_mktime es) (1, 97) (sample_localtime 9)
         in if length line < 256 then Inr line else Inl Out_Of_Bounds)"
proof -
  have save: "SaveCurrentEvents sample_mktime Written sample_queue [] = Inr sample_file"
    by (simp add: sample_queue_def sample_file_def SaveCurrentEvents_def pq_pop_def SoonerCmp_def sample_timestamp sample_event_inject)
  have path: "EventsFilePath (d_home sample_dsu) = Inr sample_path" by code_simp
  have paths: "battery_path 0 \<noteq> sample_path" "battery_path 1 \<noteq> sample_path" "battery_path 1 \<noteq> battery_path 0"
    by code_simp+
  have "battery_power (fcontents [57, 55, 10]) 0 = 97" by code_simp
  then have battery: "batteries (d_files sample_dsu) 32 0 0 = (1, 97)"
    using paths by (simp add: sample_dsu_def numeral_eq_Suc)
  have date: "length (date_text (d_now sample_dsu)) < 64" by code_simp
  have zero: "\<not> runs_out (d_heap sample_dsu) 0 es" for es by (simp add: runs_out_def sample_dsu_def)
  have files: "d_files sample_dsu sample_path = Some sample_file" by (simp add: sample_dsu_def)
  have fit: "\<forall>e\<in>set sample_queue. fits e \<and> d_new_ok sample_dsu (of_nat (length (ev_message e)))"
    by (simp add: sample_dsu_def sample_queue_def fits_sample_event)
  have now: "d_now sample_dsu = sample_localtime 9" by (simp add: sample_dsu_def)
  show ?thesis
    using status_shows_queue [OF save path files fit _ date, of "[]"] battery zero now by simp
qed

end
