(* ===== verification/Psyseg.thy ===== *)
theory Psyseg
  imports Psycal Net
begin

text \<open>
  The library \<^verbatim>\<open>libpsyseg/\<close>, in C, with its program: it writes a copy of a file behind a header with a signature and
  tags. The files are a map from their names to their bytes; the answers of the system calls are arguments.
\<close>

type_synonym files = "string \<Rightarrow> bytes option"

record psyseg_file =
  file_size :: u64
  final_size :: u64
  sig_size :: u64
  signature :: bytes
  tag_size :: u64
  tag :: bytes
  mapped_name :: string

text \<open>What the system does: whether it maps a file and creates one, and how much of some bytes a write takes.\<close>

record psyseg_system =
  sys_mmap :: "string \<Rightarrow> bool"
  sys_creat :: bool
  sys_write :: "bytes \<Rightarrow> nat"

definition set_file_size :: "files \<Rightarrow> string \<Rightarrow> psyseg_file \<Rightarrow> psyseg_file result" where
  "set_file_size fs filename pf =
     (case fs filename of
        None \<Rightarrow> Inl Aborted
      | Some c \<Rightarrow>
          let sz = of_nat (length c)
          in Inr (pf\<lparr>file_size := sz, final_size := sz + 8 + sig_size pf + 8 + tag_size pf\<rparr>))"

text \<open>The mapping is private; what is not yet touched of it follows the file, so the cursor is the file's name.\<close>

definition set_mmap :: "psyseg_system \<Rightarrow> files \<Rightarrow> string \<Rightarrow> psyseg_file \<Rightarrow> psyseg_file result" where
  "set_mmap sys fs filename pf =
     (if fs filename = None \<or> \<not> sys_mmap sys filename then Inl Aborted
      else Inr (pf\<lparr>mapped_name := filename\<rparr>))"

definition out_bin :: string where
  "out_bin = ''out.bin''"

definition creat :: "psyseg_system \<Rightarrow> files \<Rightarrow> files" where
  "creat sys fs = (if sys_creat sys then fs(out_bin \<mapsto> []) else fs)"

definition ftruncate :: "psyseg_system \<Rightarrow> u64 \<Rightarrow> files \<Rightarrow> files" where
  "ftruncate sys sz fs =
     (if sys_creat sys
      then fs(out_bin := map_option (\<lambda>c. take (unat sz) c @ replicate (unat sz - length c) 0) (fs out_bin))
      else fs)"

text \<open>A write at the position of the descriptor, which it moves; results are not looked at.\<close>

definition write_out :: "psyseg_system \<Rightarrow> bytes \<Rightarrow> nat \<times> files \<Rightarrow> nat \<times> files" where
  "write_out sys d pfs =
     (let (pos, fs) = pfs; d = take (sys_write sys d) d in
      if sys_creat sys
      then (pos + length d, fs(out_bin := map_option (\<lambda>c. take pos c @ d @ drop (pos + length d) c) (fs out_bin)))
      else pfs)"

definition create_and_stamp :: "psyseg_system \<Rightarrow> psyseg_file \<Rightarrow> files \<Rightarrow> files result" where
  "create_and_stamp sys pf fs =
     (let fs = ftruncate sys (final_size pf) (creat sys fs);
          pfs = write_out sys (native_u64 (sig_size pf)) (0, fs);
          pfs = write_out sys (signature pf) pfs;
          pfs = write_out sys (native_u64 (tag_size pf)) pfs;
          pfs = write_out sys (tag pf) pfs
      in rmap (\<lambda>memory. snd (write_out sys memory pfs))
           (case snd pfs (mapped_name pf) of
              None \<Rightarrow> Inl Out_Of_Bounds
            | Some c \<Rightarrow> read_range c 0 (unat (file_size pf))))"

definition psyseg_mark :: "psyseg_system \<Rightarrow> string \<Rightarrow> string \<Rightarrow> string \<Rightarrow> files \<Rightarrow> files result" where
  "psyseg_mark sys filename sigfile tags fs =
     (let sfile = \<lparr>file_size = 0, final_size = 0, sig_size = of_nat (length sigfile), signature = map byte_of sigfile,
         tag_size = of_nat (length tags), tag = map byte_of tags, mapped_name = []\<rparr>
      in rbind (set_file_size fs filename sfile) (\<lambda>sfile.
         rbind (set_mmap sys fs filename sfile) (\<lambda>sfile.
           create_and_stamp sys sfile fs)))"

section \<open>The program\<close>

record seg_session =
  seg_filename :: "string option"
  seg_sig_filename :: "string option"
  seg_tags :: "string option"

fun seg_options :: "(char \<times> string option) list \<Rightarrow> seg_session \<Rightarrow> seg_session result" where
  "seg_options [] sess = Inr sess"
| "seg_options ((opt, optarg) # oas) sess =
     (if opt = CHR ''t'' then rbind (deref optarg) (\<lambda>a. seg_options oas (sess\<lparr>seg_tags := Some a\<rparr>))
      else if opt = CHR ''s'' then rbind (deref optarg) (\<lambda>a. seg_options oas (sess\<lparr>seg_sig_filename := Some a\<rparr>))
      else if opt = CHR ''f'' then rbind (deref optarg) (\<lambda>a. seg_options oas (sess\<lparr>seg_filename := Some a\<rparr>))
      else Inl Exited)"

text \<open>\<open>optind\<close> is 1 when every word is an operand.\<close>

definition seg_main :: "psyseg_system \<Rightarrow> string list \<Rightarrow> files \<Rightarrow> files result" where
  "seg_main sys args fs =
     (let (oas, operands) = getopt ''t:s:f:'' [] args in
      rbind (seg_options oas \<lparr>seg_filename = None, seg_sig_filename = None, seg_tags = None\<rparr>) (\<lambda>sess.
        if length operands = length args then Inl Exited
        else
          case (seg_filename sess, seg_sig_filename sess, seg_tags sess) of
            (Some f, Some s, Some t) \<Rightarrow> psyseg_mark sys f s t fs
          | _ \<Rightarrow> Inl Exited))"

section \<open>The stamped file\<close>

text \<open>The layout, and a reader of it.\<close>

definition stamped :: "bytes \<Rightarrow> bytes \<Rightarrow> bytes \<Rightarrow> bytes" where
  "stamped s t c = native_u64 (of_nat (length s)) @ s @ native_u64 (of_nat (length t)) @ t @ c"

definition unstamp :: "bytes \<Rightarrow> bytes \<times> bytes \<times> bytes" where
  "unstamp b =
     (let n = unat (native_of (take 8 b)); b = drop 8 b; s = take n b; b = drop n b;
          m = unat (native_of (take 8 b)); b = drop 8 b
      in (s, take m b, drop m b))"

lemma unstamp_stamped:
  assumes "length s < 2 ^ 64" "length t < 2 ^ 64"
  shows "unstamp (stamped s t c) = (s, t, c)"
  using assms by (simp add: unstamp_def stamped_def native.enc_length native.dec_enc unat_of_nat Let_def)

text \<open>A write of everything at the end of what is written, in front of zeros.\<close>

lemma write_out_next:
  assumes "sys_creat sys" "sys_write sys d = length d" "fs out_bin = Some (w @ replicate n 0)" "length d \<le> n"
  shows "write_out sys d (length w, fs) = (length (w @ d), fs(out_bin \<mapsto> (w @ d) @ replicate (n - length d) 0))"
  using assms by (simp add: write_out_def)

text \<open>Several writes in a row.\<close>

lemma write_out_all:
  assumes "sys_creat sys" "\<forall>d. sys_write sys d = length d"
  shows "foldl (\<lambda>pfs d. write_out sys d pfs) (length w, fs(out_bin \<mapsto> w @ replicate (length (concat ds) + k) 0)) ds =
    (length (w @ concat ds), fs(out_bin \<mapsto> (w @ concat ds) @ replicate k 0))"
proof (induction ds arbitrary: w)
  case (Cons d ds)
  have "write_out sys d (length w, fs(out_bin \<mapsto> w @ replicate (length (concat (d # ds)) + k) 0)) =
      (length (w @ d), fs(out_bin \<mapsto> (w @ d) @ replicate (length (concat ds) + k) 0))"
    using write_out_next [of sys d "fs(out_bin \<mapsto> w @ replicate (length (concat (d # ds)) + k) 0)" w] assms by (simp add: add.assoc)
  then show ?case using Cons.IH [of "w @ d"] by (simp only: foldl.simps concat.simps append_assoc)
qed simp

text \<open>The file descriptor filled in by the steps before, and the stamping of it.\<close>

definition filled :: "bytes \<Rightarrow> bytes \<Rightarrow> bytes \<Rightarrow> string \<Rightarrow> psyseg_file" where
  "filled s t c filename =
     \<lparr>file_size = of_nat (length c), final_size = of_nat (length c) + 8 + of_nat (length s) + 8 + of_nat (length t),
      sig_size = of_nat (length s), signature = s, tag_size = of_nat (length t), tag = t, mapped_name = filename\<rparr>"

lemma create_and_stamp_filled:
  assumes "sys_creat sys" "\<forall>d. sys_write sys d = length d" "fs filename = Some c" "filename \<noteq> out_bin"
    and small: "length c + length s + length t + 16 < 2 ^ 64"
  shows "create_and_stamp sys (filled s t c filename) fs = Inr (fs(out_bin \<mapsto> stamped s t c))"
proof -
  define h1 where "h1 = native_u64 (of_nat (length s))"
  define h2 where "h2 = native_u64 (of_nat (length t))"
  have len: "length h1 = 8" "length h2 = 8" by (simp_all add: h1_def h2_def native.enc_length)
  let ?ds = "[h1, s, h2, t, c]"
  have "of_nat (length c) + 8 + of_nat (length s) + 8 + of_nat (length t) = (of_nat (length (concat ?ds)) :: u64)"
    using len by (simp add: algebra_simps)
  moreover have "length (concat ?ds) < 2 ^ 64" using small len by simp
  ultimately have final: "unat (final_size (filled s t c filename)) = length (concat ?ds)"
    by (simp only: filled_def psyseg_file.select_convs unat_of_nat) simp
  have content: "unat (file_size (filled s t c filename)) = length c" using small by (simp add: filled_def unat_of_nat)
  let ?fs = "fs(out_bin \<mapsto> [] @ replicate (length (concat [h1, s, h2, t]) + length c) 0)"
  have start: "ftruncate sys (final_size (filled s t c filename)) (creat sys fs) = ?fs"
    using assms(1) final by (simp add: ftruncate_def creat_def add.assoc)
  let ?w = "[] @ concat [h1, s, h2, t]"
  have four: "write_out sys t (write_out sys h2 (write_out sys s (write_out sys h1 (0, ?fs)))) =
      (length ?w, fs(out_bin \<mapsto> ?w @ replicate (length c) 0))"
    using write_out_all [OF assms(1,2), of "[]" fs "[h1, s, h2, t]" "length c"] by (simp only: foldl.simps list.size)
  have "snd (write_out sys c (length ?w, fs(out_bin \<mapsto> ?w @ replicate (length c) 0))) = fs(out_bin \<mapsto> stamped s t c)"
    using write_out_next [of sys c "fs(out_bin \<mapsto> ?w @ replicate (length c) 0)" ?w "length c"] assms(1,2)
    by (simp add: stamped_def h1_def h2_def)
  then show ?thesis
    using assms(3,4) content four
    unfolding create_and_stamp_def start Let_def
    by (simp add: filled_def flip: h1_def h2_def)
qed

text \<open>C17: when the calls succeed, the output file has the announced size, and a reader of its layout gets the
  signature, the tags and the file back.\<close>

theorem stamp_roundtrip:
  assumes "sys_mmap sys filename" "sys_creat sys" "\<forall>d. sys_write sys d = length d"
    and "fs filename = Some c" "filename \<noteq> out_bin"
    and "length c + length sigfile + length tags + 16 < 2 ^ 64"
  shows "\<exists>b. psyseg_mark sys filename sigfile tags fs = Inr (fs(out_bin \<mapsto> b))
    \<and> length b = length c + length sigfile + length tags + 16
    \<and> unstamp b = (map byte_of sigfile, map byte_of tags, c)"
proof -
  define s where "s = map byte_of sigfile"
  define t where "t = map byte_of tags"
  have small: "length c + length s + length t + 16 < 2 ^ 64" using assms(6) by (simp add: s_def t_def)
  have "psyseg_mark sys filename sigfile tags fs = create_and_stamp sys (filled s t c filename) fs"
    using assms(1,4) by (simp add: psyseg_mark_def set_file_size_def set_mmap_def filled_def s_def t_def Let_def)
  also have "\<dots> = Inr (fs(out_bin \<mapsto> stamped s t c))" using create_and_stamp_filled [of sys fs filename c s t] assms(2-5) small by simp
  finally have "psyseg_mark sys filename sigfile tags fs = Inr (fs(out_bin \<mapsto> stamped s t c))" .
  moreover have "length (stamped s t c) = length c + length sigfile + length tags + 16"
    by (simp add: stamped_def native.enc_length s_def t_def)
  moreover have "unstamp (stamped s t c) = (s, t, c)" using small by (intro unstamp_stamped) simp_all
  ultimately show ?thesis by (auto simp: s_def t_def)
qed

definition obliging :: psyseg_system where
  "obliging = \<lparr>sys_mmap = (\<lambda>_. True), sys_creat = True, sys_write = length\<rparr>"

theorem stamp_roundtrip_witness:
  "\<exists>b. psyseg_mark obliging ''f'' ''sig'' ''a,b'' [''f'' \<mapsto> [1, 2, 3]] = Inr ([''f'' \<mapsto> [1, 2, 3], out_bin \<mapsto> b])
    \<and> length b = 25 \<and> unstamp b = (map byte_of ''sig'', map byte_of ''a,b'', [1, 2, 3])"
  using stamp_roundtrip [of obliging "''f''" "[''f'' \<mapsto> [1, 2, 3]]" "[1, 2, 3]" "''sig''" "''a,b''"]
  by (simp add: obliging_def out_bin_def)

text \<open>What the code does not look at: a file called as the output is lost, since it is emptied before it is copied,
  and when the output cannot be created the program still ends well, without one.\<close>

lemma own_output_lost:
  "rmap (\<lambda>fs. fs out_bin) (psyseg_mark obliging out_bin [] [] [out_bin \<mapsto> [1, 2, 3]]) = Inr (Some (replicate 19 0))"
  by code_simp

lemma output_not_created:
  assumes "fs filename = Some c" "sys_mmap sys filename" "\<not> sys_creat sys" "length c < 2 ^ 64"
  shows "psyseg_mark sys filename sigfile tags fs = Inr fs"
proof -
  have "unat (of_nat (length c) :: u64) = length c" using assms(4) by (simp add: unat_of_nat)
  then show ?thesis using assms
    by (simp add: psyseg_mark_def set_file_size_def set_mmap_def create_and_stamp_def ftruncate_def creat_def write_out_def Let_def)
qed

lemma seg_command:
  shows "seg_main sys [''-f'', f, ''-s'', s, ''-t'', t] fs = psyseg_mark sys f s t fs"
    and "seg_main sys [''-f'', f, ''-s'', s] fs = Inl Exited"
proof -
  have "opt_kind ''t:s:f:'' c = Some True" if "c \<in> {CHR ''t'', CHR ''s'', CHR ''f''}" for c using that by auto
  then show "seg_main sys [''-f'', f, ''-s'', s, ''-t'', t] fs = psyseg_mark sys f s t fs"
    and "seg_main sys [''-f'', f, ''-s'', s] fs = Inl Exited"
    by (simp_all add: seg_main_def getopt_words del: opt_kind.simps getopt.simps(3))
qed

end
