(* ===== verification/Socktk.thy ===== *)
theory Socktk
  imports Prelude
begin

text \<open>
  The socket tool of \<^verbatim>\<open>misc/socktk.c\<close>: its long options, the session they fill, and the connection that is reset. The
  answers of the socket calls are arguments.
\<close>

record session =
  host :: bytes
  port :: "32 word"
  exec_peer_reset :: bool

text \<open>The conversion to a long may fail; the value is then cut to the width of an \<open>int\<close>.\<close>

definition parse_int_or_die :: "string \<Rightarrow> 32 word result" where
  "parse_int_or_die arg =
     (case number0 arg of
        None \<Rightarrow> Inl Exited
      | Some (neg, v) \<Rightarrow>
          if (if neg then 2 ^ 63 < v else 2 ^ 63 \<le> v) then Inl Exited
          else Inr (if neg then - of_nat v else of_nat v))"

text \<open>
  \<open>getopt_long\<close> without short options: a long option is a name or the only beginning of one, with its argument behind
  an equals sign or in the next word. The options found, or \<open>None\<close> for a question mark, which ends the program.
\<close>

definition long_options :: "(string \<times> bool) list" where
  "long_options = [(''host'', True), (''port'', True), (''reset-peer'', False)]"

definition find_option :: "string \<Rightarrow> (string \<times> bool) option" where
  "find_option name =
     (case filter (\<lambda>opt. fst opt = name) long_options of
        opt # _ \<Rightarrow> Some opt
      | [] \<Rightarrow> (case filter (\<lambda>opt. take (length name) (fst opt) = name) long_options of [opt] \<Rightarrow> Some opt | _ \<Rightarrow> None))"

fun getopt_long :: "string list \<Rightarrow> (string \<times> string) option list" where
  "getopt_long [] = []"
| "getopt_long (w # ws) =
     (if w = ''--'' then []
      else if length w < 2 \<or> hd w \<noteq> CHR ''-'' then getopt_long ws
      else if w ! 1 \<noteq> CHR ''-'' then [None]
      else
        let text = drop 2 w; name = takeWhile (\<lambda>c. c \<noteq> CHR ''='') text; rest = drop (length name) text in
        case find_option name of
          None \<Rightarrow> [None]
        | Some (full, has_arg) \<Rightarrow>
            if \<not> has_arg then (if rest = [] then Some (full, []) # getopt_long ws else [None])
            else if rest \<noteq> [] then Some (full, tl rest) # getopt_long ws
            else (case ws of [] \<Rightarrow> [None] | a # ws \<Rightarrow> Some (full, a) # getopt_long ws))"

text \<open>\<open>strncpy\<close> of at most 254 characters into the zeroed array; what is there behind them stays.\<close>

definition set_host :: "string \<Rightarrow> bytes \<Rightarrow> bytes" where
  "set_host arg h = (let s = take 254 (map byte_of arg) in s @ replicate (254 - length s) 0 @ drop 254 h)"

text \<open>Names are compared in as many characters as a pointer has bytes. The outer \<open>Inl\<close> is the exit status.\<close>

fun session_options :: "(string \<times> string) option list \<Rightarrow> session \<Rightarrow> (int + session) result" where
  "session_options [] sess = Inr (Inr sess)"
| "session_options (None # opts) sess = Inr (Inl 0)"
| "session_options (Some (curr_name, optarg) # opts) sess =
     (if take 8 curr_name = take 8 ''host'' then session_options opts (sess\<lparr>host := set_host optarg (host sess)\<rparr>)
      else if take 8 curr_name = take 8 ''port'' then
        rbind (parse_int_or_die optarg) (\<lambda>p. session_options opts (sess\<lparr>port := p\<rparr>))
      else if take 8 curr_name = take 8 ''reset-peer'' then session_options opts (sess\<lparr>exec_peer_reset := True\<rparr>)
      else session_options opts sess)"

record sockets =
  k_socket :: bool
  k_setsockopt :: bool
  k_connect :: "bytes \<times> u16 \<Rightarrow> bool"

text \<open>What is sent where: the host's name up to its zero, and the port in 16 bits.\<close>

definition do_exec_reset_peer :: "sockets \<Rightarrow> session \<Rightarrow> ((bytes \<times> u16) \<times> bytes) result" where
  "do_exec_reset_peer k sess =
     (let addr = (takeWhile (\<lambda>b. b \<noteq> 0) (host sess), ucast (port sess)) in
      if \<not> k_socket k then Inl Aborted
      else if \<not> k_setsockopt k then Inl Aborted
      else if \<not> k_connect k addr then Inl Aborted
      else Inr (addr, map byte_of ''payload''))"

datatype tool_end = Status int | Connected "(bytes \<times> u16) \<times> bytes"

definition new_session :: session where
  "new_session = \<lparr>host = replicate 255 0, port = 0, exec_peer_reset = False\<rparr>"

definition socktk_main :: "sockets \<Rightarrow> string list \<Rightarrow> tool_end result" where
  "socktk_main k args =
     rbind (session_options (getopt_long args) new_session) (\<lambda>r.
       case r of
         Inl status \<Rightarrow> Inr (Status status)
       | Inr sess \<Rightarrow>
           if host sess ! 0 = 0 \<or> port sess = 0 then Inl Exited
           else if exec_peer_reset sess then rmap Connected (do_exec_reset_peer k sess)
           else Inr (Status 0))"

lemma parse_int_print: "n < 2 ^ 63 \<Longrightarrow> parse_int_or_die (print_nat 10 n) = Inr (of_nat n)"
  by (simp add: parse_int_or_die_def number0_print)

lemma option_names:
  "find_option ''host'' = Some (''host'', True)" "find_option ''port'' = Some (''port'', True)"
  "find_option ''reset-peer'' = Some (''reset-peer'', False)"
  by code_simp+

lemma getopt_long_reset:
  "getopt_long [''--host'', h, ''--port'', p, ''--reset-peer''] =
    [Some (''host'', h), Some (''port'', p), Some (''reset-peer'', [])]"
  by (simp add: option_names)

text \<open>the three options connect to the host named, cut at 254 characters, and to the port in 16 bits: a port
  number is taken modulo 65536, after it was taken modulo 2 to the 32 for the check that it is not zero.\<close>

theorem reset_target:
  assumes "k_socket k" "k_setsockopt k" "\<And>a. k_connect k a" "h \<noteq> []" "CHR 0x00 \<notin> set h" "n < 2 ^ 63"
  shows "socktk_main k [''--host'', h, ''--port'', print_nat 10 n, ''--reset-peer''] =
    (if n mod 2 ^ 32 = 0 then Inl Exited
     else Inr (Connected ((map byte_of (take 254 h), of_nat n), map byte_of ''payload'')))"
proof -
  let ?s = "\<lparr>host = set_host h (replicate 255 0), port = of_nat n, exec_peer_reset = True\<rparr>"
  have options: "session_options (getopt_long [''--host'', h, ''--port'', print_nat 10 n, ''--reset-peer'']) new_session = Inr (Inr ?s)"
    unfolding getopt_long_reset using assms(6) by (simp add: parse_int_print new_session_def)
  have no0: "0 \<notin> set (map byte_of (take 254 h))"
    using assms(5) by (auto simp: byte_of_eq_0_iff dest: in_set_takeD)
  have "host ?s ! 0 \<noteq> 0" using assms(4) no0 by (cases h) (auto simp: set_host_def)
  moreover have "takeWhile (\<lambda>b. b \<noteq> 0) (host ?s) = map byte_of (take 254 h)"
    using no0 by (auto simp: set_host_def Let_def takeWhile_append take_map)
  moreover have "(of_nat n :: 32 word) = 0 \<longleftrightarrow> n mod 2 ^ 32 = 0"
    by (simp add: word_of_nat_eq_0_iff mod_eq_0_iff_dvd)
  moreover have "ucast (of_nat n :: 32 word) = (of_nat n :: u16)"
    by (simp add: unsigned_of_nat word_of_nat_eq_iff)
  ultimately show ?thesis using assms(1-3) options
    by (simp add: socktk_main_def do_exec_reset_peer_def del: getopt_long.simps)
qed

theorem reset_target_witness:
  "socktk_main \<lparr>k_socket = True, k_setsockopt = True, k_connect = (\<lambda>_. True)\<rparr>
     [''--host'', ''10.0.0.1'', ''--port'', ''65616'', ''--reset-peer''] =
   Inr (Connected ((map byte_of ''10.0.0.1'', 80), map byte_of ''payload''))"
proof -
  define h where "h = ''10.0.0.1''"
  have "to_digits 10 65616 = [6, 5, 6, 1, 6]" by (simp add: to_digits.simps)
  moreover have "map digit_char [6, 5, 6, 1, 6] = ''65616''" by code_simp
  ultimately have digits: "print_nat 10 65616 = ''65616''" by (simp add: print_nat_def)
  have h: "h \<noteq> []" "CHR 0x00 \<notin> set h" "take 254 h = h" by (simp_all add: h_def)
  have port: "(of_nat 65616 :: u16) = 80" by simp
  show ?thesis
    using reset_target [of "\<lparr>k_socket = True, k_setsockopt = True, k_connect = (\<lambda>_. True)\<rparr>" h 65616]
    unfolding digits h_def [symmetric] using h port by simp
qed

end
