(* ===== verification/Grimoire.thy ===== *)
theory Grimoire
  imports Net
begin

text \<open>
  Two programs of \<^verbatim>\<open>grimoire/\<close>: \<^verbatim>\<open>shm.c\<close>, in C, which reads lines into shared memory until they say end, and
  \<^verbatim>\<open>mmap.cc\<close>, which prints the bytes of a mapped file. The answers of the system calls are arguments.
\<close>

section \<open>Lines in shared memory\<close>

definition MAX_BUFFER :: nat where
  "MAX_BUFFER = 256"

text \<open>
  \<open>fgets\<close> of at most \<open>n - 1\<close> characters, a newline the last; at the end of the input it leaves the array. The result
  is the array and the unread input.
\<close>

fun line_of :: "nat \<Rightarrow> string \<Rightarrow> string \<times> string" where
  "line_of 0 s = ([], s)"
| "line_of (Suc n) [] = ([], [])"
| "line_of (Suc n) (c # s) = (if c = CHR 0x0A then ([c], s) else apfst (Cons c) (line_of n s))"

definition fgets :: "bytes \<Rightarrow> nat \<Rightarrow> string \<Rightarrow> bytes \<times> string" where
  "fgets data n inp =
     (if inp = [] then (data, [])
      else let (l, rest) = line_of (n - 1) inp in (map byte_of l @ [0] @ drop (length l + 1) data, rest))"

definition strnlen :: "bytes \<Rightarrow> nat" where
  "strnlen data = length (takeWhile (\<lambda>b. b \<noteq> 0) data)"

text \<open>\<open>strncmp\<close> with end, over the whole array: equality up to the zero.\<close>

definition says_end :: "bytes \<Rightarrow> bool" where
  "says_end data \<longleftrightarrow> takeWhile (\<lambda>b. b \<noteq> 0) data = map byte_of ''end''"

text \<open>One pass, the semaphore taken: the array after the line, its rest set to zero; what is printed is the string.\<close>

definition shm_pass :: "bytes \<times> string \<Rightarrow> (bytes \<times> string) \<times> bytes" where
  "shm_pass st =
     (let (data, inp) = fgets (fst st) (MAX_BUFFER - 1) (snd st);
          num_read = strnlen data;
          data = take num_read data @ replicate (MAX_BUFFER - num_read) 0
      in ((data, inp), takeWhile (\<lambda>b. b \<noteq> 0) data))"

text \<open>The loop, from some contents of the memory, for at most \<open>n\<close> passes: what it printed, if it ended.\<close>

fun shm_loop :: "nat \<Rightarrow> bytes \<times> string \<Rightarrow> bytes list option" where
  "shm_loop n st =
     (if says_end (fst st) then Some []
      else case n of
             0 \<Rightarrow> None
           | Suc n \<Rightarrow> (let (st', out) = shm_pass st in map_option (Cons out) (shm_loop n st')))"

declare shm_loop.simps [simp del]

lemma shm_loop_steps:
  "says_end d \<Longrightarrow> shm_loop n (d, inp) = Some []"
  "\<not> says_end d \<Longrightarrow> shm_loop 0 (d, inp) = None"
  "\<not> says_end d \<Longrightarrow> shm_pass (d, inp) = (st', out) \<Longrightarrow> shm_loop (Suc n) (d, inp) = map_option (Cons out) (shm_loop n st')"
  by (simp_all add: shm_loop.simps [of _ "(d, inp)"])

text \<open>The options, and the calls before the loop. \<open>Inr None\<close> is a run that has not ended.\<close>

record shm_system =
  m_open :: "bytes \<Rightarrow> bool"
  m_truncate :: bool
  m_sem_init :: bool
  m_map :: bool
  m_data :: "bytes \<Rightarrow> bytes"

definition PATH_MAX :: nat where
  "PATH_MAX = 4096"

text \<open>\<open>strncat\<close> counts what it appends and not what is there.\<close>

fun shm_options :: "(char \<times> string option) list \<Rightarrow> bytes \<Rightarrow> (int + bytes) result" where
  "shm_options [] path = Inr (Inr path)"
| "shm_options ((opt, optarg) # oas) path =
     (if opt = CHR ''p'' then
        rbind (deref optarg) (\<lambda>a.
          let path = path @ take (PATH_MAX - 1) (map byte_of a)
          in if length path < PATH_MAX then shm_options oas path else Inl Out_Of_Bounds)
      else if opt = CHR ''h'' then Inr (Inl 0)
      else Inr (Inl 1))"

text \<open>The semaphore is set up in the mapping before the mapping is checked.\<close>

definition shm_main :: "shm_system \<Rightarrow> nat \<Rightarrow> string \<Rightarrow> string list \<Rightarrow> (int + bytes list option) result" where
  "shm_main sys n inp args =
     rbind (shm_options (fst (getopt ''p:h'' [] args)) []) (\<lambda>r.
       case r of
         Inl status \<Rightarrow> Inr (Inl status)
       | Inr path \<Rightarrow>
           if \<not> m_open sys path then Inr (Inl 1)
           else if \<not> m_truncate sys then Inr (Inl 1)
           else if \<not> m_map sys then Inl Out_Of_Bounds
           else if \<not> m_sem_init sys then Inr (Inl 1)
           else Inr (Inr (shm_loop n (m_data sys path, inp))))"

section \<open>A mapped file\<close>

fun mmap_options :: "(char \<times> string option) list \<Rightarrow> string \<Rightarrow> (int + string) result" where
  "mmap_options [] filename = Inr (Inr filename)"
| "mmap_options ((opt, optarg) # oas) filename =
     (if opt = CHR ''f'' then rbind (deref optarg) (\<lambda>a. mmap_options oas a) else Inr (Inl 0))"

definition mmap_main ::
  "(string \<Rightarrow> bytes option) \<Rightarrow> (string \<Rightarrow> bool) \<Rightarrow> (string \<Rightarrow> bool) \<Rightarrow> string list \<Rightarrow> (int \<times> string) result"
where
  "mmap_main files fstat_ok mmap_ok args =
     rbind (mmap_options (fst (getopt ''f:'' [] args)) []) (\<lambda>r.
       case r of
         Inl status \<Rightarrow> Inr (status, [])
       | Inr filename \<Rightarrow>
           if filename = [] then Inr (- 1, [])
           else case files filename of
                  None \<Rightarrow> Inr (- 1, [])
                | Some memory \<Rightarrow>
                    if \<not> fstat_ok filename then Inr (- 1, [])
                    else if \<not> mmap_ok filename \<and> memory \<noteq> [] then Inl Out_Of_Bounds
                    else Inr (0, ''file size: '' @ print_nat 10 (length memory) @ [CHR 0x0A]
                           @ concat (map (\<lambda>b. print_nat 16 (unat b) @ '', '') memory) @ [CHR 0x0A]))"

section \<open>The loop over lines\<close>

lemma line_of_parts: "line_of n s = (l, r) \<Longrightarrow> s = l @ r \<and> length l \<le> n \<and> (l \<noteq> [] \<and> List.last l = CHR 0x0A \<or> length l = n \<or> r = [])"
proof (induction n s arbitrary: l r rule: line_of.induct)
  case (3 n c s)
  show ?case
  proof (cases "c = CHR 0x0A")
    case True
    then show ?thesis using "3.prems" by auto
  next
    case False
    obtain l' r' where l': "line_of n s = (l', r')" by fastforce
    then have "l = c # l'" "r = r'" using "3.prems" False by auto
    then show ?thesis using "3.IH" [OF False l'] by auto
  qed
qed auto

lemma line_of_line: "CHR 0x0A \<notin> set l \<Longrightarrow> length l < n \<Longrightarrow> line_of n (l @ CHR 0x0A # s) = (l @ [CHR 0x0A], s)"
proof (induction l arbitrary: n)
  case Nil
  then show ?case by (cases n) auto
next
  case (Cons c l)
  then show ?case by (cases n) auto
qed

lemma line_of_all: "CHR 0x0A \<notin> set l \<Longrightarrow> length l \<le> n \<Longrightarrow> line_of n l = (l, [])"
proof (induction l arbitrary: n)
  case Nil
  then show ?case by (cases n) auto
next
  case (Cons c l)
  then show ?case by (cases n) auto
qed

lemma string_zeros: "takeWhile (\<lambda>b. b \<noteq> (0 :: u8)) (takeWhile (\<lambda>b. b \<noteq> 0) d @ replicate k 0) = takeWhile (\<lambda>b. b \<noteq> 0) d"
proof -
  have "takeWhile (\<lambda>b. b \<noteq> 0) (replicate k (0 :: u8)) = []" by (cases k) simp_all
  then show ?thesis by (subst takeWhile_append2) (auto dest: set_takeWhileD)
qed

lemma bytes_no_zero: "CHR 0x00 \<notin> set l \<Longrightarrow> takeWhile (\<lambda>b. b \<noteq> 0) (map byte_of l @ 0 # d) = map byte_of l"
  by (subst takeWhile_append2) (auto simp: byte_of_eq_0_iff)

text \<open>A pass: at the end of the input the string stays, otherwise it is the piece of the line that was read.\<close>

lemma shm_pass_string:
  assumes "shm_pass (data, inp) = ((data', inp'), out)" "CHR 0x00 \<notin> set inp"
  shows "out = takeWhile (\<lambda>b. b \<noteq> 0) data'"
    and "inp = [] \<Longrightarrow> inp' = [] \<and> out = takeWhile (\<lambda>b. b \<noteq> 0) data"
    and "inp \<noteq> [] \<Longrightarrow> line_of 254 inp = (l, r) \<Longrightarrow> inp' = r \<and> out = map byte_of l"
proof -
  have taken: "take (strnlen d) d = takeWhile (\<lambda>b. b \<noteq> 0) d" for d
    unfolding strnlen_def by (metis takeWhile_eq_take)
  show out: "out = takeWhile (\<lambda>b. b \<noteq> 0) data'"
    using assms(1) by (auto simp: shm_pass_def Let_def split: prod.splits)
  show "inp = [] \<Longrightarrow> inp' = [] \<and> out = takeWhile (\<lambda>b. b \<noteq> 0) data"
    using assms(1) by (auto simp: shm_pass_def fgets_def Let_def taken string_zeros)
  assume "inp \<noteq> []" and lr: "line_of 254 inp = (l, r)"
  moreover have "CHR 0x00 \<notin> set l" using line_of_parts [OF lr] assms(2) by auto
  ultimately show "inp' = r \<and> out = map byte_of l"
    using assms(1) by (auto simp: shm_pass_def fgets_def Let_def taken string_zeros bytes_no_zero MAX_BUFFER_def)
qed

lemma says_end_string: "says_end d \<longleftrightarrow> takeWhile (\<lambda>b. b \<noteq> 0) d = map byte_of ''end''"
  by (simp add: says_end_def)

lemma map_byte_of_inj: "map byte_of l = map byte_of l' \<longleftrightarrow> l = l'"
proof -
  have "inj byte_of" by (rule inj_on_inverseI [of _ char_of_byte]) simp
  then show ?thesis by (simp add: inj_map_eq_map)
qed

text \<open>when every line of the input ends with a newline, the loop that waits for the line end never ends, whatever
  the lines say: the newline stays in the memory, and after the input its last line does.\<close>

theorem shm_never_ends:
  assumes "\<not> says_end data" "CHR 0x00 \<notin> set inp" "inp = [] \<or> List.last inp = CHR 0x0A"
  shows "shm_loop n (data, inp) = None"
  using assms
proof (induction n arbitrary: data inp)
  case 0
  then show ?case by (simp add: shm_loop_steps)
next
  case (Suc n)
  obtain data' inp' out where pass: "shm_pass (data, inp) = ((data', inp'), out)" by (metis surj_pair)
  note string = shm_pass_string [OF pass Suc.prems(2)]
  have "\<not> says_end data' \<and> CHR 0x00 \<notin> set inp' \<and> (inp' = [] \<or> List.last inp' = CHR 0x0A)"
  proof (cases "inp = []")
    case True
    then show ?thesis using string(1,2) Suc.prems by (simp add: says_end_string)
  next
    case False
    obtain l r where lr: "line_of 254 inp = (l, r)" by fastforce
    note parts = line_of_parts [OF lr]
    have out: "inp' = r" "out = map byte_of l" using string(3) [OF False lr] by auto
    have "l \<noteq> ''end''"
    proof
      assume l: "l = ''end''"
      then have "inp = ''end''" using parts by auto
      then show False using Suc.prems(3) by simp
    qed
    then have "\<not> says_end data'" using string(1) out(2) map_byte_of_inj [of l "''end''"] by (simp add: says_end_string)
    moreover have "r = [] \<or> List.last r = CHR 0x0A"
      using parts Suc.prems(3) False
      by (metis append_is_Nil_conv last_appendR)
    ultimately show ?thesis using parts Suc.prems(2) out(1) by auto
  qed
  then have "shm_loop n (data', inp') = None" by (intro Suc.IH) simp_all
  then show ?case by (simp add: shm_loop_steps(3) [OF Suc.prems(1) pass])
qed

text \<open>Only the end of the input without a newline is the line it waits for.\<close>

lemma shm_ends:
  assumes "\<not> says_end data" "\<forall>l\<in>set ls. CHR 0x0A \<notin> set l \<and> CHR 0x00 \<notin> set l \<and> length l < 254"
  shows "shm_loop (length ls + 1) (data, concat (map (\<lambda>l. l @ [CHR 0x0A]) ls) @ ''end'') =
    Some (map (map byte_of) (map (\<lambda>l. l @ [CHR 0x0A]) ls @ [''end'']))"
  using assms
proof (induction ls arbitrary: data)
  case Nil
  obtain data' inp' out where pass: "shm_pass (data, ''end'') = ((data', inp'), out)" by (metis surj_pair)
  have "line_of 254 ''end'' = (''end'', [])" by (rule line_of_all) simp_all
  then have "out = map byte_of ''end''" using shm_pass_string(3) [OF pass] by simp
  moreover then have "says_end data'" using shm_pass_string(1) [OF pass] by (simp add: says_end_string)
  ultimately show ?case using Nil.prems(1) by (simp add: shm_loop_steps(3) [OF _ pass] shm_loop_steps(1))
next
  case (Cons l ls)
  let ?inp = "concat (map (\<lambda>l. l @ [CHR 0x0A]) ls) @ ''end''"
  have no0: "CHR 0x00 \<notin> set (l @ CHR 0x0A # ?inp)" using Cons.prems(2) by auto
  obtain data' inp' out where pass: "shm_pass (data, l @ CHR 0x0A # ?inp) = ((data', inp'), out)" by (metis surj_pair)
  have "line_of 254 (l @ CHR 0x0A # ?inp) = (l @ [CHR 0x0A], ?inp)" using Cons.prems(2) by (intro line_of_line) auto
  then have r: "inp' = ?inp" "out = map byte_of (l @ [CHR 0x0A])" using shm_pass_string(3) [OF pass no0] by auto
  have "l @ [CHR 0x0A] \<noteq> ''end''"
  proof
    assume l: "l @ [CHR 0x0A] = ''end''"
    show False using arg_cong [OF l, of List.last] by simp
  qed
  then have "\<not> says_end data'"
    using shm_pass_string(1) [OF pass no0] r(2) map_byte_of_inj [of "l @ [CHR 0x0A]" "''end''"] by (simp add: says_end_string)
  then have "shm_loop (length ls + 1) (data', ?inp) = Some (map (map byte_of) (map (\<lambda>l. l @ [CHR 0x0A]) ls @ [''end'']))"
    using Cons.IH Cons.prems(2) by simp
  then show ?case using r by (simp add: shm_loop_steps(3) [OF Cons.prems(1) pass])
qed

theorem shm_never_ends_witness:
  "shm_loop 1000 (replicate 256 0, ''hello'' @ [CHR 0x0A] @ ''end'' @ [CHR 0x0A]) = None"
  using shm_never_ends [of "replicate 256 0" "''hello'' @ [CHR 0x0A] @ ''end'' @ [CHR 0x0A]" 1000]
  by (simp add: says_end_def)

end
