(* ===== verification/Packetdraw_Threads.thy ===== *)
theory Packetdraw_Threads
  imports Packetdraw
begin

text \<open>
  The two threads of the packetdraw server, which share its store without a lock, and the life of its window. The
  thread that listens first counts a message and then fills it in, one field after the other; the thread that renders
  reads the store between any two of these writes, and ends by freeing the server, which the other one still uses.
\<close>

section \<open>The writes of a message\<close>

text \<open>The assignments of each branch of \<open>packetdraw_server_insert_message_from_buffer\<close>, in the order of the code.\<close>

definition pixel_writes :: "bytes \<Rightarrow> (bytes \<Rightarrow> bytes) list" where
  "pixel_writes mess =
     [set_u8 0 (msgtype_value Pixel), set_u32 1 (htonl (get_u32 1 mess)), set_u32 5 (htonl (get_u32 5 mess)),
      set_u8 9 (mess ! 9), set_u8 10 (mess ! 10), set_u8 11 (mess ! 11)]"

definition line_writes :: "bytes \<Rightarrow> (bytes \<Rightarrow> bytes) list" where
  "line_writes mess =
     [set_u8 0 (msgtype_value Line), set_u32 1 (htonl (get_u32 1 mess)), set_u32 1 (htonl (get_u32 1 mess)),
      set_u32 5 (htonl (get_u32 5 mess)), set_u32 9 (htonl (get_u32 9 mess)), set_u32 13 (htonl (get_u32 13 mess)),
      set_u8 17 (mess ! 17), set_u8 18 (mess ! 18), set_u8 19 (mess ! 19)]"

definition rectangle_writes :: "bytes \<Rightarrow> (bytes \<Rightarrow> bytes) list" where
  "rectangle_writes mess =
     [set_u8 0 (msgtype_value Rectangle), set_u32 1 (htonl (get_u32 1 mess)), set_u32 5 (htonl (get_u32 5 mess)),
      set_u32 9 (htonl (get_u32 9 mess)), set_u32 13 (htonl (get_u32 13 mess)),
      set_u8 17 (mess ! 17), set_u8 18 (mess ! 18), set_u8 19 (mess ! 19)]"

definition message_writes :: "bytes \<Rightarrow> (bytes \<Rightarrow> bytes) list" where
  "message_writes mess =
     (if mess ! 0 = msgtype_value Pixel then pixel_writes mess
      else if mess ! 0 = msgtype_value Line then line_writes mess
      else if mess ! 0 = msgtype_value Rectangle then rectangle_writes mess
      else [])"

definition write_all :: "(bytes \<Rightarrow> bytes) list \<Rightarrow> bytes \<Rightarrow> bytes" where
  "write_all fs m = fold (\<lambda>f. f) fs m"

lemma write_all_simps [simp]:
  "write_all [] m = m" "write_all (f # fs) m = write_all fs (f m)" "write_all (fs @ gs) m = write_all gs (write_all fs m)"
  by (simp_all add: write_all_def)

lemma writes_store:
  "write_all (pixel_writes b) m = store_pixel b m" "write_all (line_writes b) m = store_line b m"
  "write_all (rectangle_writes b) m = store_rectangle b m"
  by (simp_all add: write_all_def pixel_writes_def line_writes_def rectangle_writes_def
      store_pixel_def store_line_def store_rectangle_def Let_def)

section \<open>Threads\<close>

text \<open>The server's store, the writes that the listening thread has still to do for the last message, and whether the
  other thread has freed the server.\<close>

record threads =
  th_server :: server
  th_todo :: "(bytes \<Rightarrow> bytes) list"
  th_freed :: bool

datatype thread_action = Receive "bytes option" | Write | Draw nat "sdl_call list" | Free

text \<open>A datagram is received: a message of a known shape is counted and its writes begin.\<close>

definition begin_message :: "bytes option \<Rightarrow> threads \<Rightarrow> threads" where
  "begin_message dgram t =
     (case dgram of
        None \<Rightarrow> t
      | Some d \<Rightarrow>
          let s = th_server t; mess = set_at 0 (take 512 d) (replicate 512 0)
          in if messages_len s \<ge> messages_cap s then t
             else if recognised mess
             then t\<lparr>th_server := s\<lparr>messages_len := messages_len s + 1\<rparr>, th_todo := message_writes mess\<rparr>
             else t)"

definition write_field :: "(bytes \<Rightarrow> bytes) \<Rightarrow> server \<Rightarrow> server" where
  "write_field f s =
     (let len = messages_len s - 1 in s\<lparr>messages := (messages s)[len := f (messages s ! len)]\<rparr>)"

inductive thread_step :: "threads \<Rightarrow> thread_action \<Rightarrow> threads result \<Rightarrow> bool" where
  recv: "\<not> th_freed t \<Longrightarrow> th_todo t = [] \<Longrightarrow> thread_step t (Receive d) (Inr (begin_message d t))"
| store: "\<not> th_freed t \<Longrightarrow> th_todo t = f # fs \<Longrightarrow>
    thread_step t Write (Inr (t\<lparr>th_server := write_field f (th_server t), th_todo := fs\<rparr>))"
| draw: "\<not> th_freed t \<Longrightarrow> i < messages_len (th_server t) \<Longrightarrow>
    thread_step t (Draw i (draw_message (messages (th_server t) ! i))) (Inr t)"
| free: "\<not> th_freed t \<Longrightarrow> thread_step t Free (Inr (t\<lparr>th_freed := True\<rparr>))"
| recv_freed: "th_freed t \<Longrightarrow> th_todo t = [] \<Longrightarrow> thread_step t (Receive d) (Inl Out_Of_Bounds)"
| store_freed: "th_freed t \<Longrightarrow> th_todo t \<noteq> [] \<Longrightarrow> thread_step t Write (Inl Out_Of_Bounds)"

inductive thread_run :: "threads \<Rightarrow> thread_action list \<Rightarrow> threads \<Rightarrow> bool" for t0 where
  start: "thread_run t0 [] t0"
| more: "thread_run t0 as t \<Longrightarrow> thread_step t a (Inr t') \<Longrightarrow> thread_run t0 (as @ [a]) t'"

inductive_cases receiveE: "thread_step t (Receive d) r"
inductive_cases writeE: "thread_step t Write r"
inductive_cases drawE: "thread_step t (Draw i cs) r"

definition started :: "server \<Rightarrow> threads" where
  "started s = \<lparr>th_server = s, th_todo = [], th_freed = False\<rparr>"

text \<open>The datagrams of a run that have been begun, of which the store takes as many as it holds.\<close>

fun run_datagrams :: "thread_action list \<Rightarrow> bytes option list" where
  "run_datagrams [] = []"
| "run_datagrams (Receive d # as) = d # run_datagrams as"
| "run_datagrams (_ # as) = run_datagrams as"

lemma run_datagrams_append: "run_datagrams (as @ bs) = run_datagrams as @ run_datagrams bs"
  by (induction as rule: run_datagrams.induct) simp_all

definition shown :: "nat \<Rightarrow> thread_action list \<Rightarrow> bytes list" where
  "shown cap as = take cap (filter recognised (received (run_datagrams as)))"

section \<open>What is drawn\<close>

text \<open>
  The invariant: the store holds a message for each datagram it takes, every one but the last draws its picture, and
  the last one does after the writes that are left.
\<close>

definition threads_ok :: "bytes list \<Rightarrow> threads \<Rightarrow> bool" where
  "threads_ok bs t \<longleftrightarrow>
     (let s = th_server t; n = messages_len s in
        length (messages s) = messages_cap s \<and> n = length bs \<and> n \<le> messages_cap s
        \<and> (\<forall>m\<in>set (messages s). length m = 20)
        \<and> (\<forall>i. i + 1 < n \<longrightarrow> draw_message (messages s ! i) = picture (bs ! i))
        \<and> (\<forall>f\<in>set (th_todo t). \<forall>m. length m = 20 \<longrightarrow> length (f m) = 20)
        \<and> (th_todo t \<noteq> [] \<longrightarrow> 0 < n)
        \<and> (0 < n \<longrightarrow> draw_message (write_all (th_todo t) (messages s ! (n - 1))) = picture (bs ! (n - 1))))"

lemma message_writes_length:
  assumes "20 \<le> length b" "f \<in> set (message_writes b)" "length m = 20"
  shows "length (f m) = 20"
  using assms by (auto simp: message_writes_def pixel_writes_def line_writes_def rectangle_writes_def
      set_u8_def set_u32_def split: if_splits)

lemma message_writes_draw:
  assumes "20 \<le> length b" "recognised b" "length m = 20"
  shows "draw_message (write_all (message_writes b) m) = picture b"
proof -
  have "b ! 0 = 1 \<or> b ! 0 = 2 \<or> b ! 0 = 3" using assms(2) by (simp add: recognised_def)
  then show ?thesis
    using store_draws(4-6) [OF assms(1,3)]
    by (elim disjE) (simp_all add: message_writes_def writes_store)
qed

lemma threads_ok_write:
  assumes ok: "threads_ok bs t" and todo: "th_todo t = f # fs"
  shows "threads_ok bs (t\<lparr>th_server := write_field f (th_server t), th_todo := fs\<rparr>)"
proof -
  let ?s = "th_server t" and ?n = "messages_len (th_server t)"
  have "0 < ?n" using ok todo by (auto simp: threads_ok_def Let_def)
  then obtain k where k: "?n = Suc k" by (cases ?n) auto
  have inv: "length (messages ?s) = messages_cap ?s" "?n = length bs" "?n \<le> messages_cap ?s"
    "\<forall>m\<in>set (messages ?s). length m = 20" "\<forall>i. i + 1 < ?n \<longrightarrow> draw_message (messages ?s ! i) = picture (bs ! i)"
    "\<forall>g\<in>set (f # fs). \<forall>m. length m = 20 \<longrightarrow> length (g m) = 20"
    "0 < ?n \<longrightarrow> draw_message (write_all (f # fs) (messages ?s ! (?n - 1))) = picture (bs ! (?n - 1))"
    using ok unfolding threads_ok_def Let_def todo by blast+
  let ?m = "f (messages ?s ! k)"
  have kl: "k < length (messages ?s)" using inv k by simp
  then have m: "length ?m = 20" using inv(4,6) by simp
  have "write_field f ?s = ?s\<lparr>messages := (messages ?s)[k := ?m]\<rparr>" by (simp add: write_field_def k)
  moreover have "\<forall>m\<in>set ((messages ?s)[k := ?m]). length m = 20"
    using inv(4) m set_update_subset_insert [of "messages ?s" k ?m] by auto
  moreover have "draw_message ((messages ?s)[k := ?m] ! i) = picture (bs ! i)" if "i + 1 < ?n" for i
    using that inv(5) k by simp
  moreover have "draw_message (write_all fs ((messages ?s)[k := ?m] ! k)) = picture (bs ! k)"
    using inv(7) k kl by simp
  moreover have "length bs = Suc k" using inv(2) k by simp
  ultimately show ?thesis
    using inv(1,3,6) k by (simp add: threads_ok_def Let_def)
qed

lemma threads_ok_begin:
  assumes ok: "threads_ok bs t" and todo: "th_todo t = []" and taken: "bs = take (messages_cap (th_server t)) fl"
  shows "threads_ok (take (messages_cap (th_server t)) (fl @ filter recognised (received [d]))) (begin_message d t)"
proof (cases d)
  case None
  then show ?thesis using ok taken by (simp add: begin_message_def)
next
  case (Some x)
  define b where "b = set_at 0 (take 512 x) (replicate 512 0)"
  let ?s = "th_server t"
  have bs: "length bs = messages_len ?s" "messages_len ?s \<le> messages_cap ?s" using ok by (simp_all add: threads_ok_def Let_def)
  show ?thesis
  proof (cases "messages_len ?s < messages_cap ?s \<and> recognised b")
    case False
    then have "begin_message d t = t" using Some by (auto simp: begin_message_def b_def Let_def)
    moreover have "take (messages_cap ?s) (fl @ filter recognised (received [d])) = bs"
      using False Some bs taken by (auto simp: b_def [symmetric])
    ultimately show ?thesis using ok by simp
  next
    case True
    have len: "20 \<le> length b" by (simp add: b_def)
    have fl: "fl = bs" using True bs taken by (metis length_take less_imp_not_eq2 min.absorb3 min.commute take_all_iff nat_le_linear min_def)
    have i: "messages_len ?s < length (messages ?s)" using True ok by (simp add: threads_ok_def Let_def)
    then have m: "length (messages ?s ! messages_len ?s) = 20" using ok by (simp add: threads_ok_def Let_def)
    have "begin_message d t = t\<lparr>th_server := ?s\<lparr>messages_len := messages_len ?s + 1\<rparr>, th_todo := message_writes b\<rparr>"
      using True Some by (simp add: begin_message_def b_def Let_def)
    moreover have "take (messages_cap ?s) (fl @ filter recognised (received [d])) = bs @ [b]"
      using True Some bs fl by (simp add: b_def [symmetric] Suc_le_eq)
    moreover have "threads_ok (bs @ [b]) (t\<lparr>th_server := ?s\<lparr>messages_len := messages_len ?s + 1\<rparr>, th_todo := message_writes b\<rparr>)"
    proof -
      have "draw_message (messages ?s ! j) = picture ((bs @ [b]) ! j)" if "j < messages_len ?s" for j
      proof (cases "j + 1 < messages_len ?s")
        case False
        then have "j = messages_len ?s - 1" using that by simp
        then show ?thesis using ok todo that bs by (simp add: threads_ok_def Let_def nth_append)
      qed (use ok bs in \<open>simp add: threads_ok_def Let_def nth_append\<close>)
      moreover have "draw_message (write_all (message_writes b) (messages ?s ! messages_len ?s)) = picture ((bs @ [b]) ! messages_len ?s)"
        using message_writes_draw [OF len _ m] True bs by (simp add: nth_append)
      ultimately show ?thesis
        using ok True bs message_writes_length [OF len] by (auto simp: threads_ok_def Let_def)
    qed
    ultimately show ?thesis by simp
  qed
qed

text \<open>The invariant holds in every run, whatever the order of receiving, writing and drawing.\<close>

lemma thread_step_cap: "thread_step t a (Inr t') \<Longrightarrow> messages_cap (th_server t') = messages_cap (th_server t)"
  by (auto elim!: thread_step.cases simp: begin_message_def write_field_def Let_def split: option.splits)

lemma thread_run_cap: "thread_run t0 as t \<Longrightarrow> messages_cap (th_server t) = messages_cap (th_server t0)"
  by (induction rule: thread_run.induct) (auto dest: thread_step_cap)

lemma received_snoc: "received (ds @ ds') = received ds @ received ds'"
  by (simp add: received_def)

lemma threads_ok_freed: "threads_ok bs (t\<lparr>th_freed := b\<rparr>) = threads_ok bs t"
  by (simp add: threads_ok_def)

lemma thread_run_ok:
  assumes "thread_run t0 as t" and "threads_ok [] t0"
  shows "threads_ok (shown (messages_cap (th_server t0)) as) t"
  using assms
proof (induction rule: thread_run.induct)
  case start
  then show ?case by (simp add: shown_def)
next
  case (more as t a t')
  let ?cap = "messages_cap (th_server t0)"
  have ok: "threads_ok (shown ?cap as) t" and cap: "messages_cap (th_server t) = ?cap"
    using more thread_run_cap by auto
  from more.hyps(2) show ?case
  proof (cases rule: thread_step.cases)
    case (recv d)
    then show ?thesis
      using threads_ok_begin [OF ok, of "filter recognised (received (run_datagrams as))" d] cap
      by (simp add: shown_def run_datagrams_append received_snoc)
  next
    case (store f fs)
    then show ?thesis using threads_ok_write [OF ok store(4)] by (simp add: shown_def run_datagrams_append)
  next
    case (draw i)
    then show ?thesis using ok by (simp add: shown_def run_datagrams_append)
  next
    case free
    then show ?thesis using ok by (simp add: shown_def run_datagrams_append threads_ok_freed)
  qed
qed

lemma create_fields:
  assumes "server_create True 0 True True True port = (Some s0, st)"
  shows "messages_len s0 = 0" "messages_cap s0 = 4096" "messages s0 = replicate 4096 (replicate 20 0)" "st = Server_Success"
  using assms by (auto simp: server_create_def initial_message_amount_def message_bytes_def)

lemma started_ok:
  assumes "server_create True 0 True True True port = (Some s0, st)"
  shows "threads_ok [] (started s0)"
  using create_fields [OF assms] by (simp add: threads_ok_def started_def)

text \<open>C25: in every interleaving of the two threads, a message that is not the one being written is drawn as the
  picture its datagram asks for: the \<open>i\<close>-th message drawn is that of the \<open>i\<close>-th datagram of a known shape.\<close>

theorem threads_draw:
  assumes "server_create True 0 True True True port = (Some s0, Server_Success)"
    and "thread_run (started s0) as t" and "thread_step t (Draw i cs) r"
    and "i + 1 < messages_len (th_server t) \<or> th_todo t = []"
  shows "i < length (shown 4096 as) \<and> cs = picture (shown 4096 as ! i)"
proof -
  let ?bs = "shown 4096 as"
  have ok: "threads_ok ?bs t"
    using thread_run_ok [OF assms(2) started_ok [OF assms(1)]] create_fields [OF assms(1)] by (simp add: started_def)
  have i: "i < messages_len (th_server t)" "cs = draw_message (messages (th_server t) ! i)"
    using assms(3) by (auto elim: drawE)
  show ?thesis
  proof (cases "i + 1 < messages_len (th_server t)")
    case True
    then show ?thesis using ok i by (simp add: threads_ok_def Let_def)
  next
    case False
    then have "i = messages_len (th_server t) - 1" "th_todo t = []" using i(1) assms(4) by auto
    then show ?thesis using ok i by (auto simp: threads_ok_def Let_def)
  qed
qed

text \<open>Receiving a datagram and doing its writes without a break is the step \<open>receive\<close> of the single thread.\<close>

definition write_fields :: "(bytes \<Rightarrow> bytes) list \<Rightarrow> server \<Rightarrow> server" where
  "write_fields fs s = fold write_field fs s"

lemma todo_same: "th_todo t = [] \<Longrightarrow> t\<lparr>th_server := s, th_todo := []\<rparr> = t\<lparr>th_server := s\<rparr>"
  by (cases t) simp

lemma threads_same: "th_todo t = [] \<Longrightarrow> t\<lparr>th_todo := []\<rparr> = t" "t\<lparr>th_server := th_server t\<rparr> = t"
  by (cases t, simp)+

lemma run_writes:
  "thread_run t0 as t \<Longrightarrow> \<not> th_freed t \<Longrightarrow> th_todo t = fs \<Longrightarrow>
   thread_run t0 (as @ replicate (length fs) Write) (t\<lparr>th_server := write_fields fs (th_server t), th_todo := []\<rparr>)"
proof (induction fs arbitrary: as t)
  case Nil
  then show ?case by (simp add: write_fields_def threads_same)
next
  case (Cons f fs)
  let ?t = "t\<lparr>th_server := write_field f (th_server t), th_todo := fs\<rparr>"
  have "thread_run t0 (as @ [Write]) ?t"
    using thread_run.more [OF Cons.prems(1) thread_step.store [OF Cons.prems(2,3)]] .
  from Cons.IH [OF this] Cons.prems(2) show ?case by (simp add: write_fields_def)
qed

lemma write_fields_last:
  assumes "messages_len s = Suc k" "k < length (messages s)"
  shows "write_fields fs s = s\<lparr>messages := (messages s)[k := write_all fs (messages s ! k)]\<rparr>"
  using assms by (induction fs arbitrary: s) (auto simp: write_fields_def write_field_def Let_def)

lemma serial_run:
  assumes "thread_run t0 as t" "\<not> th_freed t" "th_todo t = []" "srv_ok (th_server t)"
    and "receive d (th_server t) = Inr s'"
  shows "\<exists>ws. thread_run t0 (as @ Receive d # ws) (t\<lparr>th_server := s'\<rparr>) \<and> set ws \<subseteq> {Write}"
proof -
  let ?s = "th_server t"
  have recv: "thread_run t0 (as @ [Receive d]) (begin_message d t)"
    using thread_run.more [OF assms(1) thread_step.recv [OF assms(2,3)]] .
  show ?thesis
  proof (cases "\<exists>x. d = Some x \<and> messages_len ?s < messages_cap ?s \<and> recognised (set_at 0 (take 512 x) (replicate 512 0))")
    case False
    then have "begin_message d t = t" by (auto simp: begin_message_def Let_def split: option.splits)
    moreover have "s' = ?s"
      using False assms(5) by (auto simp: receive_def insert_message_from_buffer_def recognised_def Let_def split: option.splits if_splits)
    ultimately show ?thesis using recv by (intro exI [of _ "[]"]) simp
  next
    case True
    then obtain x where x: "d = Some x" by blast
    define b where "b = set_at 0 (take 512 x) (replicate 512 0)"
    let ?n = "messages_len ?s"
    have n: "?n < messages_cap ?s" "recognised b" using True x by (simp_all add: b_def)
    then have len: "?n < length (messages ?s)" using assms(4) by (simp add: srv_ok_def)
    have begun: "begin_message d t = t\<lparr>th_server := ?s\<lparr>messages_len := ?n + 1\<rparr>, th_todo := message_writes b\<rparr>"
      using x n by (simp add: begin_message_def b_def Let_def)
    have s': "s' = ?s\<lparr>messages_len := ?n + 1, messages := (messages ?s)[?n := write_all (message_writes b) (messages ?s ! ?n)]\<rparr>"
      using assms(5) x n len
      by (auto simp: receive_def insert_message_from_buffer_def b_def [symmetric] recognised_def message_writes_def writes_store Let_def)
    have wf: "write_fields (message_writes b) (?s\<lparr>messages_len := ?n + 1\<rparr>) = s'"
      using write_fields_last [of "?s\<lparr>messages_len := ?n + 1\<rparr>" ?n "message_writes b"] len s' by simp
    have "thread_run t0 ((as @ [Receive d]) @ replicate (length (message_writes b)) Write) (t\<lparr>th_server := s'\<rparr>)"
      using run_writes [OF recv, of "message_writes b"] assms(2) wf unfolding begun
      by (simp add: todo_same [OF assms(3)])
    then show ?thesis by (intro exI [of _ "replicate (length (message_writes b)) Write"]) auto
  qed
qed

text \<open>A message may be drawn before it is written: of a line that is just counted and has its number, the renderer
  draws a point of the colour black in the corner of the window.\<close>

lemma torn_line:
  assumes "server_create True 0 True True True port = (Some s0, Server_Success)"
    and "set_at 0 (take 512 d) (replicate 512 0) ! 0 = 2"
  shows "\<exists>t. thread_run (started s0) [Receive (Some d), Write] t
    \<and> thread_step t (Draw 0 [SetRenderDrawColor 0 0 0 0xff, RenderDrawLine 0 0 0 0]) (Inr t)"
proof -
  define b where "b = set_at 0 (take 512 d) (replicate 512 0)"
  note s0 = create_fields [OF assms(1)]
  let ?t1 = "begin_message (Some d) (started s0)"
  have b: "b ! 0 = 2" using assms(2) by (simp add: b_def)
  have t1: "?t1 = \<lparr>th_server = s0\<lparr>messages_len := 1\<rparr>, th_todo = line_writes b, th_freed = False\<rparr>"
    using s0 b by (simp add: begin_message_def started_def b_def [symmetric] recognised_def message_writes_def)
  have run1: "thread_run (started s0) ([] @ [Receive (Some d)]) ?t1"
    by (rule thread_run.more [OF thread_run.start thread_step.recv]) (simp_all add: started_def)
  let ?m = "set_u8 0 2 (replicate 20 0)"
  define t2 where "t2 = ?t1\<lparr>th_server := write_field (set_u8 0 2) (th_server ?t1), th_todo := tl (line_writes b)\<rparr>"
  have "thread_step ?t1 Write (Inr t2)"
    unfolding t2_def by (rule thread_step.store) (simp_all add: t1 line_writes_def)
  from thread_run.more [OF run1 this] have run2: "thread_run (started s0) [Receive (Some d), Write] t2" by simp
  have "draw_message (messages (th_server t2) ! 0) = draw_message ?m"
    using s0(3) by (simp add: t2_def t1 write_field_def)
  also have "draw_message ?m = [SetRenderDrawColor 0 0 0 0xff, RenderDrawLine 0 0 0 0]"
    by code_simp
  finally have "draw_message (messages (th_server t2) ! 0) = [SetRenderDrawColor 0 0 0 0xff, RenderDrawLine 0 0 0 0]" .
  moreover have "\<not> th_freed t2" "0 < messages_len (th_server t2)" by (simp_all add: t2_def t1 write_field_def)
  ultimately show ?thesis using run2 thread_step.draw [of t2 0] by auto
qed

text \<open>After the window is closed the server is freed, and the next step of the thread that listens uses it.\<close>

lemma freed_faults:
  assumes "thread_step t Free (Inr t')" "thread_step t' a r" "a = Receive d \<or> a = Write"
  shows "r = Inl Out_Of_Bounds"
proof -
  have "th_freed t'" using assms(1) by (auto elim: thread_step.cases)
  then show ?thesis using assms(2,3) by (auto elim: thread_step.cases)
qed

theorem threads_draw_witness:
  "\<exists>s0 t ws. server_create True 0 True True True 9000 = (Some s0, Server_Success)
    \<and> thread_run (started s0) (Receive (Some [1, 0, 0, 0, 5, 0, 0, 0, 6, 7, 8, 9]) # ws) t
    \<and> (\<forall>cs. thread_step t (Draw 0 cs) (Inr t) \<longrightarrow> cs = [SetRenderDrawColor 7 8 9 0xff, RenderDrawPoint 5 6])"
proof -
  let ?d = "[1, 0, 0, 0, 5, 0, 0, 0, 6, 7, 8, 9] :: bytes"
  define b where "b = set_at 0 (take 512 ?d) (replicate 512 0)"
  obtain s0 where s0: "server_create True 0 True True True 9000 = (Some s0, Server_Success)"
    by (simp add: server_create_def)
  have ok: "srv_ok s0" using create_ok [OF s0] by simp
  obtain s' where s': "receive (Some ?d) s0 = Inr s'"
    using insert_spec [OF ok, of b] by (auto simp: receive_def b_def)
  obtain ws where run: "thread_run (started s0) (Receive (Some ?d) # ws) ((started s0)\<lparr>th_server := s'\<rparr>)"
    and ws: "set ws \<subseteq> {Write}"
    using serial_run [OF thread_run.start, of "started s0" "Some ?d" s'] ok s' by (auto simp: started_def)
  have rec: "received [Some ?d] = [b]" unfolding b_def by (simp only: received_simps)
  have "run_datagrams ws = []" using ws by (induction ws rule: run_datagrams.induct) auto
  moreover have b: "b = ?d @ replicate 500 0" by (simp add: b_def set_at_def)
  moreover have "recognised b" by (simp add: recognised_def b)
  ultimately have shown: "shown 4096 (Receive (Some ?d) # ws) = [b]"
    using rec by (simp add: shown_def del: received_simps)
  have "picture b = [SetRenderDrawColor 7 8 9 0xff, RenderDrawPoint 5 6]"
    by (simp add: picture_def b be_u32_def Let_def nth_append)
  moreover have "cs = picture b"
    if "thread_step ((started s0)\<lparr>th_server := s'\<rparr>) (Draw 0 cs) (Inr ((started s0)\<lparr>th_server := s'\<rparr>))" for cs
    using threads_draw [OF s0 run that] shown by (simp add: started_def)
  ultimately show ?thesis using s0 run by (intro exI conjI) auto
qed

section \<open>The window\<close>

text \<open>What SDL answers, and the calls; those of a frame are the renderer's.\<close>

record sdl =
  init_ok :: bool
  window_ok :: bool
  renderer_ok :: bool

datatype window_call =
    Sdl_Init
  | Create_Window nat nat
  | Get_Window_Surface
  | Create_Renderer
  | Destroy_Window bool
  | Sdl_Quit
  | Frame "sdl_call list"
  | Update_Window_Surface
  | Render_Present

text \<open>\<open>packetdraw_graphics_init\<close>: the result, whether the window's pointer is set, and the calls.\<close>

definition graphics_init :: "sdl \<Rightarrow> int \<times> bool \<times> window_call list" where
  "graphics_init a =
     (if \<not> init_ok a then (- 1, False, [Sdl_Init])
      else if \<not> window_ok a then (- 1, False, [Sdl_Init, Create_Window 800 600])
      else if \<not> renderer_ok a
      then (- 1, True, [Sdl_Init, Create_Window 800 600, Get_Window_Surface, Create_Renderer, Destroy_Window True])
      else (0, True, [Sdl_Init, Create_Window 800 600, Get_Window_Surface, Create_Renderer]))"

definition graphics_free :: "bool \<Rightarrow> int \<times> window_call list" where
  "graphics_free window = (0, [Destroy_Window window, Sdl_Quit])"

text \<open>\<open>packetdraw_graphics_render\<close> over its passes: whether an event of the pass is a quit, and the server as the
  renderer reads it; \<open>None\<close> when the passes given do not end it.\<close>

fun graphics_render :: "(bool list \<times> server) list \<Rightarrow> window_call list option" where
  "graphics_render [] = None"
| "graphics_render ((quits, srv) # passes) =
     map_option (\<lambda>rest. [Frame (render_pass srv), Update_Window_Surface, Render_Present] @ rest)
       (if True \<in> set quits then Some [] else graphics_render passes)"

text \<open>\<open>render_loop\<close>: the calls and whether the server is freed, when it ends.\<close>

definition render_loop ::
  "server option \<times> server_status \<Rightarrow> sdl \<Rightarrow> (bool list \<times> server) list \<Rightarrow> (window_call list \<times> bool) option result"
where
  "render_loop created a passes =
     (if snd created \<noteq> Server_Success then Inl Aborted
      else
        let (r, window, calls) = graphics_init a in
        if r = - 1 then Inr (Some (calls, True))
        else
          Inr (map_option (\<lambda>frames.
            let (r, calls') = graphics_free window
            in if r = - 1 then (calls @ frames @ calls', True) else (calls @ frames @ calls', True))
            (graphics_render passes)))"

text \<open>The window is destroyed once after it was created, and not otherwise; SDL itself is shut down only when the
  window and its renderer could be made.\<close>

lemma window_life:
  assumes "render_loop created a passes = Inr (Some (calls, freed))"
  shows "freed \<and> length (filter (\<lambda>c. c = Destroy_Window True) calls) = (if init_ok a \<and> window_ok a then 1 else 0)
    \<and> (Sdl_Quit \<in> set calls \<longleftrightarrow> init_ok a \<and> window_ok a \<and> renderer_ok a)"
proof -
  have frames: "filter (\<lambda>c. c = Destroy_Window True) fs = [] \<and> Sdl_Quit \<notin> set fs" if "graphics_render ps = Some fs" for ps fs
    using that by (induction ps arbitrary: fs rule: graphics_render.induct) (auto split: if_splits)
  show ?thesis
    using assms by (auto simp: render_loop_def graphics_init_def graphics_free_def Let_def split: if_splits dest: frames)
qed

text \<open>The loop ends with the first pass that has a quit among its events, which it still draws.\<close>

definition frame_calls :: "bool list \<times> server \<Rightarrow> window_call list" where
  "frame_calls p = [Frame (render_pass (snd p)), Update_Window_Surface, Render_Present]"

lemma render_until_quit:
  "graphics_render passes =
   (if \<exists>p\<in>set passes. True \<in> set (fst p)
    then Some (concat (map frame_calls
      (takeWhile (\<lambda>p. True \<notin> set (fst p)) passes @ [hd (dropWhile (\<lambda>p. True \<notin> set (fst p)) passes)])))
    else None)"
  by (induction passes rule: graphics_render.induct) (auto simp: frame_calls_def [of "(_, _)"])

end
