(* ===== verification/Multivector.thy ===== *)
theory Multivector
  imports Granulator Net
begin

text \<open>
  The rest of \<^verbatim>\<open>misc/multi-vector.cc\<close>: the vector that the threads share under a lock, and \<open>main\<close>, from its option to
  the sum it prints.
\<close>

section \<open>The shared vector\<close>

text \<open>\<open>Add\<close> runs under the vector's lock, so the calls of the threads happen one after the other, in some order.\<close>

record 'a MTVector =
  mt_items :: "'a list"

definition mk_MTVector :: "'a MTVector" where
  "mk_MTVector = \<lparr>mt_items = []\<rparr>"

definition Add :: "'a \<Rightarrow> 'a MTVector \<Rightarrow> 'a MTVector" where
  "Add t v = v\<lparr>mt_items := mt_items v @ [t]\<rparr>"

definition GetUnsafe :: "'a MTVector \<Rightarrow> 'a list" where
  "GetUnsafe v = mt_items v"

text \<open>The threads that have not added their result yet, with their results, and the vector.\<close>

inductive adds :: "(nat \<times> 'a) list \<times> 'a MTVector \<Rightarrow> (nat \<times> 'a) list \<times> 'a MTVector \<Rightarrow> bool" where
  all_joined: "adds ([], v) ([], v)"
| thread_adds: "adds (ps @ qs, Add x v) r \<Longrightarrow> adds (ps @ (i, x) # qs, v) r"

text \<open>Each execution adds each result once.\<close>

lemma adds_mset: "adds c r \<Longrightarrow> fst r = [] \<and> mset (GetUnsafe (snd r)) = mset (GetUnsafe (snd c)) + mset (map snd (fst c))"
  by (induction rule: adds.induct) (auto simp: GetUnsafe_def Add_def)

lemma adds_exists: "\<exists>v'. adds (ps, v) ([], v')"
proof (induction ps arbitrary: v)
  case Nil
  then show ?case using adds.all_joined by blast
next
  case (Cons p ps)
  obtain v' where "adds (ps, Add (snd p) v) ([], v')" using Cons by blast
  then show ?case using adds.thread_adds [of "[]" ps "snd p" v "([], v')" "fst p"] by auto
qed

section \<open>The program\<close>

text \<open>An unknown option prints the usage and goes on; a number is extracted only where there is something to read.\<close>

fun sum_options :: "(char \<times> string option) list \<Rightarrow> u64 \<Rightarrow> u64 result" where
  "sum_options [] max_number = Inr max_number"
| "sum_options ((opt, optarg) # oas) max_number =
     (if opt = CHR ''n'' then
        rbind (deref optarg) (\<lambda>ss.
          sum_options oas (if skip_space ss = [] then max_number else of_nat (extract_unsigned 64 10 ss)))
      else sum_options oas max_number)"

text \<open>
  The text \<open>main\<close> prints, for the number of hardware threads, whether the vector can be made, which threads read their
  range before the pass that made it ends, and an execution of the additions. The program ends by an exception without
  the memory.
\<close>

definition line :: "string \<Rightarrow> nat \<Rightarrow> string" where
  "line label n = label @ print_nat 10 n @ [CHR 0x0A]"

inductive sum_main :: "u64 \<Rightarrow> (u64 \<Rightarrow> bool) \<Rightarrow> (nat \<Rightarrow> bool) \<Rightarrow> string list \<Rightarrow> string result \<Rightarrow> bool"
  for hw alloc_ok in_time args
where
  bad_options: "sum_options (fst (getopt ''n:'' [] args)) 0 = Inl e \<Longrightarrow> sum_main hw alloc_ok in_time args (Inl e)"
| no_memory: "sum_options (fst (getopt ''n:'' [] args)) 0 = Inr n \<Longrightarrow> \<not> alloc_ok n \<Longrightarrow>
    sum_main hw alloc_ok in_time args (Inl (Thrown ''bad_alloc''))"
| no_ranges: "sum_options (fst (getopt ''n:'' [] args)) 0 = Inr n \<Longrightarrow> alloc_ok n \<Longrightarrow>
    mk_granulator hw n = Inl e \<Longrightarrow> sum_main hw alloc_ok in_time args (Inl e)"
| thread_faults: "sum_options (fst (getopt ''n:'' [] args)) 0 = Inr n \<Longrightarrow> alloc_ok n \<Longrightarrow>
    mk_granulator hw n = Inr g \<Longrightarrow> thread_results hw n in_time = Inl e \<Longrightarrow> sum_main hw alloc_ok in_time args (Inl e)"
| sums: "sum_options (fst (getopt ''n:'' [] args)) 0 = Inr n \<Longrightarrow> alloc_ok n \<Longrightarrow>
    mk_granulator hw n = Inr g \<Longrightarrow> thread_results hw n in_time = Inr rs \<Longrightarrow>
    adds (enumerate 0 rs, mk_MTVector) ([], v) \<Longrightarrow>
    sum_main hw alloc_ok in_time args
      (Inr (''generating data...'' @ [CHR 0x0A]
        @ line ''number of items in vector: '' (unat n)
        @ line ''number of cores: '' (unat (GetNumThreads g))
        @ line ''grain size     : '' (unat (GetGrain g))
        @ line ''total sum: '' (unat (final_sum (GetUnsafe v)))))"

lemma extract_print: "of_nat (extract_unsigned 64 10 (print_nat 10 (unat (n :: u64)))) = n"
proof -
  have "unat n < 2 ^ 64" using unsigned_less [of n, where ?'a = nat] by simp
  then show ?thesis by (simp add: extract_unsigned_def scan_number_print_nat not_le)
qed

lemma print_nat_not_space: "skip_space (print_nat 10 n) \<noteq> []"
proof -
  obtain c cs where s: "print_nat 10 n = c # cs" by (cases "print_nat 10 n") auto
  then have "is_base_digit 10 c" using set_print_nat [of 10 c n] by simp
  then show ?thesis using s is_base_digit_not_space [of 10 c] by (simp add: skip_space_def)
qed

lemma sum_command: "sum_options (fst (getopt ''n:'' [] [''-n'', print_nat 10 (unat n)])) 0 = Inr n"
proof -
  have "getopt ''n:'' [] [''-n'', print_nat 10 (unat n)] = ([(CHR ''n'', Some (print_nat 10 (unat n)))], [])"
    by (simp add: getopt_words)
  then show ?thesis using print_nat_not_space by (simp add: extract_print)
qed

text \<open>C35: run with a number, and with any timing of the threads, the program has a run, and in whatever order the threads
  add their results it prints the sum of the numbers from 1 to that number, if every thread reads its range before the
  pass of the loop that made it ends; otherwise a thread reads a variable that is gone.\<close>

theorem sum_printed:
  assumes "1 \<le> unat hw" "unat hw \<le> 128" "1 \<le> unat n" "unat n + 128 < 2 ^ 64" and "alloc_ok n"
  shows "(\<exists>r. sum_main hw alloc_ok in_time [''-n'', print_nat 10 (unat n)] r)
    \<and> (\<exists>g. mk_granulator hw n = Inr g \<and>
        (\<forall>r. sum_main hw alloc_ok in_time [''-n'', print_nat 10 (unat n)] r \<longrightarrow>
          (if \<forall>i<unat (GetNumThreads g). in_time i
           then \<exists>out. r = Inr (out @ line ''total sum: '' (unat n * (unat n + 1) div 2 mod 2 ^ 64))
           else r = Inl Dangling)))"
proof -
  let ?args = "[''-n'', print_nat 10 (unat n)]"
  obtain T G where fit: "fits T G (unat n)" "T \<le> 128"
    and g: "mk_granulator hw n = Inr (granulator_at T G (unat n) 0)"
    using mk_granulator_fits [OF assms(1-4)] by auto
  have T: "unat (GetNumThreads (granulator_at T G (unat n) 0)) = T"
    using fit(2) by (simp add: GetNumThreads_def granulator_at_def unat_of_nat)
  consider (late) "\<exists>i<T. \<not> in_time i" "thread_results hw n in_time = Inl Dangling"
    | (in_time) rs where "\<forall>i<T. in_time i" "thread_results hw n in_time = Inr rs"
      "sum_list rs = of_nat (unat n * (unat n + 1) div 2)"
    using thread_results_sum [OF fit g, of in_time] by blast
  then show ?thesis
  proof cases
    case late
    have run: "sum_main hw alloc_ok in_time ?args (Inl Dangling)"
      by (rule sum_main.thread_faults [where n = n and g = "granulator_at T G (unat n) 0"])
        (use sum_command [of n] assms(5) g late(2) in simp_all)
    have "r = Inl Dangling" if "sum_main hw alloc_ok in_time ?args r" for r
      using that by (cases rule: sum_main.cases) (use sum_command [of n] assms(5) g late(2) in auto)
    then show ?thesis using run late(1) g T by auto
  next
    case in_time
    obtain v where v: "adds (enumerate 0 rs, mk_MTVector) ([], v)" using adds_exists by blast
    have total: "unat (final_sum (GetUnsafe v)) = unat n * (unat n + 1) div 2 mod 2 ^ 64"
      if "adds (enumerate 0 rs, mk_MTVector) ([], v)" for v
    proof -
      have "mset (GetUnsafe v) = mset rs" using adds_mset [OF that] by (simp add: mk_MTVector_def GetUnsafe_def)
      then have "final_sum (GetUnsafe v) = of_nat (unat n * (unat n + 1) div 2)"
        using in_time(3) by (simp add: final_sum_mset sum_mset_sum_list)
      then show ?thesis by (simp add: unat_of_nat)
    qed
    have run: "\<exists>r. sum_main hw alloc_ok in_time ?args r"
      using sum_main.sums [of "?args" n alloc_ok hw _ in_time rs v] sum_command [of n] assms(5) g in_time(2) v by blast
    have "\<exists>out. r = Inr (out @ line ''total sum: '' (unat n * (unat n + 1) div 2 mod 2 ^ 64))"
      if "sum_main hw alloc_ok in_time ?args r" for r
      using that
    proof (cases rule: sum_main.cases)
      case (sums m g' rs' v')
      have "m = n" using sums(2) sum_command [of n] by simp
      then have "rs' = rs" using sums(5) in_time(2) by simp
      have "r = Inr ((''generating data...'' @ [CHR 0x0A] @ line ''number of items in vector: '' (unat m)
          @ line ''number of cores: '' (unat (GetNumThreads g')) @ line ''grain size     : '' (unat (GetGrain g')))
          @ line ''total sum: '' (unat (final_sum (GetUnsafe v'))))"
        unfolding sums(1) by (simp only: append_assoc)
      then show ?thesis using total [of v'] sums(6) \<open>rs' = rs\<close> by metis
    qed (use sum_command [of n] assms(5) g in_time(2) in auto)
    then show ?thesis using run in_time(1) g T by auto
  qed
qed

text \<open>Four threads: all in time, and with the last one late.\<close>

theorem sum_printed_witness:
  "(\<exists>out. sum_main 4 (\<lambda>_. True) (\<lambda>i. True) [''-n'', print_nat 10 1000] (Inr (out @ line ''total sum: '' 500500)))
   \<and> sum_main 4 (\<lambda>_. True) (\<lambda>i. i < 3) [''-n'', print_nat 10 1000] (Inl Dangling)"
proof -
  have u: "unat (1000 :: u64) = 1000" by simp
  have g: "mk_granulator 4 1000 = Inr (granulator_at 4 250 (unat (1000 :: u64)) 0)"
    by (simp add: mk_granulator_def granulator_at_def)
  have "unat (GetNumThreads (granulator_at 4 250 (unat (1000 :: u64)) 0)) = 4"
    by (simp add: GetNumThreads_def granulator_at_def)
  note T = this
  let ?args = "[''-n'', print_nat 10 1000]"
  note printed = sum_printed [of 4 1000 "\<lambda>_. True", unfolded u g]
  obtain r where r: "sum_main 4 (\<lambda>_. True) (\<lambda>i. True) ?args r" using printed by auto
  then have "\<exists>out. r = Inr (out @ line ''total sum: '' 500500)" using printed [of "\<lambda>i. True"] by auto
  moreover obtain r' where r': "sum_main 4 (\<lambda>_. True) (\<lambda>i. i < 3) ?args r'" using printed by auto
  moreover have "\<exists>i<4. \<not> i < (3 :: nat)" by (intro exI [of _ 3]) simp
  then have "r' = Inl Dangling" using printed [of "\<lambda>i. i < 3"] r' T by auto
  ultimately show ?thesis using r by auto
qed

end
