(* ===== verification/Tilemap.thy ===== *)
theory Tilemap
  imports Gamejam
begin

text \<open>
  \<^verbatim>\<open>gamejam/examples_sdl/render_tilemap_example.cc\<close>: a window, the textures that are drawn in it, and the order in which
  both are opened and given back. SDL is an argument, and a run is the sequence of calls to it.
\<close>

section \<open>Calls to SDL\<close>

type_synonym pointer = "nat option"

record sdl_rect =
  rect_x :: int
  rect_y :: int
  rect_w :: int
  rect_h :: int

text \<open>A call with its arguments and what it returned; \<open>Print\<close> is a line on the standard output.\<close>

datatype sdl_call =
    Sdl_Init int
  | Create_Window string int int pointer
  | Create_Renderer pointer pointer
  | Img_Init int
  | Img_Load string pointer
  | Texture_From_Surface pointer pointer pointer
  | Free_Surface pointer
  | Destroy_Texture nat
  | Destroy_Window pointer
  | Sdl_Quit
  | Poll_Event "bool option"
  | Render_Copy pointer pointer sdl_rect sdl_rect
  | Render_Present pointer
  | Sdl_Delay nat
  | Print string

text \<open>What SDL answers to the next call, after the calls made so far.\<close>

record sdl =
  int_answer :: "sdl_call list \<Rightarrow> int"
  pointer_answer :: "sdl_call list \<Rightarrow> pointer"

text \<open>An operation appends its calls and returns or throws.\<close>

type_synonym 'a sdl_run = "sdl_call list \<Rightarrow> sdl_call list \<times> 'a result"

definition after :: "'a sdl_run \<Rightarrow> ('a \<Rightarrow> 'b sdl_run) \<Rightarrow> 'b sdl_run" where
  "after m f calls = (case m calls of (calls', Inl e) \<Rightarrow> (calls', Inl e) | (calls', Inr x) \<Rightarrow> f x calls')"

section \<open>Tilemaps\<close>

record Tilemap =
  img_init_ret :: int
  texture_path :: string
  tilemap_renderer :: pointer
  surface :: pointer
  texture :: pointer

text \<open>The members are initialised first, in the order they are declared, and the checks follow.\<close>

definition mk_Tilemap :: "sdl \<Rightarrow> string \<Rightarrow> pointer \<Rightarrow> Tilemap sdl_run" where
  "mk_Tilemap a path renderer calls =
     (let i = int_answer a calls; calls = calls @ [Img_Init i];
        s = pointer_answer a calls; calls = calls @ [Img_Load path s];
        t = pointer_answer a calls; calls = calls @ [Texture_From_Surface renderer s t]
      in if renderer = None then (calls, Inl (Thrown ''runtime_error''))
         else if s = None then (calls, Inl (Thrown ''runtime_error''))
         else if t = None then (calls, Inl (Thrown ''runtime_error''))
         else (calls @ [Free_Surface s],
           Inr \<lparr>img_init_ret = i, texture_path = path, tilemap_renderer = renderer, surface = None, texture = t\<rparr>))"

definition destroy_Tilemap :: "Tilemap \<Rightarrow> sdl_call list" where
  "destroy_Tilemap m = Print ''FFUUUCK'' # (case texture m of None \<Rightarrow> [] | Some t \<Rightarrow> [Destroy_Texture t])"

record Entity =
  tilemap :: Tilemap

section \<open>Graphics\<close>

record Graphics =
  title :: string
  window_width :: u64
  window_height :: u64
  window :: pointer
  renderer :: pointer
  tilemaps :: "Tilemap list"

text \<open>The size of the window is narrowed to an \<open>int\<close>.\<close>

definition narrow :: "u64 \<Rightarrow> int" where
  "narrow w = sint (ucast w :: 32 word)"

definition mk_Graphics :: "sdl \<Rightarrow> string \<Rightarrow> u64 \<Rightarrow> u64 \<Rightarrow> Graphics sdl_run" where
  "mk_Graphics a ttl w h calls =
     (let i = int_answer a calls; calls = calls @ [Sdl_Init i]
      in if i = - 1 then (calls, Inl (Thrown ''runtime_error''))
         else let win = pointer_answer a calls; calls = calls @ [Create_Window ttl (narrow w) (narrow h) win]
         in if win = None then (calls, Inl (Thrown ''runtime_error''))
         else let ren = pointer_answer a calls; calls = calls @ [Create_Renderer win ren]
         in if ren = None then (calls, Inl (Thrown ''runtime_error''))
         else (calls, Inr \<lparr>title = ttl, window_width = w, window_height = h, window = win, renderer = ren, tilemaps = []\<rparr>))"

text \<open>The body of the destructor runs before the members are destroyed, the tilemaps from the first to the last.\<close>

definition destroy_Graphics :: "Graphics \<Rightarrow> sdl_call list" where
  "destroy_Graphics g = [Destroy_Window (window g), Sdl_Quit] @ concat (map destroy_Tilemap (tilemaps g))"

definition GetRendererPtr :: "Graphics \<Rightarrow> pointer" where
  "GetRendererPtr g = renderer g"

definition AddTilemap :: "sdl \<Rightarrow> string \<Rightarrow> Graphics \<Rightarrow> Graphics sdl_run" where
  "AddTilemap a path g =
     after (mk_Tilemap a path (renderer g)) (\<lambda>m calls. (calls, Inr (g\<lparr>tilemaps := tilemaps g @ [m]\<rparr>)))"

definition square :: "int \<Rightarrow> sdl_rect" where
  "square x = \<lparr>rect_x = x, rect_y = 0, rect_w = 32, rect_h = 32\<rparr>"

text \<open>\<open>tilemaps_[i]->texture_\<close> is drawn from its first square to the one given.\<close>

definition copy_tile :: "Graphics \<Rightarrow> nat \<Rightarrow> sdl_rect \<Rightarrow> unit sdl_run" where
  "copy_tile g i position calls =
     (case read_at (tilemaps g) i of
        Inl e \<Rightarrow> (calls, Inl e)
      | Inr m \<Rightarrow> (calls @ [Render_Copy (renderer g) (texture m) (square 0) position], Inr ()))"

text \<open>The loop over its passes: for each the events that are waiting, \<open>True\<close> for a quit. \<open>None\<close> when it goes on after them.\<close>

fun RenderLoop :: "Graphics \<Rightarrow> bool list list \<Rightarrow> sdl_call list \<Rightarrow> (sdl_call list \<times> unit result) option" where
  "RenderLoop g [] calls = None"
| "RenderLoop g (events # passes) calls =
     (let alive = (True \<notin> set events);
        calls = calls @ map (\<lambda>e. Poll_Event (Some e)) events @ [Poll_Event None]
      in case after (copy_tile g 0 (square (32 * 0))) (\<lambda>_. copy_tile g 1 (square (32 * 1))) calls of
           (calls, Inl e) \<Rightarrow> Some (calls, Inl e)
         | (calls, Inr _) \<Rightarrow>
             let calls = calls @ [Render_Present (renderer g), Sdl_Delay 500]
             in if alive then RenderLoop g passes calls else Some (calls, Inr ()))"

section \<open>The program\<close>

text \<open>No handler encloses the calls, so an exception ends the program without the destructors.\<close>

definition example_main :: "sdl \<Rightarrow> bool list list \<Rightarrow> (sdl_call list \<times> int result) option" where
  "example_main a passes =
     (case after (mk_Graphics a ''sdl/sprawl examples'' 256 240)
         (\<lambda>g. after (AddTilemap a ''gamejam/examples_sdl/assets/Autumn_Ground_32x32.png'' g)
           (AddTilemap a ''gamejam/examples_sdl/assets/Summer_Ground_32x32.png'')) [] of
        (calls, Inl e) \<Rightarrow> Some (calls, Inl e)
      | (calls, Inr g) \<Rightarrow>
          (case RenderLoop g passes calls of
             None \<Rightarrow> None
           | Some (calls, Inl e) \<Rightarrow> Some (calls, Inl e)
           | Some (calls, Inr _) \<Rightarrow> Some (calls @ destroy_Graphics g, Inr 0)))"

section \<open>The life of the textures\<close>

text \<open>
  The textures that are live after a call, and a check of every call against those that are live before it. A texture
  belongs to its renderer and that to the window: SDL promises none of them behind the end of the window or its own.
\<close>

fun after_call :: "sdl_call \<Rightarrow> nat list \<Rightarrow> nat list" where
  "after_call (Texture_From_Surface r s (Some t)) ts = t # ts"
| "after_call (Destroy_Texture t) ts = remove1 t ts"
| "after_call (Destroy_Window w) ts = []"
| "after_call Sdl_Quit ts = []"
| "after_call c ts = ts"

fun checked :: "(sdl_call \<Rightarrow> nat list \<Rightarrow> bool) \<Rightarrow> nat list \<Rightarrow> sdl_call list \<Rightarrow> bool" where
  "checked P ts [] \<longleftrightarrow> True"
| "checked P ts (c # cs) \<longleftrightarrow> P c ts \<and> checked P (after_call c ts) cs"

text \<open>SDL makes a texture in memory no live one has; only live ones may be drawn and destroyed.\<close>

fun fresh :: "sdl_call \<Rightarrow> nat list \<Rightarrow> bool" where
  "fresh (Texture_From_Surface r s (Some t)) ts \<longleftrightarrow> t \<notin> set ts"
| "fresh c ts \<longleftrightarrow> True"

fun used_live :: "sdl_call \<Rightarrow> nat list \<Rightarrow> bool" where
  "used_live (Render_Copy r t src dst) ts \<longleftrightarrow> t \<in> Some ` set ts"
| "used_live (Destroy_Texture t) ts \<longleftrightarrow> t \<in> set ts"
| "used_live c ts \<longleftrightarrow> True"

lemma checked_append: "checked P ts (cs @ ds) \<longleftrightarrow> checked P ts cs \<and> checked P (fold after_call cs ts) ds"
  by (induction cs arbitrary: ts) auto

text \<open>The same for the surfaces: loaded, and freed after the texture is made.\<close>

fun after_surface :: "sdl_call \<Rightarrow> pointer list \<Rightarrow> pointer list" where
  "after_surface (Img_Load p (Some s)) ss = Some s # ss"
| "after_surface (Free_Surface s) ss = remove1 s ss"
| "after_surface c ss = ss"

section \<open>What a run does\<close>

text \<open>The calls that open the window, those of a tilemap, and those of a pass of the loop.\<close>

definition opened :: "int \<Rightarrow> nat \<Rightarrow> nat \<Rightarrow> sdl_call list" where
  "opened i w r = [Sdl_Init i, Create_Window ''sdl/sprawl examples'' 256 240 (Some w), Create_Renderer (Some w) (Some r)]"

definition loading :: "string \<Rightarrow> nat \<Rightarrow> int \<times> nat \<times> nat \<Rightarrow> sdl_call list" where
  "loading path r = (\<lambda>(i, s, t).
     [Img_Init i, Img_Load path (Some s), Texture_From_Surface (Some r) (Some s) (Some t), Free_Surface (Some s)])"

definition frame :: "nat \<Rightarrow> nat \<Rightarrow> nat \<Rightarrow> bool list \<Rightarrow> sdl_call list" where
  "frame r t0 t1 events =
     map (\<lambda>e. Poll_Event (Some e)) events @
     [Poll_Event None, Render_Copy (Some r) (Some t0) (square 0) (square 0),
      Render_Copy (Some r) (Some t1) (square 0) (square 32), Render_Present (Some r), Sdl_Delay 500]"

definition closed_down :: "nat \<Rightarrow> nat \<Rightarrow> nat \<Rightarrow> sdl_call list" where
  "closed_down w t0 t1 = [Destroy_Window (Some w), Sdl_Quit,
     Print ''FFUUUCK'', Destroy_Texture t0, Print ''FFUUUCK'', Destroy_Texture t1]"

text \<open>The passes up to the first with a quit, which is still drawn.\<close>

definition until_quit :: "bool list list \<Rightarrow> bool list list" where
  "until_quit passes = takeWhile (\<lambda>p. True \<notin> set p) passes @ take 1 (dropWhile (\<lambda>p. True \<notin> set p) passes)"


lemma RenderLoop_frames:
  assumes "tilemaps g = [m0, m1]" "renderer g = Some r" "texture m0 = Some t0" "texture m1 = Some t1"
  shows "RenderLoop g passes calls =
    (if \<exists>p\<in>set passes. True \<in> set p then Some (calls @ concat (map (frame r t0 t1) (until_quit passes)), Inr ()) else None)"
  by (induction passes arbitrary: calls)
    (auto simp: after_def copy_tile_def read_at_def assms frame_def until_quit_def Let_def)

lemma mk_Tilemap_cases:
  assumes "mk_Tilemap a path (Some r) calls = (calls', res)"
  obtains (thrown) "res = Inl (Thrown ''runtime_error'')"
  | (made) i s t where "calls' = calls @ loading path r (i, s, t)"
      "res = Inr \<lparr>img_init_ret = i, texture_path = path, tilemap_renderer = Some r, surface = None, texture = Some t\<rparr>"
  using assms by (auto simp: mk_Tilemap_def loading_def Let_def split: if_splits)

lemma mk_Graphics_cases:
  assumes "mk_Graphics a ''sdl/sprawl examples'' 256 240 [] = (calls, res)"
  obtains (thrown) "res = Inl (Thrown ''runtime_error'')"
  | (made) i w r where "calls = opened i w r"
      "res = Inr \<lparr>title = ''sdl/sprawl examples'', window_width = 256, window_height = 240, window = Some w, renderer = Some r, tilemaps = []\<rparr>"
  using assms by (auto simp: mk_Graphics_def opened_def narrow_def Let_def split: if_splits)

abbreviation "autumn \<equiv> ''gamejam/examples_sdl/assets/Autumn_Ground_32x32.png''"
abbreviation "summer \<equiv> ''gamejam/examples_sdl/assets/Summer_Ground_32x32.png''"

text \<open>A run either throws while it opens, or has these calls, for as many passes as it takes.\<close>

lemma example_main_cases:
  obtains (thrown) calls where "example_main a passes = Some (calls, Inl (Thrown ''runtime_error''))"
  | (runs) i w r i0 s0 t0 i1 s1 t1 where "example_main a passes =
      (if \<exists>p\<in>set passes. True \<in> set p
       then Some (opened i w r @ loading autumn r (i0, s0, t0) @ loading summer r (i1, s1, t1)
         @ concat (map (frame r t0 t1) (until_quit passes)) @ closed_down w t0 t1, Inr 0)
       else None)"
proof -
  obtain c0 g0 where g: "mk_Graphics a ''sdl/sprawl examples'' 256 240 [] = (c0, g0)" by fastforce
  then show thesis
  proof (cases rule: mk_Graphics_cases)
    case thrown
    then show thesis using that(1) g by (simp add: example_main_def after_def)
  next
    case (made i w r)
    obtain c1 m0 where m0: "mk_Tilemap a autumn (Some r) c0 = (c1, m0)" by fastforce
    then show thesis
    proof (cases rule: mk_Tilemap_cases)
      case thrown
      then show thesis using that(1) g made m0 by (simp add: example_main_def after_def AddTilemap_def)
    next
      case first: (made i0 s0 t0)
      obtain c2 m1 where m1: "mk_Tilemap a summer (Some r) c1 = (c2, m1)" by fastforce
      then show thesis
      proof (cases rule: mk_Tilemap_cases)
        case thrown
        then show thesis using that(1) g made m0 first m1 by (simp add: example_main_def after_def AddTilemap_def)
      next
        case second: (made i1 s1 t1)
        show thesis
          using g made m0 first m1 second
          by (intro that(2) [of i w r i0 s0 t0 i1 s1 t1])
            (simp add: example_main_def after_def AddTilemap_def RenderLoop_frames destroy_Graphics_def destroy_Tilemap_def closed_down_def)
      qed
    qed
  qed
qed

text \<open>The frames draw the two textures and change nothing that is live.\<close>

lemma frame_checked:
  "t0 \<in> set ts \<Longrightarrow> t1 \<in> set ts \<Longrightarrow> checked used_live ts (concat (map (frame r t0 t1) ps))"
  "fold after_call (concat (map (frame r t0 t1) ps)) ts = ts"
  "fold after_surface (concat (map (frame r t0 t1) ps)) ss = ss"
proof -
  have polls: "checked used_live ts (map (\<lambda>e. Poll_Event (Some e)) es)" "fold after_call (map (\<lambda>e. Poll_Event (Some e)) es) ts = ts"
    "fold after_surface (map (\<lambda>e. Poll_Event (Some e)) es) ss = ss" for es ts ss
    by (induction es) simp_all
  show "t0 \<in> set ts \<Longrightarrow> t1 \<in> set ts \<Longrightarrow> checked used_live ts (concat (map (frame r t0 t1) ps))"
    by (induction ps) (simp_all add: checked_append polls frame_def)
  show "fold after_call (concat (map (frame r t0 t1) ps)) ts = ts"
    by (induction ps) (simp_all add: polls frame_def)
  show "fold after_surface (concat (map (frame r t0 t1) ps)) ss = ss"
    by (induction ps) (simp_all add: polls frame_def)
qed

text \<open>C37: in a run of the example that returns, every surface is freed, and up to the end of the window only live textures
  are used, and both of them are then still live. But they end with the window: the two destructors that come after it
  and after SDL is shut down destroy textures that are no longer live.\<close>

theorem textures_live:
  assumes "example_main a passes = Some (calls, Inr code)" and "checked fresh [] calls"
  shows "code = 0 \<and> fold after_surface calls [] = []
    \<and> (\<exists>before w t0 t1. t0 \<noteq> t1
         \<and> calls = before @ [Destroy_Window w, Sdl_Quit, Print ''FFUUUCK'', Destroy_Texture t0, Print ''FFUUUCK'', Destroy_Texture t1]
         \<and> checked used_live [] before \<and> fold after_call before [] = [t1, t0])
    \<and> \<not> checked used_live [] calls"
proof (cases rule: example_main_cases [of a passes])
  case (thrown calls')
  then show ?thesis using assms(1) by simp
next
  case (runs i w r i0 s0 t0 i1 s1 t1)
  let ?before = "opened i w r @ loading autumn r (i0, s0, t0) @ loading summer r (i1, s1, t1) @ concat (map (frame r t0 t1) (until_quit passes))"
  have calls: "code = 0" "calls = ?before @ closed_down w t0 t1"
    using assms(1) runs by (auto split: if_splits)
  have "t0 \<noteq> t1" using assms(2) unfolding calls(2) by (simp add: checked_append opened_def loading_def)
  moreover have "checked used_live [] ?before" "fold after_call ?before [] = [t1, t0]"
    by (simp_all add: checked_append opened_def loading_def frame_checked)
  moreover have "\<not> checked used_live [] calls"
    unfolding calls(2) checked_append by (simp add: closed_down_def)
  moreover have "fold after_surface calls [] = []"
    unfolding calls(2) by (simp add: opened_def loading_def closed_down_def frame_checked)
  ultimately show ?thesis using calls unfolding closed_down_def by blast
qed

text \<open>A concrete SDL, whose pointers are the numbers of its calls.\<close>

definition counting_sdl :: sdl where
  "counting_sdl = \<lparr>int_answer = (\<lambda>_. 0), pointer_answer = (\<lambda>calls. Some (length calls))\<rparr>"

theorem textures_live_witness:
  "\<exists>calls before w t0. example_main counting_sdl [[False], [True, False]] = Some (calls, Inr 0)
    \<and> calls = before @ [Destroy_Window w, Sdl_Quit, Print ''FFUUUCK'', Destroy_Texture t0, Print ''FFUUUCK'', Destroy_Texture 9]
    \<and> checked used_live [] before \<and> \<not> checked used_live [] calls"
proof -
  obtain calls where run: "example_main counting_sdl [[False], [True, False]] = Some (calls, Inr 0)"
      "checked fresh [] calls" "last calls = Destroy_Texture 9"
    by (simp add: example_main_def after_def mk_Graphics_def mk_Tilemap_def AddTilemap_def counting_sdl_def copy_tile_def
        read_at_def destroy_Graphics_def destroy_Tilemap_def Let_def)
  obtain before w t0 t1 where c: "calls = before @ [Destroy_Window w, Sdl_Quit, Print ''FFUUUCK'', Destroy_Texture t0, Print ''FFUUUCK'', Destroy_Texture t1]"
      "checked used_live [] before" "\<not> checked used_live [] calls"
    using textures_live [OF run(1,2)] by blast
  then have "t1 = 9" using run(3) by simp
  then show ?thesis using run(1) c by blast
qed

section \<open>Openings that fail\<close>

text \<open>A texture that cannot be made leaves its surface; drawing before two tilemaps are added reads behind the vector.\<close>

lemma surface_left:
  assumes "pointer_answer a (calls @ [Img_Init (int_answer a calls)]) = Some s"
    and "pointer_answer a (calls @ [Img_Init (int_answer a calls), Img_Load path (Some s)]) = None"
    and "fold after_surface calls [] = ss"
  shows "\<exists>calls'. mk_Tilemap a path (Some r) calls = (calls', Inl (Thrown ''runtime_error'')) \<and> fold after_surface calls' [] = Some s # ss"
  using assms by (simp add: mk_Tilemap_def Let_def)

lemma draws_two: "length (tilemaps g) < 2 \<Longrightarrow> passes \<noteq> [] \<Longrightarrow> \<exists>calls'. RenderLoop g passes calls = Some (calls', Inl Out_Of_Bounds)"
  by (cases passes) (auto simp: after_def copy_tile_def read_at_def Let_def)

end
