(* ===== verification/Algorithm.thy ===== *)
theory Algorithm
  imports Prelude "HOL-Library.List_Lexorder" "HOL-Library.Char_ord"
begin

text \<open>
  The exercises with the standard library's algorithms in \<^verbatim>\<open>misc/algorithm.cc\<close>. An iterator is an index, the end
  the number of elements; sets and maps are lists in the order of their keys. What an exercise does is a definition
  over arbitrary data where it has some of its own, and each exercise is the conjunction of its expectations.
\<close>

section \<open>Data\<close>

record Person =
  person_name :: string
  person_age :: u8

definition GetName :: "Person \<Rightarrow> string" where
  "GetName p = person_name p"

definition GetAge :: "Person \<Rightarrow> u8" where
  "GetAge p = person_age p"

definition mk_Person :: "string \<Rightarrow> u8 \<Rightarrow> Person" where
  "mk_Person n a = \<lparr>person_name = n, person_age = a\<rparr>"

definition kStrVec :: "string list" where
  "kStrVec = [''one'', ''two'', ''three'', ''four'', ''potato'']"

definition kPeople :: "Person list" where
  "kPeople = [mk_Person ''bob'' 12, mk_Person ''jane'' 13, mk_Person ''chris'' 14, mk_Person ''barbara'' 12, mk_Person ''nope'' 12]"

section \<open>Searching\<close>

definition find_if :: "('a \<Rightarrow> bool) \<Rightarrow> 'a list \<Rightarrow> nat" where
  "find_if P xs = length (takeWhile (\<lambda>x. \<not> P x) xs)"

definition count_if :: "('a \<Rightarrow> bool) \<Rightarrow> 'a list \<Rightarrow> nat" where
  "count_if P xs = length (filter P xs)"

text \<open>The element found satisfies the predicate, and none before it does; the end is found when none does.\<close>

lemma find_if_first:
  "(find_if P xs < length xs \<longleftrightarrow> (\<exists>x\<in>set xs. P x)) \<and> (find_if P xs < length xs \<longrightarrow> P (xs ! find_if P xs))
   \<and> (\<forall>i<find_if P xs. \<not> P (xs ! i))"
  by (induction xs) (auto simp: find_if_def nth_Cons' less_Suc_eq_0_disj)

definition vector_all_of :: bool where
  "vector_all_of \<longleftrightarrow> list_all (\<lambda>str. length str > 2) kStrVec"

definition vector_find_if :: bool where
  "vector_find_if \<longleftrightarrow>
     find_if (\<lambda>str. str = ''potato'') kStrVec \<noteq> length kStrVec \<and> find_if (\<lambda>str. str = ''notato'') kStrVec = length kStrVec"

definition vector_find_if_object :: bool where
  "vector_find_if_object \<longleftrightarrow>
     find_if (\<lambda>p. GetName p = ''jane'') kPeople \<noteq> length kPeople \<and> count_if (\<lambda>p. GetAge p mod 2 = 0) kPeople = 4"

definition set_insert :: "u8 \<Rightarrow> u8 list \<Rightarrow> u8 list" where
  "set_insert x s = (if x \<in> set s then s else insort x s)"

definition set_find_if :: bool where
  "set_find_if \<longleftrightarrow>
     (let s = fold set_insert [1, 2, 7, 9] []; it = find_if (\<lambda>v. v = 7) s
      in it \<noteq> length s \<and> read_at s it = read_at s (find_if (\<lambda>v. v = 7) s))"

definition map_of_list :: "(string \<times> int) list \<Rightarrow> (string \<times> int) list" where
  "map_of_list es = fold (\<lambda>e m. if fst e \<in> fst ` set m then m else insort_key fst e m) es []"

definition map_find_if :: bool where
  "map_find_if \<longleftrightarrow>
     (let m = map_of_list [(''bob'', 1), (''jane'', 20), (''chris'', 4), (''mark'', 1000)];
        it = find_if (\<lambda>v. fst v = ''mark'') m
      in rmap fst (read_at m it) = Inr ''mark'' \<and> rmap snd (read_at m it) = Inr 1000)"

definition any_of_vector :: bool where
  "any_of_vector \<longleftrightarrow> list_ex (\<lambda>s. s = ''one'') kStrVec \<and> \<not> list_ex (\<lambda>s. s = ''none'') kStrVec"

definition none_of_vector :: bool where
  "none_of_vector \<longleftrightarrow> \<not> list_ex (\<lambda>s. s = ''none'') kStrVec"

lemma searching_passes:
  "vector_all_of \<and> vector_find_if \<and> vector_find_if_object \<and> any_of_vector \<and> none_of_vector"
  by code_simp

lemma containers_pass: "set_find_if \<and> map_find_if"
  by code_simp

section \<open>Changing in place\<close>

definition increment_each :: "u32 list \<Rightarrow> u32 list" where
  "increment_each v = map (\<lambda>val. val + 1) v"

definition foreach :: bool where
  "foreach \<longleftrightarrow> increment_each [1, 2, 3, 4, 5, 6, 7, 8, 9] = [2, 3, 4, 5, 6, 7, 8, 9, 10]"

text \<open>\<open>std::unique\<close> over a vector read by \<open>i\<close> and written at \<open>j\<close>: the element last kept is compared with the next.
  What it leaves behind the end it returns is what was there.\<close>

fun unique_loop :: "u32 list \<Rightarrow> nat \<Rightarrow> nat \<Rightarrow> nat \<Rightarrow> u32 list \<times> nat" where
  "unique_loop v i j 0 = (v, Suc j)"
| "unique_loop v i j (Suc n) =
     (if v ! j = v ! i then unique_loop v (Suc i) j n else unique_loop (v[Suc j := v ! i]) (Suc i) (Suc j) n)"

definition std_unique :: "u32 list \<Rightarrow> u32 list \<times> nat" where
  "std_unique v = (if v = [] then ([], 0) else unique_loop v 1 0 (length v - 1))"

definition shrunk :: "u32 list \<Rightarrow> u32 list" where
  "shrunk v = (let (v, it) = std_unique v; new_size = it in if new_size > 0 then take new_size v else v)"

definition test_unique :: bool where
  "test_unique \<longleftrightarrow>
     length (shrunk [1, 1, 1, 1, 1, 1, 2, 2, 2, 2, 2, 2, 3, 3, 3, 3, 3, 3, 4, 4, 4, 4, 4, 4]) = 4"

definition replace_ones :: "u32 list \<Rightarrow> u32 list" where
  "replace_ones v = map (\<lambda>val. if val = 1 then 0 else val) v"

definition test_replace_if :: bool where
  "test_replace_if \<longleftrightarrow> replace_ones [1, 1, 1, 1, 8, 8, 8, 1, 1] = [0, 0, 0, 0, 8, 8, 8, 0, 0]"

lemma in_place_passes: "foreach \<and> test_unique \<and> test_replace_if"
  by code_simp

text \<open>What is left of a vector has one element of each group of equal neighbours.\<close>

lemma unique_loop_kept:
  "i + n = length v \<Longrightarrow> j < i \<Longrightarrow>
   (case unique_loop v i j n of (w, k) \<Rightarrow> 0 < k \<and> take k w = take j v @ remdups_adj (v ! j # drop i v))"
proof (induction n arbitrary: v i j)
  case 0
  then show ?case by (simp add: take_Suc_conv_app_nth)
next
  case (Suc n)
  then have d: "drop i v = v ! i # drop (Suc i) v" by (simp add: Cons_nth_drop_Suc)
  show ?case
  proof (cases "v ! j = v ! i")
    case True
    then show ?thesis using Suc.IH [of "Suc i" v j] Suc.prems d by simp
  next
    case False
    then show ?thesis
      using Suc.IH [of "Suc i" "v[Suc j := v ! i]" "Suc j"] Suc.prems d
      by (simp add: take_Suc_conv_app_nth split: prod.splits)
  qed
qed

lemma shrunk_remdups: "shrunk v = remdups_adj v"
proof (cases v)
  case (Cons x xs)
  then show ?thesis
    using unique_loop_kept [of 1 "length xs" v 0] by (auto simp: shrunk_def std_unique_def split: prod.splits)
qed (simp add: shrunk_def std_unique_def)

section \<open>Shuffling\<close>

definition counted :: "nat \<Rightarrow> u32 list" where
  "counted n = map of_nat [1..<Suc n]"

text \<open>The order of \<open>std::shuffle\<close> with the default engine is the library's, an argument here.\<close>

definition test_shuffle :: "(u32 list \<Rightarrow> u32 list) \<Rightarrow> bool" where
  "test_shuffle shuffle \<longleftrightarrow>
     (let v = counted 100
      in read_at v 0 = Inr 1 \<and> read_at v 99 = Inr 100 \<and> read_at v 49 = Inr 50 \<and>
         (let v = shuffle v in read_at v 0 = Inr 28 \<and> read_at v 99 = Inr 12))"

section \<open>Partition into two vectors\<close>

text \<open>\<open>partition_copy\<close> writes through iterators into vectors that have their size already.\<close>

fun partition_copy :: "('a \<Rightarrow> bool) \<Rightarrow> 'a list \<Rightarrow> 'a list \<times> nat \<Rightarrow> 'a list \<times> nat \<Rightarrow> ('a list \<times> 'a list) result" where
  "partition_copy P [] (pass, i) (fail, j) = Inr (pass, fail)"
| "partition_copy P (x # xs) (pass, i) (fail, j) =
     (if P x then
        if i < length pass then partition_copy P xs (pass[i := x], i + 1) (fail, j) else Inl Out_Of_Bounds
      else
        if j < length fail then partition_copy P xs (pass, i) (fail[j := x], j + 1) else Inl Out_Of_Bounds)"

definition partition_vectors :: "(string \<Rightarrow> bool) \<Rightarrow> string list \<Rightarrow> (string list \<times> string list) result" where
  "partition_vectors match_fn og =
     (let num_matching = count_if match_fn og;
        pass = replicate num_matching []; fail = replicate (length og - num_matching) []
      in partition_copy match_fn og (pass, 0) (fail, 0))"

lemma partition_copy_fits:
  "partition_copy P xs (as @ replicate (count_if P xs) d, length as) (bs @ replicate (length xs - count_if P xs) d, length bs) =
     Inr (as @ filter P xs, bs @ filter (\<lambda>x. \<not> P x) xs)"
proof (induction xs arbitrary: as bs)
  case (Cons x xs)
  have "length bs < Suc (length bs + length xs - length (filter P xs))" using length_filter_le [of P xs] by linarith
  then show ?case
    using Cons [of "as @ [x]" bs] Cons [of as "bs @ [x]"]
    by (simp add: count_if_def list_update_append Suc_diff_le)
qed (simp add: count_if_def)

text \<open>whatever the strings and the predicate, the two vectors have just the size the copy needs: no write leaves them,
  and they hold the strings that match and those that do not, in order.\<close>

theorem partition_exact: "partition_vectors P og = Inr (filter P og, filter (\<lambda>s. \<not> P s) og)"
  using partition_copy_fits [of P og "[]" "[]" "[]"] by (simp add: partition_vectors_def Let_def)

definition match_fn :: "string \<Rightarrow> bool" where
  "match_fn s \<longleftrightarrow> count_if (\<lambda>c. c = CHR ''a'') s \<ge> 3"

definition test_partition :: bool where
  "test_partition \<longleftrightarrow>
     partition_vectors match_fn
       [''banana'', ''anana'', ''pineapple'', ''laughlin'', ''derp souls'', ''hello'', ''tanzania'', ''yamaha'', ''patagonia'',
        ''something'', ''somethingelse'', ''definitelynot'', ''panama'', ''maintainable'', ''kampala'', ''blargh'', ''blorgh'',
        ''fizzbuzz'', ''disadvantage'', ''barbara'', ''arkansas''] =
     Inr ([''banana'', ''anana'', ''tanzania'', ''yamaha'', ''patagonia'', ''panama'', ''maintainable'', ''kampala'',
        ''disadvantage'', ''barbara'', ''arkansas''],
       [''pineapple'', ''laughlin'', ''derp souls'', ''hello'', ''something'', ''somethingelse'', ''definitelynot'',
        ''blargh'', ''blorgh'', ''fizzbuzz''])"

lemma partition_passes: test_partition
  by code_simp

end
