(* ===== verification/Library_Tests.thy ===== *)
theory Library_Tests
  imports Codec Hashes Md5 Bigint Uuid
begin

text \<open>
  The tests that the repository has for its libraries, \<^verbatim>\<open>common/test/codec.cc\<close>, \<^verbatim>\<open>ds/*_test.cc\<close> and \<^verbatim>\<open>uuid/test/\<close>,
  over the model: a test is the conjunction of its expectations, and an expectation on a result that is a fault is
  false. The tests named \<open>DISABLED\<close> are not run. Left out are the digests of long inputs, which take too long to evaluate,
  and the test \<open>cmp_neq\<close>, which compares the addresses of two UUIDs and not their values.
\<close>

section \<open>Codec\<close>

definition codecode :: bool where
  "codecode \<longleftrightarrow>
     (let v = 0xaabbccddeeff0011; (r, actual) = EncodeU64LE v [];
        expected = [0x11, 0x00, 0xff, 0xee, 0xdd, 0xcc, 0xbb, 0xaa]
      in r = Codec_Ok \<and> expected = actual \<and> DecodeU64LE actual 0 = Inr (Codec_Ok, v))"

lemma codecode_passes: codecode
  by code_simp

section \<open>Checksums\<close>

definition sample_bytes_1 :: bytes where
  "sample_bytes_1 = [0x01, 0x02, 0x03, 0x04, 0x05]"

definition sample_bytes_2 :: bytes where
  "sample_bytes_2 = [0x01, 0x10, 0xaa, 0xbb, 0xcc, 0xff]"

definition test_djb2 :: bool where
  "test_djb2 \<longleftrightarrow>
     (let result_1 = djb2 sample_bytes_1; result_2 = djb2 sample_bytes_2
      in result_1 \<noteq> 0 \<and> result_1 = 210588810932 \<and> result_2 \<noteq> result_1 \<and> result_2 = 6949453571238)"

definition test_sdbm :: bool where
  "test_sdbm \<longleftrightarrow>
     (let result_1 = sdbm sample_bytes_1; result_2 = sdbm sample_bytes_2
      in result_1 \<noteq> 0 \<and> result_1 = 71598627968528387 \<and> result_2 = 12367020746941822611 \<and> result_1 \<noteq> result_2)"

definition test_loselose :: bool where
  "test_loselose \<longleftrightarrow> (let result_1 = loselose sample_bytes_1 in result_1 \<noteq> 0 \<and> result_1 = 15)"

definition test_fletcher16 :: bool where
  "test_fletcher16 \<longleftrightarrow> fletcher16 [1, 2] = 0x0403 \<and> fletcher16 [10, 25, 32, 99, 100, 44] = 0x5636"

definition test_fletcher32 :: bool where
  "test_fletcher32 \<longleftrightarrow> fletcher32 sample_bytes_1 = 0x23000f \<and> fletcher32 sample_bytes_2 = 0x7c60341"

lemma hashes_pass: "test_djb2 \<and> test_sdbm \<and> test_loselose \<and> test_fletcher16 \<and> test_fletcher32"
  by code_simp

section \<open>Arbitrary precision integers\<close>

definition bad_init :: bool where
  "bad_init \<longleftrightarrow> (\<forall>s\<in>{''12a'', ''a12'', ''1a2''}. case BigInt s of Inl (Thrown _) \<Rightarrow> True | _ \<Rightarrow> False)"

definition bigint_init :: bool where
  "bigint_init \<longleftrightarrow> rmap bi_digits (BigInt ''123'') = Inr [1, 2, 3]"

definition check_add :: "string \<Rightarrow> string \<Rightarrow> string \<Rightarrow> bool" where
  "check_add v1 v2 expected \<longleftrightarrow>
     rbind (BigInt v1) (\<lambda>b1. rmap (\<lambda>b2. ToString (plus_bigint b1 b2)) (BigInt v2)) = Inr expected"

definition test_add :: bool where
  "test_add \<longleftrightarrow> check_add ''123'' ''321'' ''444'' \<and>
     check_add ''1111111111111111111111111111111111111111111111111''
       ''1111111111111111111111111111111111111111111111111''
       ''2222222222222222222222222222222222222222222222222''"

definition test_carry :: bool where
  "test_carry \<longleftrightarrow> check_add ''190'' ''10'' ''200'' \<and> check_add ''1599'' ''1'' ''1600'' \<and>
     check_add ''9'' ''1'' ''10'' \<and> check_add ''99'' ''1'' ''100'' \<and> check_add ''999'' ''1'' ''1000'' \<and>
     check_add ''9999'' ''1'' ''10000'' \<and>
     check_add ''9999999999999999999999999999999999999999999999999999'' ''1''
       ''10000000000000000000000000000000000000000000000000000'' \<and>
     check_add ''123'' ''987'' ''1110'' \<and> check_add ''99009900'' ''11001100'' ''110011000''"

lemma bigint_passes: "bad_init \<and> bigint_init \<and> test_add \<and> test_carry"
  by code_simp

section \<open>MD5\<close>

definition msg_size :: "bytes \<Rightarrow> u64" where
  "msg_size padded = foldl (\<lambda>m b. m OR ucast b) 0 (drop (length padded - 8) padded)"

definition basic_pad :: bool where
  "basic_pad \<longleftrightarrow>
     (let original = [0, 1, 2, 3]; padded_message = PadMessage original
      in length padded_message = 64 \<and> original ! 0 = padded_message ! 0 \<and> original ! 3 = padded_message ! 3 \<and>
         padded_message ! 4 = 0b10000000 \<and> padded_message ! 5 = 0 \<and> msg_size padded_message = 4 * 8)"

definition basic_string_message_pad :: bool where
  "basic_string_message_pad \<longleftrightarrow>
     (let original = map byte_of ''hello there''; padded_message = PadMessage original
      in length padded_message = 64 \<and> original ! 0 = padded_message ! 0 \<and> original ! 3 = padded_message ! 3 \<and>
         padded_message ! 11 = 0b10000000 \<and> padded_message ! 12 = 0 \<and> msg_size padded_message = 11 * 8)"

definition pad_n_plus_1 :: bool where
  "pad_n_plus_1 \<longleftrightarrow>
     (let padded_message = PadMessage (replicate 65 0xa)
      in length padded_message = 128 \<and> padded_message ! 65 = 0b10000000)"

definition extract_chunk :: bool where
  "extract_chunk \<longleftrightarrow>
     (let data = [0, 1, 2, 3, 1, 2, 3, 4, 2, 2, 2, 2] @ concat (map (\<lambda>i. replicate 4 (of_nat i)) [3..<16])
      in ExtractChunk data 0 64 (replicate 16 0) ! 0 = 0x03020100)"

definition check_digest_bytes :: "bytes \<Rightarrow> string \<Rightarrow> bool" where
  "check_digest_bytes message expected \<longleftrightarrow> map_option DigestToString (Digest message) = Some expected"

definition check_digest :: "string \<Rightarrow> string \<Rightarrow> bool" where
  "check_digest inputstr expected \<longleftrightarrow> check_digest_bytes (map byte_of inputstr) expected"

definition empty_message :: bool where
  "empty_message \<longleftrightarrow> check_digest_bytes [] ''d41d8cd98f00b204e9800998ecf8427e''"

definition rfc_test_cases :: bool where
  "rfc_test_cases \<longleftrightarrow>
     check_digest [] ''d41d8cd98f00b204e9800998ecf8427e'' \<and>
     check_digest ''a'' ''0cc175b9c0f1b6a831c399e269772661'' \<and>
     check_digest ''abc'' ''900150983cd24fb0d6963f7d28e17f72'' \<and>
     check_digest ''message digest'' ''f96b697d7cb7938d525a2f31aaf161d0'' \<and>
     check_digest ''abcdefghijklmnopqrstuvwxyz'' ''c3fcd3d76192e4007dfb496cca67e13b'' \<and>
     check_digest ''ABCDEFGHIJKLMNOPQRSTUVWXYZabcdefghijklmnopqrstuvwxyz0123456789''
       ''d174ab98d277d9f5a5611c2c9f419d9f'' \<and>
     check_digest ''12345678901234567890123456789012345678901234567890123456789012345678901234567890''
       ''57edf4a22be3c955ac49da2e2107b67a''"

lemma padding_passes: "basic_pad \<and> basic_string_message_pad \<and> pad_n_plus_1 \<and> extract_chunk"
  by code_simp

text \<open>The digests are evaluated by the tables of the standard, which the code agrees with.\<close>

lemma byte_of_code [code]: "byte_of c = of_char c"
  by (simp add: byte_of_def ascii_def of_nat_of_char)

lemma check_by_rfc: "length m \<le> 200 \<Longrightarrow> DigestToString (rfc_digest m) = d \<Longrightarrow> check_digest_bytes m d"
  using Digest_rfc [of m] by (simp add: check_digest_bytes_def)

lemma rfc_short:
  "check_digest [] ''d41d8cd98f00b204e9800998ecf8427e''"
  "check_digest ''a'' ''0cc175b9c0f1b6a831c399e269772661''"
  unfolding check_digest_def by (rule check_by_rfc, code_simp, code_simp)+

lemma rfc_words_of_text:
  "check_digest ''abc'' ''900150983cd24fb0d6963f7d28e17f72''"
  "check_digest ''message digest'' ''f96b697d7cb7938d525a2f31aaf161d0''"
  unfolding check_digest_def by (rule check_by_rfc, code_simp, code_simp)+

lemma rfc_alphabet: "check_digest ''abcdefghijklmnopqrstuvwxyz'' ''c3fcd3d76192e4007dfb496cca67e13b''"
  unfolding check_digest_def by (rule check_by_rfc, code_simp, code_simp)

lemma rfc_alphanumeric:
  "check_digest ''ABCDEFGHIJKLMNOPQRSTUVWXYZabcdefghijklmnopqrstuvwxyz0123456789'' ''d174ab98d277d9f5a5611c2c9f419d9f''"
  unfolding check_digest_def by (rule check_by_rfc, code_simp, code_simp)

lemma rfc_digits:
  "check_digest ''12345678901234567890123456789012345678901234567890123456789012345678901234567890''
     ''57edf4a22be3c955ac49da2e2107b67a''"
  unfolding check_digest_def by (rule check_by_rfc, code_simp, code_simp)

lemma rfc_passes: "empty_message \<and> rfc_test_cases"
  using rfc_short rfc_words_of_text rfc_alphabet rfc_alphanumeric rfc_digits
  by (simp only: empty_message_def rfc_test_cases_def check_digest_def list.map(1))

section \<open>UUIDs\<close>

definition raw_of :: "string \<Rightarrow> (u64 \<times> u64) result" where
  "raw_of s = rmap uuid_raw (FromString s)"

definition from_string :: bool where
  "from_string \<longleftrightarrow>
     raw_of ''ffffffff-ffff-ffff-ffff-ffffffffffff'' = Inr (0xffffffffffffffff, 0xffffffffffffffff) \<and>
     raw_of ''aaaaaaaa-bbbb-cccc-dddd-eeeeeeeeeeee'' = Inr (0xaaaaaaaabbbbcccc, 0xddddeeeeeeeeeeee)"

definition printed_back :: "string \<Rightarrow> bool" where
  "printed_back expected \<longleftrightarrow> rmap String (FromString expected) = Inr expected"

definition nil_uuid_to_string :: bool where
  "nil_uuid_to_string \<longleftrightarrow> printed_back ''00000000-0000-0000-0000-000000000000''"

definition from_and_to_string :: bool where
  "from_and_to_string \<longleftrightarrow> printed_back ''f81d4fae-7dec-11d0-a765-00a0c91e6bf6'' \<and>
     printed_back ''ffffffff-ffff-ffff-ffff-ffffffffffff'' \<and> printed_back ''aabbccdd-eeee-ffff-0000-111112222233''"

definition compared :: "(UUID \<Rightarrow> UUID \<Rightarrow> bool) \<Rightarrow> string \<Rightarrow> string \<Rightarrow> bool" where
  "compared P s t \<longleftrightarrow> rbind (FromString s) (\<lambda>u. rmap (P u) (FromString t)) = Inr True"

definition cmp_eq :: bool where
  "cmp_eq \<longleftrightarrow>
     compared (\<lambda>u v. fst (uuid_raw u) = fst (uuid_raw v) \<and> snd (uuid_raw u) = snd (uuid_raw v) \<and> uuid_eq u v)
       ''ffffffff-ffff-ffff-ffff-ffffffffffff'' ''ffffffff-ffff-ffff-ffff-ffffffffffff'' \<and>
     compared uuid_eq ''aaaaaaaa-aaaa-aaaa-aaaa-aaaaaaaaaaaa'' ''aaaaaaaa-aaaa-aaaa-aaaa-aaaaaaaaaaaa'' \<and>
     compared uuid_eq ''cccccccc-cccc-cccc-cccc-cccccccccccc'' ''cccccccc-cccc-cccc-cccc-cccccccccccc''"

definition mac_string_to_int :: bool where
  "mac_string_to_int \<longleftrightarrow> MacStringToInt ''aa:aa:aa:aa:aa:aa'' = Inr 0x0000AAAAAAAAAAAA"

text \<open>A canonical text is read, and printed back.\<close>

lemma canonical_printed_back: "canonical s \<Longrightarrow> printed_back s"
  by (simp add: printed_back_def FromString_canonical)

lemma canonical_equal:
  assumes "canonical s"
  shows "compared uuid_eq s s"
    and "compared (\<lambda>u v. fst (uuid_raw u) = fst (uuid_raw v) \<and> snd (uuid_raw u) = snd (uuid_raw v) \<and> uuid_eq u v) s s"
  using FromString_canonical [OF assms] by (cases "FromString s"; simp add: compared_def uuid_eq_def)+

lemma uuid_printed_passes: "nil_uuid_to_string \<and> from_and_to_string"
  unfolding nil_uuid_to_string_def from_and_to_string_def
  by (intro conjI canonical_printed_back) code_simp+

lemma uuid_cmp_passes: "cmp_eq"
  unfolding cmp_eq_def by (intro conjI canonical_equal) code_simp+

lemma mac_passes: "mac_string_to_int"
proof -
  have "scan_number 16 ''aa'' = Some (False, 170)" by code_simp
  then have aa: "stoull ''aa'' 16 = Inr 0xaa" by (simp add: stoull_def)
  show ?thesis by (simp add: mac_string_to_int_def MacStringToInt_def mac_loop.simps [of "_ # _"] aa)
qed

lemma from_string_passes: "from_string"
proof -
  let ?f = "[15, 15, 15, 15, 15, 15, 15, 15, 15, 15, 15, 15, 15, 15, 15, 15] :: nat list"
  let ?a = "[10, 10, 10, 10, 10, 10, 10, 10, 11, 11, 11, 11, 12, 12, 12, 12] :: nat list"
  let ?d = "[13, 13, 13, 13, 14, 14, 14, 14, 14, 14, 14, 14, 14, 14, 14, 14] :: nat list"
  have t: "''ffffffff-ffff-ffff-ffff-ffffffffffff'' = uuid_text ?f ?f"
    "''aaaaaaaa-bbbb-cccc-dddd-eeeeeeeeeeee'' = uuid_text ?a ?d" by code_simp+
  show ?thesis
    unfolding from_string_def raw_of_def t
    by (subst uuid_text_FromString; simp add: horner_def)+
qed

end
