(* ===== verification/Program_Tests.thy ===== *)
theory Program_Tests
  imports Gamejam Tinydb
begin

text \<open>
  The tests of the repository's programs over the model, as in \<open>Library_Tests\<close>: those of \<^verbatim>\<open>gamejam/\<close>, \<^verbatim>\<open>tinydb/\<close>,
  \<^verbatim>\<open>tvm/\<close>, \<^verbatim>\<open>mdm/\<close>, \<^verbatim>\<open>brainfuck/\<close>.
\<close>

definition text_lines :: "string list \<Rightarrow> string" where
  "text_lines ls = concat (map (\<lambda>l. l @ [CHR 0x0A]) ls)"

section \<open>Collision of rectangles\<close>

definition rect :: "int \<Rightarrow> int \<Rightarrow> int \<Rightarrow> int \<Rightarrow> Colshape" where
  "rect x y w h = \<lparr>col_x = x, col_y = y, col_w = w, col_h = h\<rparr>"

definition collide :: "Colshape \<Rightarrow> Colshape \<Rightarrow> bool \<Rightarrow> bool" where
  "collide r1 r2 expected \<longleftrightarrow> CollidesWith r1 r2 = Inr expected"

definition colshape_rect_outside :: bool where
  "colshape_rect_outside \<longleftrightarrow>
     (let r1 = rect 0 0 10 10; r2 = rect (- 10) (- 10) 5 5 in collide r1 r2 False \<and> collide r2 r1 False) \<and>
     (let r1 = rect 0 0 10 10; r2 = rect 1000 1000 5000 5000 in collide r1 r2 False \<and> collide r2 r1 False)"

definition colshape_rect_inside :: bool where
  "colshape_rect_inside \<longleftrightarrow>
     (let r1 = rect 0 0 100 100; r2 = rect 10 10 90 90 in collide r1 r1 True \<and> collide r2 r2 True)"

definition colshape_just_touching_left :: bool where
  "colshape_just_touching_left \<longleftrightarrow>
     (let r1 = rect 10 0 10 10
      in \<forall>i\<in>{0..<10}. let r2 = rect (9 + i) 0 1 1 in collide r1 r2 True \<and> collide r2 r1 True)"

definition colshae_just_touching_up :: bool where
  "colshae_just_touching_up \<longleftrightarrow>
     (let r1 = rect 0 0 10 10
      in collide r1 (rect 0 (- 2) 1 1) False \<and>
         (\<forall>i\<in>{0..<10}. let r2 = rect 0 (- 1 + i) 1 1 in collide r1 r2 True \<and> collide r2 r1 True))"

definition colshae_just_touching_right :: bool where
  "colshae_just_touching_right \<longleftrightarrow>
     (let r1 = rect 0 0 10 10
      in collide r1 (rect 11 0 10 10) False \<and>
         (\<forall>i\<in>{0..<10}. let r2 = rect (10 - i) 0 10 10 in collide r1 r2 True \<and> collide r2 r1 True))"

definition colshape_just_touching_down :: bool where
  "colshape_just_touching_down \<longleftrightarrow>
     (let r1 = rect 0 0 10 10
      in collide r1 (rect 0 11 10 10) False \<and>
         (\<forall>i\<in>{0..<10}. let r2 = rect 0 0 10 (10 - i) in collide r1 r2 True \<and> collide r2 r1 True))"

definition colshape_just_touching_corners :: bool where
  "colshape_just_touching_corners \<longleftrightarrow>
     (let max_left = 0; max_width = 10; max_up = 0; max_height = 10;
        tl = rect (max_left - 1) (max_up - 1) 2 2; tr = rect max_width (max_up - 1) 1 1;
        bl = rect (max_left - 1) max_height 1 1; br = rect max_width max_height 1 1;
        r1 = rect max_left max_up max_width max_height
      in collide r1 tl True \<and> collide r1 tr True \<and> collide r1 bl True \<and> collide r1 br True)"

lemma colshape_passes:
  "colshape_rect_outside \<and> colshape_rect_inside \<and> colshape_just_touching_left \<and> colshae_just_touching_up
   \<and> colshae_just_touching_right \<and> colshape_just_touching_down \<and> colshape_just_touching_corners"
  by (simp add: colshape_rect_outside_def colshape_rect_inside_def colshape_just_touching_left_def
      colshae_just_touching_up_def colshae_just_touching_right_def colshape_just_touching_down_def
      colshape_just_touching_corners_def collide_def CollidesWith_def rect_def W_def H_def X_def Y_def add_dim_def)

section \<open>The parsers of the level format\<close>

definition test_parse_int :: bool where
  "test_parse_int \<longleftrightarrow> fst (ParseInt (text_lines ['':123''])) = Some 123 \<and> fst (ParseInt '':12345910'') = Some 12345910"

definition test_parse_str :: bool where
  "test_parse_str \<longleftrightarrow> fst (ParseStr (text_lines ['':a''])) = Some ''a'' \<and> fst (ParseStr (text_lines ['':a'', [], ''/b''])) = Some ''a''"

text \<open>The numbers that the texts hold.\<close>

lemma scans:
  "scan_number 10 ''5'' = Some (False, 5)" "scan_number 10 ''7'' = Some (False, 7)" "scan_number 10 ''8'' = Some (False, 8)"
  "scan_number 10 ''9'' = Some (False, 9)" "scan_number 10 ''10'' = Some (False, 10)" "scan_number 10 ''11'' = Some (False, 11)"
  "scan_number 10 ''12'' = Some (False, 12)" "scan_number 10 ''23'' = Some (False, 23)" "scan_number 10 ''27'' = Some (False, 27)"
  "scan_number 10 ''32'' = Some (False, 32)" "scan_number 10 ''123'' = Some (False, 123)"
  by code_simp+

lemma scan_large: "scan_number 10 ''12345910'' = Some (False, 12345910)"
proof -
  have "to_digits 10 12345910 = [1, 2, 3, 4, 5, 9, 1, 0]" by (simp add: to_digits.simps)
  moreover have "map digit_char [1, 2, 3, 4, 5, 9, 1, 0] = ''12345910''" by code_simp
  ultimately show ?thesis using scan_number_print_nat [of 10 12345910] by (simp add: print_nat_def)
qed

lemma gamejam_utils_pass: "test_parse_int \<and> test_parse_str"
  by (simp add: test_parse_int_def test_parse_str_def ParseInt_def ParseStr_def text_lines_def extract_unsigned_def
      scans scan_large)

section \<open>Levels\<close>

text \<open>The numbers of a new builder are not initialised, so a test has them as an argument.\<close>

definition rejects :: "string \<Rightarrow> LevelBuilder option \<Rightarrow> LevelBuilder option" where
  "rejects s r =
     (case r of None \<Rightarrow> None
      | Some builder \<Rightarrow> (case FromText s builder of Inr (None, builder) \<Rightarrow> Some builder | _ \<Rightarrow> None))"

definition bad_metadata_format :: "LevelBuilder \<Rightarrow> bool" where
  "bad_metadata_format builder \<longleftrightarrow>
     fold rejects [''x:'', ''y:'', text_lines [''x:12'', ''y:''], text_lines [''y:12'', ''x:''],
       text_lines [''t:''] @ ''x:12'', text_lines [''t:''] @ ''y:12''] (Some builder) \<noteq> None"

definition parse_metadata :: "LevelBuilder \<Rightarrow> bool" where
  "parse_metadata builder \<longleftrightarrow>
     (case ParseMetadata (text_lines ([''x:11'', ''y:10'', ''t:32:23:/path/to/tilemap.png'', [], [], []] @
         replicate 10 ''###########'')) builder of
        (r, builder, _) \<Rightarrow>
          r = kSuccess \<and> width builder = 11 \<and> height builder = 10 \<and> path_to_tileset builder = ''/path/to/tilemap.png'' \<and>
          tileset_width builder = 32 \<and> tileset_height builder = 23)"

definition level_from_text :: "LevelBuilder \<Rightarrow> bool" where
  "level_from_text builder \<longleftrightarrow>
     (case FromText (text_lines [''x:27'', ''y:7'', ''t:8:9:/path/to/tilemap.png'', [], [], [],
         ''                          '', ''                          '', ''               ###        '',
         ''                          '', ''   ####      #######      '', ''                          '',
         ''##########################'']) builder of
        Inr (Some val, builder) \<Rightarrow>
          level_width val = 27 \<and> level_height val = 7 \<and> level_path val = ''/path/to/tilemap.png'' \<and>
          tileset_width builder = 8 \<and> tileset_height builder = 9
      | _ \<Rightarrow> False)"

definition index_at :: "Level \<Rightarrow> u64 \<Rightarrow> u64 \<Rightarrow> nat result" where
  "index_at level x y = rmap tile_index (At level x y)"

definition build_simple_level_test :: "LevelBuilder \<Rightarrow> bool" where
  "build_simple_level_test builder \<longleftrightarrow>
     (case FromText (text_lines [''x:5'', ''y:5'', ''t:8:8:/path/to/tilemap.png'', [], [], [],
         ''#.   '', '' .   '', ''  .  '', ''     '', ''    #'']) builder of
        Inr (Some level, builder) \<Rightarrow>
          (let tiles = level_tiles level
           in length tiles > 0 \<and> length tiles = 25 \<and>
              tile_index (tiles ! 0) = 1 \<and> tile_index (tiles ! 1) = 2 \<and> tile_index (tiles ! 2) = 0 \<and>
              index_at level 0 0 = Inr 1 \<and> index_at level 1 1 = Inr 2 \<and> index_at level 2 2 = Inr 2 \<and>
              index_at level 4 4 = Inr 1)
      | _ \<Rightarrow> False)"

lemmas level_eval = FromText_def ParseMetadata.simps(2) ParseTileset_def ParseInt_def ParseStr_def ParseTiles_def
  extract_unsigned_def text_lines_def max_tiles_def scans

lemma metadata_tests_pass: "bad_metadata_format builder \<and> parse_metadata builder"
  by (simp add: bad_metadata_format_def parse_metadata_def rejects_def level_eval)

lemma level_tests_pass: "tiles builder = [] \<Longrightarrow> level_from_text builder \<and> build_simple_level_test builder"
  by (simp add: level_from_text_def build_simple_level_test_def index_at_def At_def read_at_def level_eval)

section \<open>The schema of the database\<close>

definition text_column :: "string \<Rightarrow> u64 \<Rightarrow> ColumnType \<Rightarrow> Column" where
  "text_column label sz ty = \<lparr>col_label = label, col_size = sz, col_type = ty\<rparr>"

definition test_add_table :: bool where
  "test_add_table \<longleftrightarrow>
     (let schema = AddTable [] \<lparr>table_name = ''person'', table_columns =
          [text_column ''id'' 8 Integer_type, text_column ''name'' 32 String_type, text_column ''email'' 256 String_type]\<rparr>;
        schema = AddTable schema \<lparr>table_name = ''monsters'', table_columns =
          [text_column ''id'' 8 Integer_type, text_column ''name'' 32 String_type, text_column ''description'' 256 String_type]\<rparr>;
        labels = (\<lambda>n. map_option (\<lambda>t. map col_label (table_columns t)) (FindTableByName schema n))
      in GetTableNames schema = [''person'', ''monsters''] \<and>
         labels ''monsters'' = Some [''id'', ''name'', ''description''] \<and>
         labels ''person'' = Some [''id'', ''name'', ''email''] \<and>
         labels ''nope'' = None)"

definition page_default_size :: bool where
  "page_default_size \<longleftrightarrow> GetPageSize mk_page = default_page_size"

lemma page_passes: page_default_size
  by (simp add: page_default_size_def GetPageSize_def mk_page_def)

lemma schema_passes: test_add_table
  by code_simp

section \<open>Statements of the database\<close>

text \<open>A statement over the empty schema, and what is expected of it and of the schema after it.\<close>

definition statement_is :: "string \<Rightarrow> (Statement \<Rightarrow> Schema \<Rightarrow> bool) \<Rightarrow> bool" where
  "statement_is query P \<longleftrightarrow> (case mk_statement query [] of Inr (st, schema) \<Rightarrow> P st schema | Inl _ \<Rightarrow> False)"

definition invalid_statements :: bool where
  "invalid_statements \<longleftrightarrow>
     statement_is ''nope nope nope'' (\<lambda>st _. statement_type st = Invalid \<and> error_message st = Some ''bad starter identifier'') \<and>
     statement_is [] (\<lambda>st _. statement_type st = Invalid \<and> error_message st = Some ''empty query'')"

definition select_statement_correct_type :: bool where
  "select_statement_correct_type \<longleftrightarrow> statement_is ''select * from test_table'' (\<lambda>st _. statement_type st = Select)"

definition insert_statement_correct_type :: bool where
  "insert_statement_correct_type \<longleftrightarrow>
     statement_is ''insert into test_table col1 col2 col3 values 1 2 3'' (\<lambda>st _. statement_type st = Insert)"

definition parse_column_size :: bool where
  "parse_column_size \<longleftrightarrow>
     ParseColumnSize ''varchar(32)'' = Some 32 \<and> ParseColumnSize ''varchar(255)'' = Some 255 \<and> ParseColumnSize ''int'' = Some 4 \<and>
     ParseColumnSize ''varchar(0)'' = None \<and> ParseColumnSize ''varchar()'' = None \<and> ParseColumnSize ''varchar'' = None"

definition parse_column_type :: bool where
  "parse_column_type \<longleftrightarrow>
     ParseColumnType ''int'' = Some Integer_type \<and> ParseColumnType ''varchar(32)'' = Some String_type \<and>
     ParseColumnType ''nope'' = None \<and> ParseColumnType ''nope(32)'' = None"

definition test_create_table :: bool where
  "test_create_table \<longleftrightarrow>
     statement_is ''create table people id int name varchar(32) email varchar(256)''
       (\<lambda>st s. error_message st = None \<and> statement_type st = Create \<and> GetTableNames s = [''people''] \<and>
          map_option table_columns (FindTableByName s ''people'') =
            Some [text_column ''id'' 4 Integer_type, text_column ''name'' 32 String_type, text_column ''email'' 256 String_type])"

definition unique_columns :: bool where
  "unique_columns \<longleftrightarrow>
     statement_is ''create table people name varchar(32) name varchar(32)''
       (\<lambda>st _. error_message st = Some ''duplicate column names'')"

definition parse_bad_select_statement :: bool where
  "parse_bad_select_statement \<longleftrightarrow>
     statement_is ''select *''
       (\<lambda>st _. error_message st = Some ''invalid select statement: expecting at least 4 parts'') \<and>
     statement_is ''select * from''
       (\<lambda>st _. error_message st = Some ''invalid select statement: expecting at least 4 parts'')"

definition parse_select_wildcard :: bool where
  "parse_select_wildcard \<longleftrightarrow>
     statement_is ''select * from people'' (\<lambda>st _. statement_type st = Select \<and> wildcard_values st)"

definition parse_select_names :: bool where
  "parse_select_names \<longleftrightarrow>
     statement_is ''select name email from people''
       (\<lambda>st _. statement_type st = Select \<and> stmt_values st = [''name'', ''email''] \<and> stmt_table st = Some ''people'')"

lemma words_of_queries:
  "words ''nope nope nope'' = [''nope'', ''nope'', ''nope'']" "words [] = []"
  "words ''select * from test_table'' = [''select'', ''*'', ''from'', ''test_table'']"
  "words ''insert into test_table col1 col2 col3 values 1 2 3'' =
     [''insert'', ''into'', ''test_table'', ''col1'', ''col2'', ''col3'', ''values'', ''1'', ''2'', ''3'']"
  "words ''create table people id int name varchar(32) email varchar(256)'' =
     [''create'', ''table'', ''people'', ''id'', ''int'', ''name'', ''varchar(32)'', ''email'', ''varchar(256)'']"
  "words ''create table people name varchar(32) name varchar(32)'' =
     [''create'', ''table'', ''people'', ''name'', ''varchar(32)'', ''name'', ''varchar(32)'']"
  "words ''select *'' = [''select'', ''*'']" "words ''select * from'' = [''select'', ''*'', ''from'']"
  "words ''select * from people'' = [''select'', ''*'', ''from'', ''people'']"
  "words ''select name email from people'' = [''select'', ''name'', ''email'', ''from'', ''people'']"
  by code_simp+

lemma types_of_columns:
  "ParseColumnType ''int'' = Some Integer_type" "ParseColumnType ''varchar(32)'' = Some String_type"
  "ParseColumnType ''varchar(256)'' = Some String_type" "ParseColumnType ''nope'' = None" "ParseColumnType ''nope(32)'' = None"
  by code_simp+

lemma digit_chars:
  "is_digit CHR ''0''" "is_digit CHR ''2''" "is_digit CHR ''3''" "is_digit CHR ''5''" "is_digit CHR ''6''" "\<not> is_digit CHR '')''"
  by code_simp+

lemma scans_sizes:
  "scan_number 10 ''255'' = Some (False, 255)" "scan_number 10 ''256'' = Some (False, 256)" "scan_number 10 ''0'' = Some (False, 0)"
  by code_simp+

lemma sizes_searched:
  "search_size ''varchar(32)'' = Some ''32''" "search_size ''varchar(255)'' = Some ''255''" "search_size ''varchar(256)'' = Some ''256''"
  "search_size ''varchar(0)'' = Some ''0''" "search_size ''varchar()'' = None" "search_size ''varchar'' = None"
  by (simp_all add: digit_chars)

lemma sizes_of_columns:
  "ParseColumnSize ''int'' = Some 4" "ParseColumnSize ''varchar(32)'' = Some 32" "ParseColumnSize ''varchar(255)'' = Some 255"
  "ParseColumnSize ''varchar(256)'' = Some 256" "ParseColumnSize ''varchar(0)'' = None" "ParseColumnSize ''varchar()'' = None"
  "ParseColumnSize ''varchar'' = None"
  by (simp_all add: ParseColumnSize_def sizes_searched strtoull_def scans scans_sizes del: search_size.simps)

lemma statement_columns_pass: "parse_column_size \<and> parse_column_type"
  by (simp add: parse_column_size_def parse_column_type_def sizes_of_columns types_of_columns)

lemmas statement_eval = statement_is_def mk_statement_def Parse_def words_of_queries

lemma statements_pass:
  "invalid_statements \<and> select_statement_correct_type \<and> insert_statement_correct_type \<and> parse_bad_select_statement \<and>
   parse_select_wildcard \<and> parse_select_names"
  by (simp add: invalid_statements_def select_statement_correct_type_def insert_statement_correct_type_def
      parse_bad_select_statement_def parse_select_wildcard_def parse_select_names_def statement_eval ParseInsert_def ParseSelect_def)

lemma creates_pass: "test_create_table \<and> unique_columns"
  by (simp add: test_create_table_def unique_columns_def statement_eval ParseCreate_def noexcept_def types_of_columns
      sizes_of_columns text_column_def AddTable_def GetTableNames_def FindTableByName_def)

end
