(* ===== verification/Language_Tests.thy ===== *)
theory Language_Tests
  imports Brainfuck Tvm Mdm "HOL-Library.Code_Target_Nat" "HOL-Library.Code_Target_Int"
begin

text \<open>
  The tests of the interpreter, the assembler and the Markdown tool over the model, \<^verbatim>\<open>brainfuck/bftest.cc\<close>,
  \<^verbatim>\<open>tvm/test/\<close>, \<^verbatim>\<open>mdm/lexer_test.cc\<close> and \<^verbatim>\<open>mdm/parser_test.cc\<close>, with the files they read as texts. Left out are the
  tests without an expectation and the program that prints \<open>Hello, World!\<close>, which takes half a million passes.
\<close>

definition source_lines :: "string list \<Rightarrow> string" where
  "source_lines ls = concat (map (\<lambda>l. l @ [CHR 0x0A]) ls)"

declare Parse_loop.simps [code]

section \<open>The interpreter\<close>

text \<open>A run, with enough fuel for every program here, and the machine it ends in.\<close>

definition ran :: "string \<Rightarrow> (brainfuck \<Rightarrow> bool) \<Rightarrow> bool" where
  "ran program P \<longleftrightarrow>
     (case Brainfuck.Run 100 (FromString program init) of Some (Inr s) \<Rightarrow> P s | _ \<Rightarrow> False)"

definition RunBF :: "string \<Rightarrow> string \<Rightarrow> bool" where
  "RunBF program expected \<longleftrightarrow> ran program (\<lambda>s. mOutputStream s = expected)"

definition basic_increment_cell :: bool where
  "basic_increment_cell \<longleftrightarrow> RunBF ''++++'' []"

definition basic_increment_cell_and_print :: bool where
  "basic_increment_cell_and_print \<longleftrightarrow> RunBF ''++++.'' ''4''"

definition basic_increment_and_decrement_print :: bool where
  "basic_increment_and_decrement_print \<longleftrightarrow> RunBF ''++++--.'' ''2''"

definition basic_movr_movl_print :: bool where
  "basic_movr_movl_print \<longleftrightarrow> RunBF ''++++>++++><.<.'' ''44''"

definition empty_loop_test :: bool where
  "empty_loop_test \<longleftrightarrow> RunBF ''[].'' ''0''"

definition empty_nested_loop_test :: bool where
  "empty_nested_loop_test \<longleftrightarrow> RunBF ''[[]]..'' ''00'' \<and> RunBF ''[[..]]..'' ''00'' \<and> RunBF ''[[[]]]...'' ''000'' \<and>
     RunBF ''[[[..+++...]]]...'' ''000''"

definition loop_test :: bool where
  "loop_test \<longleftrightarrow> RunBF ''+++++++++[.-]'' ''987654321''"

definition nested_loops_test_early_exit :: bool where
  "nested_loops_test_early_exit \<longleftrightarrow> RunBF ''[+[+[+[+[-.]]]]]'' []"

definition nested_loops_test :: bool where
  "nested_loops_test \<longleftrightarrow> RunBF ''+[+[+[+[+[-.]]]]]'' ''43210''"

definition extraneous_movr :: bool where
  "extraneous_movr \<longleftrightarrow> ran ''++++>++++<[[-]>]<<<<.>.'' (\<lambda>s. mStatus s = Success)"

definition zero_all_right :: bool where
  "zero_all_right \<longleftrightarrow> RunBF ''++++>++++<[[-]>]<<.>.'' ''00''"

definition check_min_wrap_around :: bool where
  "check_min_wrap_around \<longleftrightarrow> ran ''<'' (\<lambda>s. mCellPos s = mMaxCells init - 1)"

definition check_max_wrap_around :: bool where
  "check_max_wrap_around \<longleftrightarrow> ran ''<>'' (\<lambda>s. mCellPos s = 0)"

definition simple_validation :: bool where
  "simple_validation \<longleftrightarrow> Validate (FromString ''[[[.]]'' init) = Error \<and> Validate (FromString ''[[[.]]]'' init) = Success"

definition ignore_non_brainfuck :: bool where
  "ignore_non_brainfuck \<longleftrightarrow> RunBF ''this is part.brainfuck+part.non+brainfuck.'' ''012''"

lemma bf_printing_pass:
  "basic_increment_cell \<and> basic_increment_cell_and_print \<and> basic_increment_and_decrement_print \<and> basic_movr_movl_print"
  by code_simp

lemma bf_loops_pass:
  "empty_loop_test \<and> empty_nested_loop_test \<and> loop_test \<and> nested_loops_test_early_exit \<and> nested_loops_test"
  by code_simp

lemma bf_tape_pass:
  "extraneous_movr \<and> zero_all_right \<and> check_min_wrap_around \<and> check_max_wrap_around \<and> simple_validation \<and> ignore_non_brainfuck"
  by code_simp

section \<open>The tokens of the assembler\<close>

definition typed :: "Type \<Rightarrow> string list \<Rightarrow> bool" where
  "typed ty ss \<longleftrightarrow> list_all (\<lambda>s. tok_type (mk_token s 0) = ty) ss"

definition token_int :: bool where
  "token_int \<longleftrightarrow> typed NumberLiteral [''#0'', ''#1'', ''#123'', ''#12341234'', ''1'', ''#-1'', ''#-0'', ''#-1234'']"

definition token_label :: bool where
  "token_label \<longleftrightarrow> typed Label [''HW'', ''THELABEL'', ''THE_LABEL'']"

definition token_register :: bool where
  "token_register \<longleftrightarrow> typed Register [''R0'', ''R1'', ''R2'', ''R3''] \<and>
     list_all (\<lambda>s. tok_type (mk_token s 0) \<noteq> Register) [''R5'', ''R6'', ''R7'', ''R8'']"

definition token_segment :: bool where
  "token_segment \<longleftrightarrow> typed Segment [''.HELLO'', ''.NOPE'']"

definition token_hex :: bool where
  "token_hex \<longleftrightarrow> typed HexNumber [''x0000'', ''x0001'', ''x1234'', ''xFFFF'', ''xffff'']"

definition token_instruction :: bool where
  "token_instruction \<longleftrightarrow>
     (let instructions = [''AND'', ''ADD'', ''BR'', ''BRn'', ''BRzp'', ''BRnz'', ''BRp'', ''BRz'', ''BRnp'', ''HALT'',
        ''LD'', ''LEA'', ''LDR'', ''PUTS'', ''ST'', ''NOT'']
      in typed Instruction instructions \<and>
         map (\<lambda>s. tok_opcode (mk_token s 0)) instructions = map Some
           [kAnd, kAdd, kBr, kBrn, kBrzp, kBrnz, kBrp, kBrz, kBrnp, kTrapHalt, kLd, kLea, kLdr, kTrapPuts, kSt, kNot])"

definition quoted :: "string \<Rightarrow> string" where
  "quoted s = CHR 0x22 # s @ [CHR 0x22]"

definition tokenize_string :: bool where
  "tokenize_string \<longleftrightarrow> typed StringLiteral (map quoted
     [''hello'', ''hello0there'', ''hello there'', ''hello, there!'',
      ''hello, there! how are you today, number 199231!? hope you'' @ [CHR 0x27] @ ''re good; otherwise...''])"

definition utils_as_sr1 :: bool where
  "utils_as_sr1 \<longleftrightarrow> 0b0000000001000000 = AsSR1 1 \<and> 0b0000000010000000 = AsSR1 2 \<and>
     0b0000000011000000 = AsSR1 3 \<and> 0b0000000100000000 = AsSR1 4"

definition utils_as_dr1 :: bool where
  "utils_as_dr1 \<longleftrightarrow> 0b0000001000000000 = AsDR 1 \<and> 0b0000010000000000 = AsDR 2 \<and>
     0b0000011000000000 = AsDR 3 \<and> 0b0000100000000000 = AsDR 4"

lemma tvm_tokens_pass: "token_int \<and> token_label \<and> token_register \<and> token_segment \<and> token_hex \<and> token_instruction"
  by code_simp

lemma tvm_utils_pass: "tokenize_string \<and> utils_as_sr1 \<and> utils_as_dr1"
  by code_simp

section \<open>The programs of the assembler's tests\<close>

definition arithmetic_asm :: string where
  "arithmetic_asm = source_lines
     [''    .ORIG x3000'', ''    ADD R0, R1, R2'', ''    ADD R0, R1, #4'', ''    ADD R0, R1, #-1'', ''    HALT'']"

definition ands_asm :: string where
  "ands_asm = source_lines
     [''    .ORIG x3000'', ''    AND R1, R2, R3'', ''    AND R3, R2, R1'', ''    AND R1, R2, #1'', ''    HALT'']"

definition hello_world_asm :: string where
  "hello_world_asm = source_lines
     [''    ;; a simple, typical, hello world program'', ''    .ORIG x3000'', ''    LEA R0, HW'', ''    PUTS'',
      ''    ;; halt the program'', ''    HALT'', ''    ;; other data'',
      ''HW  .STRINGZ '' @ quoted ''hello world!'', ''    .END'']"

definition many_variables_asm :: string where
  "many_variables_asm = source_lines
     [''    .ORIG x3000'', ''    ADD R1, R2, R3'', ''    ADD R1, R2, R3'', ''    HALT'',
      ''VAR1    .STRINGZ '' @ quoted ''hello world'', ''VAR2    .STRINGZ '' @ quoted ''goodbye world'',
      ''VAR3    .STRINGZ '' @ quoted ''not so fast world'', ''VAR4    .BLKW    1'', ''VAR5    .BLKW    1000'']"

definition simple_asm :: string where
  "simple_asm = source_lines
     [''; Example from book, Figure 7.1, page 179'', ''; Program to multiply an integer by the constant 6.'',
      ''; Before execution, an integer must be stored in'', ''; NUMBER.'', ''        .ORIG x3050'', ''        LD R1, SIX'',
      ''        LD R2, NUMBER'', ''        AND R3, R3, #0 ;; clear R3; will contain product'', [], '';; Loop'', [],
      ''AGAIN   ADD R3, R3, R2'', ''        ADD R1, R1, #-1'', ''        BRp AGAIN'', [], ''        HALT'', [],
      ''NUMBER  .BLKW 1'', ''SIX     .FILL x0006'', [], ''        .END'']"

definition tokenizes :: "string \<Rightarrow> bool" where
  "tokenizes source \<longleftrightarrow>
     (case Tokenize source of Inr tokens \<Rightarrow> list_all (\<lambda>tok. TypeString tok \<noteq> ''unknown'') tokens | Inl _ \<Rightarrow> False)"

definition parses :: "string \<Rightarrow> bool" where
  "parses source \<longleftrightarrow>
     (case Tokenize source of Inr tokens \<Rightarrow> (case Parse tokens of Some (Inr _) \<Rightarrow> True | _ \<Rightarrow> False) | Inl _ \<Rightarrow> False)"

definition encodes :: "string \<Rightarrow> u16 list \<Rightarrow> bool" where
  "encodes source expected \<longleftrightarrow>
     (case Tokenize source of
        Inl _ \<Rightarrow> False
      | Inr tokens \<Rightarrow>
          (case Parse tokens of
             Some (Inr (tokens, instruction_set)) \<Rightarrow>
               (case Encode tokens instruction_set of Inr img \<Rightarrow> take (length expected) img = expected | Inl _ \<Rightarrow> False)
           | _ \<Rightarrow> False))"

definition tokenize_simple :: bool where
  "tokenize_simple \<longleftrightarrow> tokenizes simple_asm"

definition tokenize_hello_world :: bool where
  "tokenize_hello_world \<longleftrightarrow> tokenizes hello_world_asm"

definition parse_hello_world :: bool where
  "parse_hello_world \<longleftrightarrow> parses hello_world_asm"

definition parse_arithmetic :: bool where
  "parse_arithmetic \<longleftrightarrow> parses arithmetic_asm"

definition parse_many_variables :: bool where
  "parse_many_variables \<longleftrightarrow> parses many_variables_asm"

definition encode_image_arithmetic :: bool where
  "encode_image_arithmetic \<longleftrightarrow> encodes arithmetic_asm
     [0b0011000000000000, 0b0001000001000010, 0b0001000001100100, 0b0001000001111111, 0b1111000000100101]"

definition encode_image_ands :: bool where
  "encode_image_ands \<longleftrightarrow> encodes ands_asm
     [0b0011000000000000, 0b0101001010000011, 0b0101011010000001, 0b0101001010100001, 0b1111000000100101]"

lemma tvm_tokenize_pass: "tokenize_simple \<and> tokenize_hello_world"
  by code_simp

lemma tvm_parse_pass: "parse_hello_world \<and> parse_arithmetic \<and> parse_many_variables"
  by code_simp

lemma tvm_encode_pass: "encode_image_arithmetic \<and> encode_image_ands"
  by code_simp

text \<open>The assembler takes a label for a number: it puts zero where the address of a label belongs.\<close>

lemma labels_encode_to_zero: "encodes hello_world_asm [0b0011000000000000, 0b1110000000000000, 0b1111000000100010]"
  by code_simp

section \<open>The lexer and the parser of the Markdown tool\<close>

definition token_count :: "string \<Rightarrow> nat \<Rightarrow> bool" where
  "token_count text n \<longleftrightarrow> length (Process text) = n"

definition lex_simple_words :: bool where
  "lex_simple_words \<longleftrightarrow> token_count ''hello there i am token'' 5"

definition lex_simple_words_with_newline :: bool where
  "lex_simple_words_with_newline \<longleftrightarrow> token_count (source_lines
     [''this is one line'', ''it would be terrible     if a lof of whitespace   broke this''] @
     ''the author would be mad and sad.'') 25"

definition lex_codeblock :: bool where
  "lex_codeblock \<longleftrightarrow>
     (let tokens = Process (source_lines [''```erlang'', ''hello(there) -> boom.''] @ ''```'')
      in length tokens = 13 \<and> type_of (tokens ! 0) = kCodeDelimiter \<and> type_of (tokens ! 1) = kWord \<and>
         type_of (tokens ! (length tokens - 1)) = kCodeDelimiter)"

definition lex_multiple_codeblocks :: bool where
  "lex_multiple_codeblocks \<longleftrightarrow>
     (let tokens = Process (source_lines [''```erlang'', ''hello(world) -> arghmytoe.'', ''```'', [], ''```cpp'',
          ''delete this; // no really don'' @ [CHR 0x27] @ ''t'', ''```''] @ ''that'' @ [CHR 0x27] @ ''s all folks'')
      in length tokens = 32 \<and> type_of (tokens ! 0) = kCodeDelimiter \<and> type_of (tokens ! 1) = kWord \<and>
         type_of (tokens ! 12) = kCodeDelimiter \<and> type_of (tokens ! 15) = kCodeDelimiter \<and>
         type_of (tokens ! 16) = kWord \<and> type_of (tokens ! (length tokens - 1)) = kWord)"

definition code_blocks_md :: string where
  "code_blocks_md = source_lines
     [''```nocode'', ''this is a code block with nocode'', ''```'', [], ''```nocode'',
      ''I think that some words may be ignored. Oh not that is very not good. A'',
      ''formatter should not eat up tokens. Feed the tokenizer for it will eat us all.'', ''Alive.'', ''```'', [],
      ''```erlang'', ''hello(there) -> boom.'', ''```'']"

definition file_lex_codeblock :: bool where
  "file_lex_codeblock \<longleftrightarrow> token_count code_blocks_md 74"

definition parse_first_on_newline :: bool where
  "parse_first_on_newline \<longleftrightarrow>
     (let tokens = MarkNewlineTokens (Process (source_lines
          [''# header'', ''a b c'', ''a b c'', ''- l1'', ''- l2'', ''- l l l l 1'']));
        newline_indices = [0, 3, 7, 11, 14, 17]
      in type_of (tokens ! 2) = kNewline \<and> text_of (tokens ! 3) = ''a'' \<and>
         list_all (\<lambda>i. text_of (tokens ! i) = ''-'') [11, 14, 17] \<and>
         list_all (\<lambda>i. is_first_on_newline (tokens ! i)) newline_indices \<and>
         list_all (\<lambda>i. i \<notin> set newline_indices \<longrightarrow> \<not> is_first_on_newline (tokens ! i)) [0..<length tokens])"

lemma mdm_words_pass: "lex_simple_words \<and> lex_simple_words_with_newline"
  by code_simp

lemma mdm_blocks_pass: "lex_codeblock \<and> lex_multiple_codeblocks"
  by code_simp

lemma mdm_file_passes: "file_lex_codeblock"
  by code_simp

lemma mdm_parser_passes: "parse_first_on_newline"
  by code_simp

end
