(* ===== verification/System_Tests.thy ===== *)
theory System_Tests
  imports Pshy Psycal_Client "HOL-Library.Code_Target_Nat" "HOL-Library.Code_Target_Int"
begin

text \<open>
  The tests of the calendar and of the shell over the model, \<^verbatim>\<open>psycal/*_test.cc\<close> and \<^verbatim>\<open>pshy/test/commands.cc\<close>. What
  the tests take from the host, the local time and its conversions, is an argument of them; a lemma says for which
  hosts a test passes.
\<close>

declare pshy_shell.simps [code]

lemma number_digits_code [code]:
  "number_digits n hi v s =
     (case s of
        [] \<Rightarrow> (v, [])
      | c # cs \<Rightarrow>
          if 0 < n \<and> v * 10 \<le> hi \<and> is_digit c then number_digits (n - 1) hi (v * 10 + digit c) cs else (v, s))"
  by (cases n; cases s) auto

section \<open>Time stamps\<close>

definition utils_process_verbose_timestamp :: "(tm \<Rightarrow> tm) \<Rightarrow> tm \<Rightarrow> bool" where
  "utils_process_verbose_timestamp xday now \<longleftrightarrow>
     (let mkts = ProcessTimestamp xday now
      in list_all (\<lambda>s. mkts s \<noteq> None)
           [''2021-1-1T11h15'', ''2022-1-1T11h15'', ''2022-1-1T14h15'', ''2022-1-1T12h15'', ''2022-1-1T12h59''] \<and>
         mkts ''nope'' = None \<and> mkts ''2022-50-50T11h20'' = None)"

definition short_is :: "(tm \<Rightarrow> tm) \<Rightarrow> tm \<Rightarrow> string \<times> int \<times> int \<Rightarrow> bool" where
  "short_is xday now = (\<lambda>(s, expected_hour, expected_min).
     case ProcessTimestamp xday now s of
       None \<Rightarrow> False
     | Some t \<Rightarrow> tm_year t = tm_year now \<and> tm_mon t = tm_mon now \<and> tm_mday t = tm_mday now \<and>
         tm_hour t = expected_hour \<and> tm_min t = expected_min)"

definition utils_process_short_timestamp :: "(tm \<Rightarrow> tm) \<Rightarrow> tm \<Rightarrow> bool" where
  "utils_process_short_timestamp xday now \<longleftrightarrow>
     list_all (short_is xday now) [(''11h15'', 11, 15), (''9h15'', 9, 15), (''21h15'', 21, 15), (''23h33'', 23, 33),
       (''3h33'', 3, 33), (''4h30'', 4, 30)]"

lemma verbose_passes: "utils_process_verbose_timestamp xday now"
  by code_simp

lemma short_stamps:
  "ProcessTimestamp xday now ''11h15'' = Some (now\<lparr>tm_hour := 11, tm_min := 15, tm_sec := 0\<rparr>)"
  "ProcessTimestamp xday now ''9h15'' = Some (now\<lparr>tm_hour := 9, tm_min := 15, tm_sec := 0\<rparr>)"
  "ProcessTimestamp xday now ''21h15'' = Some (now\<lparr>tm_hour := 21, tm_min := 15, tm_sec := 0\<rparr>)"
  "ProcessTimestamp xday now ''23h33'' = Some (now\<lparr>tm_hour := 23, tm_min := 33, tm_sec := 0\<rparr>)"
  "ProcessTimestamp xday now ''3h33'' = Some (now\<lparr>tm_hour := 3, tm_min := 33, tm_sec := 0\<rparr>)"
  "ProcessTimestamp xday now ''4h30'' = Some (now\<lparr>tm_hour := 4, tm_min := 30, tm_sec := 0\<rparr>)"
  by code_simp+

lemma short_passes: "utils_process_short_timestamp xday now"
  by (simp add: utils_process_short_timestamp_def short_is_def short_stamps)

section \<open>Events in order\<close>

definition sooner_comparator :: "(tm \<Rightarrow> tm) \<Rightarrow> tm \<Rightarrow> (tm \<Rightarrow> int) \<Rightarrow> bool" where
  "sooner_comparator xday now mktime \<longleftrightarrow>
     (let events = fold (\<lambda>el q. case ProcessTimestamp xday now el of
            None \<Rightarrow> q | Some t \<Rightarrow> pq_push \<lparr>ev_tm = t, ev_message = map byte_of el\<rparr> q)
          [''17h00'', ''13h01'', ''14h02''] []
      in rmap (map ev_message) (pops (pq_top mktime) (pq_pop mktime) 3 events) =
           Inr [map byte_of ''13h01'', map byte_of ''14h02'', map byte_of ''17h00''])"

lemma sooner_stamps:
  "ProcessTimestamp xday now ''17h00'' = Some (now\<lparr>tm_hour := 17, tm_min := 0, tm_sec := 0\<rparr>)"
  "ProcessTimestamp xday now ''13h01'' = Some (now\<lparr>tm_hour := 13, tm_min := 1, tm_sec := 0\<rparr>)"
  "ProcessTimestamp xday now ''14h02'' = Some (now\<lparr>tm_hour := 14, tm_min := 2, tm_sec := 0\<rparr>)"
  by code_simp+

text \<open>It passes where \<open>mktime\<close> puts the three times of this day in their order.\<close>

lemma sooner_comparator_passes:
  assumes "stamp_at = (\<lambda>h m. (word_of_int (mktime (now\<lparr>tm_hour := h, tm_min := m, tm_sec := 0\<rparr>)) :: u64))"
    and "stamp_at 13 1 < stamp_at 14 2" and "stamp_at 14 2 < stamp_at 17 0"
  shows "sooner_comparator xday now mktime"
proof -
  have distinct: "byte_of CHR ''3'' = 51" "byte_of CHR ''4'' = 52" "byte_of CHR ''7'' = 55" by code_simp+
  have "stamp_at 13 1 < stamp_at 17 0" using assms(2,3) by simp
  then show ?thesis
    using assms unfolding sooner_comparator_def Let_def
    by (simp add: sooner_stamps pq_push_def pq_pop_def SoonerCmp_def GetUnixTimestamp_def distinct numeral_3_eq_3)
qed

section \<open>Messages\<close>

text \<open>The format of these tests does not fit their text, which \<open>strptime\<close> refuses after it has read the hour.\<close>

definition message_tm :: "(tm \<Rightarrow> tm) \<Rightarrow> string option \<times> tm" where
  "message_tm xday = strptime xday ''2021-01-01T12h30'' ''%Y-%m-%dT%H-%m'' zero_tm"

definition message_individual_encode :: "(tm \<Rightarrow> tm) \<Rightarrow> (tm \<Rightarrow> int) \<Rightarrow> bool" where
  "message_individual_encode xday mktime \<longleftrightarrow>
     (let (r, t) = message_tm xday; e = \<lparr>ev_tm = t, ev_message = map byte_of ''hi you''\<rparr>;
        expected = [6, 0, 0, 0, 0, 0, 0, 0] @ map byte_of ''hi you''
      in r = None \<and> GetUnixTimestamp mktime e = 1609502400 \<and> GetEncodedMessage e = expected)"

definition message_into_and_from_buffer :: "(tm \<Rightarrow> tm) \<Rightarrow> (tm \<Rightarrow> int) \<Rightarrow> (int \<Rightarrow> tm) \<Rightarrow> bool" where
  "message_into_and_from_buffer xday mktime localtime \<longleftrightarrow>
     (let (r, t) = message_tm xday; e = \<lparr>ev_tm = t, ev_message = map byte_of ''hi you''\<rparr>;
        expected = [0xc0, 0x0e, 0xef, 0x5f, 0, 0, 0, 0, 6, 0, 0, 0, 0, 0, 0, 0] @ map byte_of ''hi you'';
        actual = IntoBuffer mktime [e]
      in r = None \<and> expected = actual \<and>
         (case FromBuffer localtime actual (length actual) of
            Inr [d] \<Rightarrow> GetUnixTimestamp mktime d = 1609502400 \<and> ev_message d = map byte_of ''hi you''
          | _ \<Rightarrow> False))"

text \<open>They pass in the time zone of the expected numbers, for a \<open>localtime\<close> that \<open>mktime\<close> inverts.\<close>

lemma message_tm_fields: "message_tm xday = (None, zero_tm\<lparr>tm_year := 121, tm_mon := 0, tm_mday := 1, tm_hour := 12\<rparr>)"
  by code_simp

lemma messages_pass:
  assumes "mktime (zero_tm\<lparr>tm_year := 121, tm_mon := 0, tm_mday := 1, tm_hour := 12\<rparr>) = 1609502400"
    and "mktime (localtime 1609502400) = 1609502400"
  shows "message_individual_encode xday mktime \<and> message_into_and_from_buffer xday mktime localtime"
proof -
  define e where "e = \<lparr>ev_tm = zero_tm\<lparr>tm_year := 121, tm_mon := 0, tm_mday := 1, tm_hour := 12\<rparr>, ev_message = map byte_of ''hi you''\<rparr>"
  have stamp: "GetUnixTimestamp mktime e = 1609502400" using assms(1) by (simp add: GetUnixTimestamp_def e_def)
  have msg: "ev_message e = map byte_of ''hi you''" by (simp add: e_def)
  have bytes: "IntoBuffer mktime [e] = [0xc0, 0x0e, 0xef, 0x5f, 0, 0, 0, 0, 6, 0, 0, 0, 0, 0, 0, 0] @ map byte_of ''hi you''"
    by (simp add: IntoBuffer_def stamp GetEncodedMessage_def EncodeU64LE_def msg)
  have "IntoBuffer mktime [e] = record_bytes (\<lambda>x. snd (EncodeU64LE x [])) (event_record mktime e) @ []"
    by (simp add: IntoBuffer_records)
  moreover have "fits e" by (simp add: fits_def msg)
  ultimately have "FromBuffer localtime (IntoBuffer mktime [e]) n = Inr [\<lparr>ev_tm = localtime 1609502400, ev_message = ev_message e\<rparr>]" for n
    using FromBuffer_record [of e localtime mktime "[]" n] by (simp add: stamp)
  then have "message_into_and_from_buffer xday mktime localtime"
    using assms(2) bytes msg
    by (simp add: message_into_and_from_buffer_def message_tm_fields GetUnixTimestamp_def Let_def del: list.map flip: e_def)
  moreover have "message_individual_encode xday mktime"
    using stamp msg
    by (simp add: message_individual_encode_def message_tm_fields GetEncodedMessage_def EncodeU64LE_def Let_def del: list.map
        flip: e_def)
  ultimately show ?thesis by simp
qed

section \<open>The shell\<close>

text \<open>The reallocation does not fail, and the shell has no child.\<close>

definition exit_command :: bool where
  "exit_command \<longleftrightarrow>
     (case pshy_shell (\<lambda>_. True) (\<lambda>_. Fork_Failed) (start ''exit'') of Some (Inr _) \<Rightarrow> True | _ \<Rightarrow> False)"

definition dynbuf :: bool where
  "dynbuf \<longleftrightarrow>
     (case add_all (\<lambda>_. True) (replicate 10 CHR ''a'') pshy_buff_create of
        Inl _ \<Rightarrow> False
      | Inr b \<Rightarrow> pshy_buff_len b = 10 \<and> take 10 (pshy_buff_data b) = map Some ''aaaaaaaaaa'')"

definition test_tokenizer :: bool where
  "test_tokenizer \<longleftrightarrow>
     (case rbind (add_all (\<lambda>_. True) (concat (replicate 10 ''aaaaa '')) pshy_buff_create) pshy_tokens_from_buff of
        Inl _ \<Rightarrow> False
      | Inr toks \<Rightarrow> pshy_tokens_len toks = 11 \<and> toks ! 10 = None \<and> toks ! 0 \<noteq> None \<and>
          map_option (take 5) (toks ! 0) = Some ''aaaaa'')"

lemma pshy_passes: "exit_command \<and> dynbuf \<and> test_tokenizer"
  by code_simp

end
