(* ===== verification/Repository_Tests.thy ===== *)
theory Repository_Tests
  imports Library_Tests Program_Tests Language_Tests System_Tests
begin

text \<open>
  The translated tests of the repository together, those of \<open>Library_Tests\<close>, \<open>Program_Tests\<close>, \<open>Language_Tests\<close> and
  \<open>System_Tests\<close>: a regression check of the model on the inputs that the repository tries. It is evaluated and is not a
  property of the programs. Not in it are the tests that need a host they assume (\<open>sooner_comparator\<close>, the two of
  messages), the digests of the longer inputs, the program that prints \<open>Hello, World!\<close>, and the exercises over the standard
  library, which are in \<open>Algorithm\<close>.
\<close>

text \<open>The expectations of these tests hold of the model, whatever the initial values that a test leaves open and
  whatever the local time.\<close>

lemma repository_tests_pass:
  "(codecode \<and> test_djb2 \<and> test_sdbm \<and> test_loselose \<and> test_fletcher16 \<and> test_fletcher32)
   \<and> (basic_pad \<and> basic_string_message_pad \<and> pad_n_plus_1 \<and> extract_chunk \<and> empty_message \<and> rfc_test_cases)
   \<and> (bad_init \<and> bigint_init \<and> test_add \<and> test_carry)
   \<and> (from_string \<and> nil_uuid_to_string \<and> from_and_to_string \<and> cmp_eq \<and> mac_string_to_int)
   \<and> (colshape_rect_outside \<and> colshape_rect_inside \<and> colshape_just_touching_left \<and> colshae_just_touching_up
      \<and> colshae_just_touching_right \<and> colshape_just_touching_down \<and> colshape_just_touching_corners)
   \<and> (test_parse_int \<and> test_parse_str \<and> bad_metadata_format builder \<and> parse_metadata builder
      \<and> level_from_text (builder\<lparr>tiles := []\<rparr>) \<and> build_simple_level_test (builder\<lparr>tiles := []\<rparr>))
   \<and> (test_add_table \<and> page_default_size \<and> invalid_statements \<and> select_statement_correct_type \<and> insert_statement_correct_type
      \<and> parse_bad_select_statement \<and> parse_select_wildcard \<and> parse_select_names \<and> parse_column_size
      \<and> parse_column_type \<and> test_create_table \<and> unique_columns)
   \<and> (basic_increment_cell \<and> basic_increment_cell_and_print \<and> basic_increment_and_decrement_print \<and> basic_movr_movl_print
      \<and> empty_loop_test \<and> empty_nested_loop_test \<and> loop_test \<and> nested_loops_test_early_exit \<and> nested_loops_test
      \<and> extraneous_movr \<and> zero_all_right \<and> check_min_wrap_around \<and> check_max_wrap_around \<and> simple_validation
      \<and> ignore_non_brainfuck)
   \<and> (token_int \<and> token_label \<and> token_register \<and> token_segment \<and> token_hex \<and> token_instruction \<and> tokenize_string
      \<and> utils_as_sr1 \<and> utils_as_dr1 \<and> tokenize_simple \<and> tokenize_hello_world \<and> parse_hello_world \<and> parse_arithmetic
      \<and> parse_many_variables \<and> encode_image_arithmetic \<and> encode_image_ands)
   \<and> (lex_simple_words \<and> lex_simple_words_with_newline \<and> lex_codeblock \<and> lex_multiple_codeblocks \<and> file_lex_codeblock
      \<and> parse_first_on_newline)
   \<and> (utils_process_verbose_timestamp xday now \<and> utils_process_short_timestamp xday now)
   \<and> (exit_command \<and> dynbuf \<and> test_tokenizer)"
  by (intro conjI codecode_passes hashes_pass [THEN conjunct1] level_tests_pass [THEN conjunct1])
    (simp_all add: hashes_pass padding_passes rfc_passes bigint_passes from_string_passes uuid_printed_passes uuid_cmp_passes
      mac_passes colshape_passes gamejam_utils_pass metadata_tests_pass level_tests_pass schema_passes page_passes statements_pass
      statement_columns_pass creates_pass bf_printing_pass bf_loops_pass bf_tape_pass tvm_tokens_pass tvm_utils_pass
      tvm_tokenize_pass tvm_parse_pass tvm_encode_pass mdm_words_pass mdm_blocks_pass mdm_file_passes mdm_parser_passes
      verbose_passes short_passes pshy_passes)

end
