(* ===== verification/Entry_Points.thy ===== *)
theory Entry_Points
  imports Brainfuck Tvm_Compile Mdm Net "HOL-Library.List_Lexorder" "HOL-Library.Char_ord"
begin

text \<open>
  The entry points of the interpreter, the assembler and the Markdown tool, \<^verbatim>\<open>brainfuck/main.cc\<close>, \<^verbatim>\<open>tvm/tvmc.cc\<close> and
  \<^verbatim>\<open>mdm/main.cc\<close>: from the command line and the files to the output and the exit status. With them the operators of
  \<^verbatim>\<open>tvm/tvm.h\<close> that print what the assembler has parsed. Files are a map from their names to their bytes.
\<close>

type_synonym files = "string \<rightharpoonup> bytes"

definition text_of_file :: "bytes \<Rightarrow> string" where
  "text_of_file bs = map char_of_byte bs"

section \<open>The interpreter\<close>

text \<open>A file that cannot be opened leaves the code empty.\<close>

definition FromFile :: "files \<Rightarrow> string \<Rightarrow> brainfuck \<Rightarrow> brainfuck" where
  "FromFile fs path s = s\<lparr>mCode := (case fs path of None \<Rightarrow> [] | Some bs \<Rightarrow> text_of_file bs)\<rparr>"

definition bf_usage :: string where
  "bf_usage = ''bf <program.bf>'' @ [CHR 0x0A]"

text \<open>The output and the exit status of a run that ends within \<open>n\<close> passes.\<close>

definition bf_main :: "files \<Rightarrow> string \<Rightarrow> nat \<Rightarrow> string list \<Rightarrow> (string \<times> int) result option" where
  "bf_main fs input n args =
     (case args of
        [] \<Rightarrow> Some (Inr (bf_usage, 0))
      | path # _ \<Rightarrow>
          map_option (rmap (\<lambda>s. (mOutputStream s, GetExitCode s)))
            (Brainfuck.Run n (FromFile fs path (init\<lparr>stdin := input\<rparr>))))"

text \<open>A program in a file, as the interpreter starts on it.\<close>

definition loaded :: "cmd list \<Rightarrow> string \<Rightarrow> brainfuck" where
  "loaded cs input = init\<lparr>stdin := input, mCode := flatten cs, mStatus := Executing\<rparr>"

text \<open>C22: the program runs the commands in the file that its argument names, and its output and its status, zero, are those
  of the structured program, whenever that has a meaning.\<close>

theorem bf_main_runs:
  assumes "fs path = Some (map byte_of (flatten cs))" and "list_all Brainfuck.plain cs" and "eval cs (loaded cs input) s'"
  shows "\<exists>n. bf_main fs input n (path # args) = Some (Inr (mOutputStream s', 0))"
proof -
  have "map (char_of_byte \<circ> byte_of) (flatten cs) = flatten cs" by (simp add: map_idI)
  then have start: "(FromFile fs path (init\<lparr>stdin := input\<rparr>))\<lparr>mStatus := Executing\<rparr> = loaded cs input"
    using assms(1) by (simp add: FromFile_def loaded_def text_of_file_def init_def)
  obtain n where "Brainfuck.Run n (loaded cs input) = Some (Inr (s'\<lparr>mCodePos := int (length (flatten cs)) + 1, mStatus := Success\<rparr>))"
    using Run_eval [OF assms(3,2)] by (auto simp: loaded_def init_def)
  then have "Brainfuck.Run n (FromFile fs path (init\<lparr>stdin := input\<rparr>)) =
      Some (Inr (s'\<lparr>mCodePos := int (length (flatten cs)) + 1, mStatus := Success\<rparr>))"
    unfolding Brainfuck.Run_def start by (simp add: loaded_def)
  then show ?thesis by (intro exI [of _ n]) (simp add: bf_main_def GetExitCode_def)
qed

text \<open>A file that is not there is an empty program, which succeeds.\<close>

lemma missing_program_succeeds:
  assumes "fs path = None"
  shows "bf_main fs input 2 (path # args) = Some (Inr ([], 0))"
  using assms
  by (simp add: bf_main_def FromFile_def Brainfuck.Run_def numeral_2_eq_2 run_step_def code_at_def init_def exec_char_def
      advance_def GetExitCode_def)

theorem bf_main_runs_witness:
  "\<exists>n. bf_main [''p.bf'' \<mapsto> map byte_of ''+++.''] [] n [''p.bf''] = Some (Inr (''3'', 0))"
proof -
  let ?cs = "[Op CHR ''+'', Op CHR ''+'', Op CHR ''+'', Op CHR ''.'']"
  have ops: "Brainfuck.effect CHR ''+'' s = IncrCell s" "Brainfuck.effect CHR ''.'' s = OutputChar s" for s
    by (simp_all add: Brainfuck.effect_def exec_char_def)
  define s' where "s' = Brainfuck.effect CHR ''.'' (Brainfuck.effect CHR ''+'' (Brainfuck.effect CHR ''+''
    (Brainfuck.effect CHR ''+'' (loaded ?cs []))))"
  have "eval ?cs (loaded ?cs []) s'" unfolding s'_def by (intro eval_Op eval_Nil)
  moreover have "mOutputStream s' = ''3''"
  proof -
    have "print_nat 16 3 = ''3''" by code_simp
    then show ?thesis by (simp add: s'_def ops loaded_def init_def IncrCell_def OutputChar_def)
  qed
  ultimately show ?thesis
    using bf_main_runs [of "[''p.bf'' \<mapsto> map byte_of ''+++.'']" "''p.bf''" ?cs "[]" s' "[]"] by simp
qed

section \<open>The assembler\<close>

text \<open>The options: the name of the source, \<open>None\<close> after an option that is not known.\<close>

fun tvmc_options :: "(char \<times> string option) list \<Rightarrow> string \<Rightarrow> string option result" where
  "tvmc_options [] filename = Inr (Some filename)"
| "tvmc_options ((opt, optarg) # os) filename =
     (if opt = CHR ''c'' then rbind (deref optarg) (tvmc_options os) else Inr None)"

text \<open>\<open>Session::CompileFile\<close> on the files: the exit status and the files afterwards. The output is opened after the
  source is assembled, and not when the directory refuses it.\<close>

definition compile_session :: "(string \<Rightarrow> bool) \<Rightarrow> files \<Rightarrow> string \<Rightarrow> (int \<times> files) result option" where
  "compile_session writable fs filename =
     (case fs filename of
        None \<Rightarrow> Some (Inr (1, fs))
      | Some source \<Rightarrow>
          map_option (rmap (\<lambda>image.
              let output_name = filename @ ''.bin''
              in if writable output_name then (0, fs(output_name \<mapsto> image)) else (1, fs)))
            (CompileFile (text_of_file source)))"

definition tvmc_main :: "(string \<Rightarrow> bool) \<Rightarrow> files \<Rightarrow> string list \<Rightarrow> (int \<times> files) result option" where
  "tvmc_main writable fs args =
     (case tvmc_options (fst (getopt ''c:'' [] args)) [] of
        Inl e \<Rightarrow> Some (Inl e)
      | Inr None \<Rightarrow> Some (Inr (1, fs))
      | Inr (Some filename) \<Rightarrow> if filename = [] then Some (Inr (1, fs)) else compile_session writable fs filename)"

text \<open>C21: for a file with a program of supported statements, in any layout that separates the words of a line, the
  assembler writes the binary of the program beside the file and changes no other.\<close>

theorem tvmc_assembles:
  assumes "fs file_name = Some (map byte_of (source_text ls))" and "file_name \<noteq> []" and "writable (file_name @ ''.bin'')"
    and "list_all line_ok ls" and "concat (map line_words ls) = concat (map stmt_words prog)"
    and "list_all stmt_ok prog" and "length prog \<le> 65535"
  shows "tvmc_main writable fs [''-c'', file_name] = Some (Inr (0, fs(file_name @ ''.bin'' \<mapsto> binary prog)))"
proof -
  have "text_of_file (map byte_of s) = s" for s by (simp add: text_of_file_def map_idI)
  then have "compile_session writable fs file_name = Some (Inr (0, fs(file_name @ ''.bin'' \<mapsto> binary prog)))"
    using CompileFile_program [OF assms(4-7)] assms(1,3) by (simp add: compile_session_def)
  moreover have "getopt ''c:'' [] [''-c'', file_name] = ([(CHR ''c'', Some file_name)], [])" by (simp add: getopt_words)
  ultimately show ?thesis using assms(2) by (simp add: tvmc_main_def)
qed

theorem tvmc_assembles_witness:
  "tvmc_main (\<lambda>_. True) [''a'' \<mapsto> map byte_of (source_text sample_source)] [''-c'', ''a''] =
     Some (Inr (0, [''a'' \<mapsto> map byte_of (source_text sample_source),
       ''a.bin'' \<mapsto> [0x30, 0x00, 0x52, 0x83, 0x56, 0x81, 0x52, 0xA1, 0xF0, 0x25]]))"
  using tvmc_assembles [of "[''a'' \<mapsto> map byte_of (source_text sample_source)]" "''a''" sample_source "\<lambda>_. True"
      sample_program] by (simp add: sample_ok)

text \<open>Without a source, with an unknown option, and where the output cannot be written, the status is one and the files are
  as they were.\<close>

lemma tvmc_refuses:
  "tvmc_main writable fs [] = Some (Inr (1, fs))"
  "tvmc_main writable fs (''-x'' # args) = Some (Inr (1, fs))"
  "fs file_name = None \<Longrightarrow> tvmc_main writable fs [''-c'', file_name] = Some (Inr (1, fs))"
  by (simp_all add: tvmc_main_def compile_session_def)

section \<open>What the assembler prints of a program\<close>

text \<open>A null pointer is printed as two dots.\<close>

definition safe_print :: "Token list \<Rightarrow> nat option \<Rightarrow> string result" where
  "safe_print tokens p = (case p of None \<Rightarrow> Inr ''..'' | Some i \<Rightarrow> rmap tok_value (read_at tokens i))"

fun in_columns :: "string result list \<Rightarrow> string result" where
  "in_columns [] = Inr []"
| "in_columns (r # rs) = rbind r (\<lambda>s. rmap (\<lambda>rest. setw 20 CHR '' '' s @ rest) (in_columns rs))"

definition print_row :: "Token list \<Rightarrow> InstructionRow \<Rightarrow> string result" where
  "print_row tokens row =
     in_columns (map (safe_print tokens)
       [row_label row, row_op row, row_operands row ! 0, row_operands row ! 1, row_operands row ! 2])"

fun print_rows :: "Token list \<Rightarrow> nat \<Rightarrow> InstructionRow list \<Rightarrow> string result" where
  "print_rows tokens address [] = Inr []"
| "print_rows tokens address (row # rs) =
     rbind (print_row tokens row) (\<lambda>s.
       rmap (\<lambda>rest. setw 4 CHR ''0'' (print_nat 16 (0x10 * address)) @ s @ [CHR 0x0A] @ rest)
         (print_rows tokens (address + 1) rs))"

text \<open>The table is a map in the order of its keys, which are values of tokens. Numbers stay hexadecimal, and the
  characters that fill them do not matter as they have no width.\<close>

definition symtab_keys :: "Token list \<Rightarrow> InstructionSet \<Rightarrow> string list" where
  "symtab_keys tokens iset = sort (remdups (filter (\<lambda>k. symtab iset k \<noteq> None) (map tok_value tokens)))"

fun print_symbols :: "Token list \<Rightarrow> InstructionSet \<Rightarrow> string list \<Rightarrow> string result" where
  "print_symbols tokens iset [] = Inr []"
| "print_symbols tokens iset (k # ks) =
     rbind (token_at tokens (symtab iset k)) (\<lambda>t.
       rmap (\<lambda>rest. k @ ''@'' @ print_nat 16 (unat (tok_address t)) @ [CHR 0x0A] @ rest) (print_symbols tokens iset ks))"

definition print_set :: "Token list \<Rightarrow> InstructionSet \<Rightarrow> string result" where
  "print_set tokens iset =
     rbind (print_rows tokens 0 (rows iset)) (\<lambda>rs.
       rmap (\<lambda>ss. ''INSTA ============='' @ [CHR 0x0A] @ rs @ ''SYMTAB ============'' @ [CHR 0x0A] @ ss)
         (print_symbols tokens iset (symtab_keys tokens iset)))"

text \<open>Columns of short values have a fixed width, so a row without long values takes a line of 100 characters after its
  address.\<close>

lemma in_columns_width:
  "in_columns rs = Inr out \<Longrightarrow> \<forall>r\<in>set rs. \<exists>s. r = Inr s \<and> length s \<le> 20 \<Longrightarrow> length out = 20 * length rs"
  by (induction rs arbitrary: out) (auto simp: fault_simps setw_def)

lemma print_row_width:
  assumes "print_row tokens row = Inr out" and "\<forall>t\<in>set tokens. length (tok_value t) \<le> 20"
  shows "length out = 100"
proof -
  have short: "\<exists>s. safe_print tokens p = Inr s \<and> length s \<le> 20" if "safe_print tokens p = Inr s'" for p s'
    using that assms(2) by (auto simp: safe_print_def fault_simps split: option.splits)
  have ok: "in_columns rs = Inr out \<Longrightarrow> r \<in> set rs \<Longrightarrow> \<exists>s. r = Inr s" for rs r out
    by (induction rs arbitrary: out) (auto simp: fault_simps)
  show ?thesis
    using in_columns_width [OF assms(1) [unfolded print_row_def]] ok [OF assms(1) [unfolded print_row_def]] short by fastforce
qed

section \<open>The Markdown tool\<close>

definition mdm_usage :: "string \<Rightarrow> string" where
  "mdm_usage program = ''usage: '' @ [CHR 0x0A] @ program @ '' [-f filename] [-h]'' @ [CHR 0x0A]"

text \<open>The name of the file and what is printed; \<open>-d\<close> is an option with an argument that no case handles.\<close>

fun mdm_options :: "string \<Rightarrow> (char \<times> string option) list \<Rightarrow> string option \<times> string \<Rightarrow> (string option \<times> string) result" where
  "mdm_options program [] st = Inr st"
| "mdm_options program ((opt, optarg) # os) (filename, out) =
     (if opt = CHR ''f'' then rbind (deref optarg) (\<lambda>f. mdm_options program os (Some f, out))
      else mdm_options program os (filename, out @ mdm_usage program))"

text \<open>The output, the exit status, and the tokens of the file, which are dropped.\<close>

definition mdm_main :: "string \<Rightarrow> files \<Rightarrow> string list \<Rightarrow> (string \<times> int \<times> token list option) result" where
  "mdm_main program fs args =
     rmap (\<lambda>(filename, out).
         case filename of
           None \<Rightarrow> (out, 0, None)
         | Some f \<Rightarrow> (out, 0, Some (Process (case fs f of None \<Rightarrow> [] | Some bs \<Rightarrow> text_of_file bs))))
       (mdm_options program (fst (getopt ''hf:d:'' [] args)) (None, []))"

text \<open>Nothing that a file holds changes what the tool prints, and it always succeeds.\<close>

lemma mdm_prints_no_file:
  "rmap (\<lambda>(out, st, ts). (out, st)) (mdm_main program fs args) = rmap (\<lambda>(out, st, ts). (out, st)) (mdm_main program fs' args)"
  by (cases "mdm_options program (fst (getopt ''hf:d:'' [] args)) (None, [])") (auto simp: mdm_main_def split: option.splits)

lemma mdm_ignores_d: "rmap fst (mdm_main program fs [''-d'', x]) = Inr (mdm_usage program)"
  by (simp add: mdm_main_def getopt_words)

end
