(* ===== verification/Examples.thy ===== *)
theory Examples
  imports Net
begin

text \<open>
  The small programs that show a call each: \<^verbatim>\<open>grimoire/fmemopen.c\<close> and \<^verbatim>\<open>grimoire/dup.c\<close>, which read memory as a
  stream, \<^verbatim>\<open>grimoire/signal.c\<close>, which waits for signals, and \<^verbatim>\<open>net/example.cc\<close>, which sends datagrams to itself.
\<close>

section \<open>Memory as a stream\<close>

text \<open>\<open>fread\<close> of \<open>n\<close> items of \<open>sz\<close> bytes: the number of whole items, the bytes stored, and what is left of the stream.\<close>

definition fread :: "nat \<Rightarrow> nat \<Rightarrow> bytes \<Rightarrow> nat \<times> bytes \<times> bytes" where
  "fread sz n stream = (length (take (sz * n) stream) div sz, take (sz * n) stream, drop (sz * n) stream)"

definition contents :: bytes where
  "contents = [0xCA, 0xFE, 0xD0, 0x0D, 0x01, 0x02, 0x03, 0x04]"

text \<open>The size of an item is that of the whole buffer, and so is their number.\<close>

definition fmemopen_main :: "bool \<Rightarrow> bytes \<Rightarrow> (int \<times> string) result" where
  "fmemopen_main opened memory =
     (let greeting = ''simple usage of fmemopen'' @ [CHR 0x0A] in
      if \<not> opened then Inr (1, greeting)
      else
        let array_size = length memory;
            (items, got, _) = fread array_size array_size memory in
        if array_size < length got then Inl Out_Of_Bounds
        else if items = 0 then Inr (1, greeting)
        else
          let buff = got @ replicate (array_size - length got) 0
          in Inr (0, greeting @ concat (map (\<lambda>b. setw 2 CHR ''0'' (print_nat 16 (unat b)) @ ''.'') buff) @ [CHR 0x0A]))"

lemma fmemopen_prints:
  "memory \<noteq> [] \<Longrightarrow> fmemopen_main True memory =
     Inr (0, ''simple usage of fmemopen'' @ [CHR 0x0A]
       @ concat (map (\<lambda>b. setw 2 CHR ''0'' (print_nat 16 (unat b)) @ ''.'') memory) @ [CHR 0x0A])"
proof -
  assume "memory \<noteq> []"
  then have "take (length memory * length memory) memory = memory" "length memory div length memory = 1"
    by (simp_all add: Suc_le_eq)
  then show ?thesis by (simp add: fmemopen_main_def fread_def Let_def)
qed

text \<open>\<open>strndup\<close>, without the zero at its end.\<close>

definition strndup :: "string \<Rightarrow> nat \<Rightarrow> string" where
  "strndup s n = take n (takeWhile (\<lambda>c. c \<noteq> CHR 0x00) s)"

text \<open>The loop reads one character and prints the variable, until nothing is read: by then it has printed it again.\<close>

fun dup_loop :: "char \<Rightarrow> string \<Rightarrow> string" where
  "dup_loop c [] = [c] @ ''.''"
| "dup_loop c (d # stream) = [d] @ ''.'' @ dup_loop d stream"

text \<open>The size of what \<open>str\<close> points to is one character.\<close>

definition dup_main :: string where
  "dup_main = dup_loop CHR 0x00 (take 1 (strndup ''hello how are you today'' 1)) @ [CHR 0x0A]"

lemma dup_loop_repeats: "dup_loop c stream = concat (map (\<lambda>d. [d] @ ''.'') (stream @ [List.last (c # stream)]))"
  by (induction stream arbitrary: c) simp_all

lemma dup_prints_twice: "dup_main = ''h.h.'' @ [CHR 0x0A]"
  by code_simp

section \<open>Signals\<close>

text \<open>The end of a sleep, and the arrival of a signal; one that arrives in a sleep ends it.\<close>

datatype sleeper_event = Wakes | Arrives int

text \<open>What a signal without a handler does is the system's: \<open>kills\<close> says whether it ends the process.\<close>

datatype sleeper_state = Sleeping | Exited int | Killed int

definition SIGTERM :: int where "SIGTERM = 15"
definition SIGUSR1 :: int where "SIGUSR1 = 10"

definition handle_term :: "int \<Rightarrow> string" where
  "handle_term param = ''received term: '' @ print_int param @ [CHR 0x0A]"

definition handle_sigusr1 :: "int \<Rightarrow> string \<times> sleeper_state" where
  "handle_sigusr1 param = (''special beefcake exit: '' @ print_int param @ [CHR 0x0A], Exited 1)"

fun sleeper :: "(int \<Rightarrow> bool) \<Rightarrow> sleeper_event list \<Rightarrow> string \<times> sleeper_state" where
  "sleeper kills [] = ([], Sleeping)"
| "sleeper kills (Wakes # es) = apfst ((@) ''... '') (sleeper kills es)"
| "sleeper kills (Arrives n # es) =
     (if n = SIGTERM then apfst ((@) (handle_term n)) (sleeper kills es)
      else if n = SIGUSR1 then handle_sigusr1 n
      else if kills n then ([], Killed n)
      else sleeper kills es)"

definition signal_main :: "(int \<Rightarrow> bool) \<Rightarrow> sleeper_event list \<Rightarrow> string \<times> sleeper_state" where
  "signal_main kills es =
     apfst ((@) (''sleeping... try sending this process SIGKILL, SIGTERM'' @ [CHR 0x0A]
                 @ ''send SIGUSR1 to terminate'' @ [CHR 0x0A]))
       (sleeper kills es)"

text \<open>The loop goes on as long as neither the one signal that ends it arrives nor one that kills the process.\<close>

lemma sleeper_sleeps_iff:
  "snd (signal_main kills es) = Sleeping \<longleftrightarrow> (\<forall>n. Arrives n \<in> set es \<longrightarrow> n = SIGTERM \<or> n \<noteq> SIGUSR1 \<and> \<not> kills n)"
proof -
  have "snd (sleeper kills es) = Sleeping \<longleftrightarrow> (\<forall>n. Arrives n \<in> set es \<longrightarrow> n = SIGTERM \<or> n \<noteq> SIGUSR1 \<and> \<not> kills n)"
    by (induction kills es rule: sleeper.induct) (auto simp: handle_sigusr1_def SIGTERM_def SIGUSR1_def)
  then show ?thesis by (simp add: signal_main_def)
qed

text \<open>The other signals change nothing of the way it ends.\<close>

lemma sleeper_exits:
  assumes "\<forall>n. Arrives n \<in> set es \<longrightarrow> n = SIGTERM"
  shows "snd (signal_main kills (es @ Arrives SIGUSR1 # es')) = Exited 1"
proof -
  have "snd (sleeper kills (es @ Arrives SIGUSR1 # es')) = Exited 1"
    using assms by (induction kills es rule: sleeper.induct) (auto simp: handle_sigusr1_def SIGTERM_def SIGUSR1_def)
  then show ?thesis by (simp add: signal_main_def)
qed

section \<open>Datagrams to itself\<close>

definition kServerPort :: u16 where
  "kServerPort = 9999"

text \<open>The handler prints the first ten bytes of its buffer, as characters.\<close>

definition echo_fn :: "bytes \<Rightarrow> string \<Rightarrow> string result" where
  "echo_fn buffer out =
     rmap (\<lambda>bs. out @ concat (map (\<lambda>b. [char_of_byte b] @ '','') bs) @ [CHR 0x0A]) (read_range buffer 0 10)"

definition send_buffer :: bytes where
  "send_buffer = (replicate kMaxUDPSize 0)[0 := byte_of CHR ''a'', 1 := byte_of CHR ''b'', 2 := byte_of CHR ''c'']"

text \<open>The thread of the server, on what its reads give, and \<open>n\<close> passes of the loop of the client.\<close>

definition example_server :: "int \<Rightarrow> int \<Rightarrow> (int + bytes) list \<Rightarrow> string result" where
  "example_server socket_result bind_result gots =
     rbind (mk_listener socket_result bind_result kServerPort) (\<lambda>l. rmap snd (ListenWith echo_fn gots (l, [])))"

fun example_client :: "(bytes \<Rightarrow> int) \<Rightarrow> nat \<Rightarrow> UDPClient \<Rightarrow> bytes list result" where
  "example_client sendto 0 client = Inr []"
| "example_client sendto (Suc n) client =
     rbind (Send sendto send_buffer client) (\<lambda>(message, client). rmap (Cons message) (example_client sendto n client))"

definition example_line :: string where
  "example_line = ''a,b,c,'' @ concat (replicate 7 [CHR 0x00, CHR '','']) @ [CHR 0x0A]"

lemma length_send_buffer [simp]: "length send_buffer = kMaxUDPSize"
  by (simp add: send_buffer_def)

lemma echo_send_buffer: "echo_fn send_buffer out = Inr (out @ example_line)"
proof -
  have "read_range send_buffer 0 10 = Inr [0x61, 0x62, 0x63, 0, 0, 0, 0, 0, 0, 0]" by code_simp
  moreover have "concat (map (\<lambda>b. [char_of_byte b] @ '','') [0x61, 0x62, 0x63, 0, 0, 0, 0, 0, 0, 0]) @ [CHR 0x0A] = example_line"
    by code_simp
  ultimately show ?thesis by (simp add: echo_fn_def)
qed

lemma example_client_sends: "example_client sendto n client = Inr (replicate n send_buffer)"
proof (induction n arbitrary: client)
  case (Suc n)
  have "\<exists>c. Send sendto send_buffer client = Inr (send_buffer, c)"
    by (simp add: Send_def read_range_def Let_def)
  then show ?case using Suc by auto
qed simp

text \<open>Whatever number of the datagrams of the client arrives, among errors, the server prints a line for each.\<close>

lemma example_prints:
  assumes "example_client sendto n client = Inr sent"
    and "\<forall>d. Inr d \<in> set gots \<longrightarrow> d \<in> set sent" and "fd \<noteq> - 1" "bound \<noteq> - 1"
  shows "example_server fd bound gots = Inr (concat (replicate (length (filter (\<lambda>g. \<exists>d. g = Inr d) gots)) example_line))"
proof -
  have listen: "\<exists>l'. ListenWith echo_fn gots (l, out) =
      Inr (l', out @ concat (replicate (length (filter (\<lambda>g. \<exists>d. g = Inr d) gots)) example_line))"
    if "\<forall>d. Inr d \<in> set gots \<longrightarrow> d = send_buffer" for gots :: "(int + bytes) list" and l out
    using that
  proof (induction gots arbitrary: l out)
    case (Cons g gots)
    have "g = Inr d \<Longrightarrow> d = send_buffer" for d using Cons.prems by simp
    moreover note Cons.IH [of "l\<lparr>ls_last_error := None\<rparr>" "out @ example_line"] Cons.IH [of "l\<lparr>ls_last_error := Some e\<rparr>" out for e]
    ultimately show ?case using Cons.prems by (cases g) (auto simp: udp_buffer_full echo_send_buffer)
  qed simp
  have "\<forall>d. Inr d \<in> set gots \<longrightarrow> d = send_buffer" using assms(1,2) by (auto simp: example_client_sends)
  then show ?thesis
    using listen [of gots "\<lparr>ls_port = kServerPort, server_fd = fd, ls_last_error = None\<rparr>" "[]"] assms(3,4)
    by (auto simp: example_server_def mk_listener_def)
qed

end
