(* ===== verification/Heap_Blocks.thy ===== *)
theory Heap_Blocks
  imports Prelude "HOL-Library.Multiset"
begin

text \<open>
  The memory that \<open>malloc\<close> and its relatives give out, for the C programs: which blocks are live. A block is a
  number, a pointer a block or null. Freeing or reading a block that is not live is a fault. Whether the system has
  memory left for a call is an argument, \<open>ok\<close>, asked with the number of the call. A rule per operation says what
  becomes of the live blocks; \<open>sound\<close> carries them through sequences of calls.
\<close>

record heap =
  blocks :: "nat list"
  next_block :: nat

definition no_blocks :: heap where
  "no_blocks = \<lparr>blocks = [], next_block = 0\<rparr>"

text \<open>\<open>malloc\<close>, \<open>calloc\<close> and \<open>strdup\<close>.\<close>

definition alloc :: "(nat \<Rightarrow> bool) \<Rightarrow> heap \<Rightarrow> nat option \<times> heap" where
  "alloc ok h =
     (let p = next_block h; h = h\<lparr>next_block := p + 1\<rparr>
      in if ok p then (Some p, h\<lparr>blocks := p # blocks h\<rparr>) else (None, h))"

definition free_block :: "nat option \<Rightarrow> heap \<Rightarrow> heap result" where
  "free_block p h =
     (case p of
        None \<Rightarrow> Inr h
      | Some p \<Rightarrow> if p \<in> set (blocks h) then Inr (h\<lparr>blocks := remove1 p (blocks h)\<rparr>) else Inl Out_Of_Bounds)"

text \<open>A block that is resized moves; without memory it stays as it is.\<close>

definition realloc_block :: "(nat \<Rightarrow> bool) \<Rightarrow> nat option \<Rightarrow> heap \<Rightarrow> (nat option \<times> heap) result" where
  "realloc_block ok p h =
     (let (q, h') = alloc ok h in
      case q of
        None \<Rightarrow> (case p of None \<Rightarrow> Inr (None, h') | Some p \<Rightarrow> if p \<in> set (blocks h') then Inr (None, h') else Inl Out_Of_Bounds)
      | Some q \<Rightarrow> rmap (\<lambda>h'. (Some q, h')) (free_block p h'))"

text \<open>Reading or writing through a pointer.\<close>

definition touch :: "nat option \<Rightarrow> heap \<Rightarrow> unit result" where
  "touch p h = rbind (deref p) (\<lambda>p. if p \<in> set (blocks h) then Inr () else Inl Out_Of_Bounds)"

section \<open>What becomes of the live blocks\<close>

definition heap_ok :: "heap \<Rightarrow> bool" where
  "heap_ok h \<longleftrightarrow> distinct (blocks h) \<and> (\<forall>p\<in>set (blocks h). p < next_block h)"

lemma no_blocks_ok: "heap_ok no_blocks"
  by (simp add: heap_ok_def no_blocks_def)

lemma alloc_ok: "heap_ok h \<Longrightarrow> alloc ok h = (p, h') \<Longrightarrow> heap_ok h'"
  by (auto simp: heap_ok_def alloc_def Let_def less_Suc_eq split: if_splits)

lemma free_ok: "heap_ok h \<Longrightarrow> free_block p h = Inr h' \<Longrightarrow> heap_ok h'"
  by (auto simp: heap_ok_def free_block_def split: option.splits if_splits dest: notin_set_remove1)

lemma realloc_ok: "heap_ok h \<Longrightarrow> realloc_block ok p h = Inr (q, h') \<Longrightarrow> heap_ok h'"
  by (auto simp: realloc_block_def fault_simps split: prod.splits option.splits if_splits
      dest: alloc_ok free_ok)

text \<open>
  The live blocks as a multiset, so that what a structure owns can be split off; \<open>ptr\<close> and \<open>ptrs\<close> are the blocks
  behind pointers.
\<close>

definition live_blocks :: "heap \<Rightarrow> nat multiset" where
  "live_blocks h = mset (blocks h)"

fun ptr :: "nat option \<Rightarrow> nat multiset" where
  "ptr None = {#}"
| "ptr (Some p) = {#p#}"

fun ptrs :: "nat option list \<Rightarrow> nat multiset" where
  "ptrs [] = {#}"
| "ptrs (p # ps) = ptr p + ptrs ps"

lemma ptrs_append [simp]: "ptrs (ps @ qs) = ptrs ps + ptrs qs"
  by (induction ps) (simp_all add: add_ac)

lemma live_iff: "p \<in> set (blocks h) \<longleftrightarrow> p \<in># live_blocks h"
  by (simp add: live_blocks_def)

lemma alloc_live: "alloc ok h = (p, h') \<Longrightarrow> live_blocks h' = live_blocks h + ptr p"
  by (auto simp: alloc_def live_blocks_def Let_def split: if_splits)

lemma free_live: "live_blocks h = base + ptr p \<Longrightarrow> \<exists>h'. free_block p h = Inr h' \<and> live_blocks h' = base"
  by (cases p) (auto simp: free_block_def live_iff live_blocks_def)

lemma touch_live: "live_blocks h = base + ptr (Some p) \<Longrightarrow> touch (Some p) h = Inr ()"
  by (simp add: touch_def live_iff)

section \<open>Sequences of calls\<close>

text \<open>
  A result that is as wanted, or a fault of one of the two kinds that running out of memory has, when it does run
  out: \<open>short ok\<close> says that some call gets none.
\<close>

definition short :: "(nat \<Rightarrow> bool) \<Rightarrow> bool" where
  "short ok \<longleftrightarrow> (\<exists>n. \<not> ok n)"

definition sound :: "(nat \<Rightarrow> bool) \<Rightarrow> 'a result \<Rightarrow> ('a \<Rightarrow> bool) \<Rightarrow> bool" where
  "sound ok r P \<longleftrightarrow> (case r of Inl e \<Rightarrow> short ok \<and> (e = Null_Deref \<or> e = Aborted) | Inr x \<Rightarrow> P x)"

lemma sound_simps [simp]:
  "sound ok (Inr x) P \<longleftrightarrow> P x" "sound ok (Inl e) P \<longleftrightarrow> short ok \<and> (e = Null_Deref \<or> e = Aborted)"
  by (simp_all add: sound_def)

lemma sound_rbind:
  "sound ok r P \<Longrightarrow> (\<And>x. r = Inr x \<Longrightarrow> P x \<Longrightarrow> sound ok (f x) Q) \<Longrightarrow> sound ok (rbind r f) Q"
  by (cases r) auto

lemma sound_rmap: "sound ok r P \<Longrightarrow> (\<And>x. P x \<Longrightarrow> Q (f x)) \<Longrightarrow> sound ok (rmap f r) Q"
  by (cases r) auto

lemma sound_mono: "sound ok r P \<Longrightarrow> (\<And>x. P x \<Longrightarrow> Q x) \<Longrightarrow> sound ok r Q"
  by (cases r) auto

lemma alloc_short: "alloc ok h = (p, h') \<Longrightarrow> p \<noteq> None \<or> short ok"
  by (auto simp: alloc_def short_def Let_def split: if_splits)

lemma sound_free: "live_blocks h = base + ptr p \<Longrightarrow> sound ok (free_block p h) (\<lambda>h'. live_blocks h' = base)"
  using free_live [of h base p] by auto

lemma sound_touch:
  "live_blocks h = base + ptr p \<Longrightarrow> p \<noteq> None \<or> short ok \<Longrightarrow> sound ok (touch p h) (\<lambda>_. p \<noteq> None)"
  by (cases p) (auto simp: touch_def live_iff)

lemma sound_realloc:
  assumes "live_blocks h = base + ptr p"
  shows "sound ok (realloc_block ok p h)
    (\<lambda>(q, h'). (q \<noteq> None \<or> short ok) \<and> live_blocks h' = base + (if q = None then ptr p else ptr q))"
proof -
  obtain q h' where a: "alloc ok h = (q, h')" by fastforce
  note live = alloc_live [OF a]
  show ?thesis
  proof (cases q)
    case None
    then show ?thesis using a live assms alloc_short [OF a] by (cases p) (auto simp: realloc_block_def live_iff)
  next
    case (Some q')
    have "live_blocks h' = (base + {#q'#}) + ptr p" using live assms Some by simp
    then show ?thesis using a Some by (auto simp: realloc_block_def intro!: sound_rmap [OF sound_free])
  qed
qed

text \<open>Blocks freed one after the other.\<close>

fun free_all :: "nat option list \<Rightarrow> heap \<Rightarrow> heap result" where
  "free_all [] h = Inr h"
| "free_all (p # ps) h = rbind (free_block p h) (free_all ps)"

lemma free_all_live: "live_blocks h = base + ptrs ps \<Longrightarrow> \<exists>h'. free_all ps h = Inr h' \<and> live_blocks h' = base"
proof (induction ps arbitrary: h)
  case (Cons p ps)
  have "live_blocks h = (base + ptrs ps) + ptr p" using Cons.prems by (cases p) simp_all
  from free_live [OF this] obtain h1 where "free_block p h = Inr h1" "live_blocks h1 = base + ptrs ps" by blast
  then show ?case using Cons.IH by simp
qed simp

text \<open>Freeing the same block twice is a fault, since no block is given out twice.\<close>

lemma double_free: "heap_ok h \<Longrightarrow> free_block (Some p) h = Inr h' \<Longrightarrow> free_block (Some p) h' = Inl Out_Of_Bounds"
  by (auto simp: heap_ok_def free_block_def split: if_splits)

lemma free_all_append: "free_all (ps @ qs) h = rbind (free_all ps h) (free_all qs)"
proof (induction ps arbitrary: h)
  case (Cons p ps)
  then show ?case by (cases "free_block p h") simp_all
qed simp

lemma free_all_single: "free_all [p] = free_block p"
proof
  show "free_all [p] h = free_block p h" for h by (cases "free_block p h") simp_all
qed

text \<open>
  A structure that owns blocks: its release frees them in some order as long as they are live. Releasing it then
  gives back exactly what it owns.
\<close>

locale block_owner =
  fixes owned :: "'s \<Rightarrow> nat option list" and valid :: "'s \<Rightarrow> bool" and release :: "'s \<Rightarrow> heap \<Rightarrow> heap result"
  assumes release_frees: "valid s \<Longrightarrow> live_blocks h = base + ptrs (owned s) \<Longrightarrow> release s h = free_all (owned s) h"
begin

lemma release_owned:
  assumes "valid s" and "live_blocks h = base + ptrs (owned s)"
  shows "\<exists>h'. release s h = Inr h' \<and> live_blocks h' = base"
  using free_all_live [OF assms(2)] release_frees [OF assms] by simp

lemma sound_release: "valid s \<Longrightarrow> live_blocks h = base + ptrs (owned s) \<Longrightarrow> sound ok (release s h) (\<lambda>h'. live_blocks h' = base)"
  using release_owned [of s h base] by auto

end

end
