(* ===== verification/Pshy_Memory.thy ===== *)
theory Pshy_Memory
  imports Pshy Heap_Blocks
begin

text \<open>
  The blocks of memory that the shell of \<^verbatim>\<open>pshy/\<close> allocates and frees: the same functions as in \<open>Pshy\<close>, with their
  pointers. A pass of the loop reads and frees only what is live, whenever memory runs out, and frees all it
  allocates but for the empty line; with enough memory it does what \<open>shell_pass\<close> does.
\<close>

section \<open>Buffer\<close>

record mem_buff =
  mb_block :: nat
  mb_len :: nat
  mb_cap :: nat
  mb_data :: "nat option"

text \<open>The structure is written without a look at the pointer, the data is not.\<close>

definition mem_buff_create :: "(nat \<Rightarrow> bool) \<Rightarrow> heap \<Rightarrow> (mem_buff \<times> heap) result" where
  "mem_buff_create ok h =
     (let (b, h) = alloc ok h in
      rbind (deref b) (\<lambda>b.
        let (d, h) = alloc ok h
        in Inr (\<lparr>mb_block = b, mb_len = 0, mb_cap = 64, mb_data = d\<rparr>, h)))"

definition mem_buff_add :: "(nat \<Rightarrow> bool) \<Rightarrow> mem_buff \<times> heap \<Rightarrow> (mem_buff \<times> heap) result" where
  "mem_buff_add ok bh =
     (let (b, h) = bh in
      rbind (touch (Some (mb_block b)) h) (\<lambda>_.
      rbind
        (if mb_len b + 1 \<ge> mb_cap b then
           rbind (realloc_block ok (mb_data b) h) (\<lambda>(d, h).
             if d = None then Inl Aborted else Inr (b\<lparr>mb_cap := 2 * mb_cap b, mb_data := d\<rparr>, h))
         else Inr (b, h)) (\<lambda>(b, h).
      rmap (\<lambda>_. (b\<lparr>mb_len := mb_len b + 1\<rparr>, h)) (touch (mb_data b) h))))"

definition mem_buff_free :: "mem_buff \<Rightarrow> heap \<Rightarrow> heap result" where
  "mem_buff_free b h =
     rbind (touch (Some (mb_block b)) h) (\<lambda>_.
     rbind (if mb_len b > 0 then free_block (mb_data b) h else Inr h) (free_block (Some (mb_block b))))"

section \<open>Tokens\<close>

text \<open>An item is null or a block with the word in it.\<close>

record mem_tokens =
  mt_block :: "nat option"
  mt_len :: nat
  mt_array :: "nat option"
  mt_items :: "(nat \<times> string) option list"

definition mem_tokens_create :: "(nat \<Rightarrow> bool) \<Rightarrow> heap \<Rightarrow> mem_tokens \<times> heap" where
  "mem_tokens_create ok h =
     (let (t, h) = alloc ok h in (\<lparr>mt_block = t, mt_len = 0, mt_array = None, mt_items = []\<rparr>, h))"

definition mem_add_item :: "(nat \<Rightarrow> bool) \<Rightarrow> (nat \<times> string) option \<Rightarrow> mem_tokens \<times> heap \<Rightarrow> (mem_tokens \<times> heap) result" where
  "mem_add_item ok word th =
     (let (toks, h) = th in
      rbind (touch (mt_block toks) h) (\<lambda>_.
      rbind (realloc_block ok (mt_array toks) h) (\<lambda>(a, h).
        if a = None then Inl Aborted
        else Inr (toks\<lparr>mt_len := mt_len toks + 1, mt_array := a, mt_items := mt_items toks @ [word]\<rparr>, h))))"

text \<open>The copy of a word, null without memory.\<close>

definition mem_strdup :: "(nat \<Rightarrow> bool) \<Rightarrow> string \<Rightarrow> heap \<Rightarrow> (nat \<times> string) option \<times> heap" where
  "mem_strdup ok s h = (let (p, h) = alloc ok h in (map_option (\<lambda>p. (p, s)) p, h))"

text \<open>The loop reads the copy of the line, at \<open>data\<close>, of which \<open>save\<close> is left.\<close>

function mem_strtok_loop ::
  "(nat \<Rightarrow> bool) \<Rightarrow> nat option \<Rightarrow> string \<Rightarrow> mem_tokens \<times> heap \<Rightarrow> (mem_tokens \<times> heap) result"
where
  "mem_strtok_loop ok data save th =
     rbind (touch data (snd th)) (\<lambda>_.
       case strtok_r save of
         None \<Rightarrow> Inr th
       | Some (token, save) \<Rightarrow>
           (let (w, h) = mem_strdup ok token (snd th)
            in rbind (mem_add_item ok w (fst th, h)) (mem_strtok_loop ok data save)))"
  by pat_completeness auto
termination by (relation "measure (\<lambda>(ok, data, save, th). length save)") (auto dest: strtok_r_shorter)

declare mem_strtok_loop.simps [simp del]

definition mem_tokens_from_buff :: "(nat \<Rightarrow> bool) \<Rightarrow> mem_buff \<Rightarrow> string \<Rightarrow> heap \<Rightarrow> (mem_tokens \<times> heap) result" where
  "mem_tokens_from_buff ok b line h =
     rbind (touch (mb_data b) h) (\<lambda>_.
       let (data, h) = alloc ok h;
           th = mem_tokens_create ok h in
       rbind (mem_strtok_loop ok data line th) (\<lambda>th.
       rbind (mem_add_item ok None th) (\<lambda>(toks, h).
       rmap (\<lambda>h. (toks, h)) (free_block data h))))"

definition mem_tokens_builtin :: "mem_tokens \<Rightarrow> heap \<Rightarrow> token_builtin result" where
  "mem_tokens_builtin toks h =
     rbind (touch (mt_block toks) h) (\<lambda>_.
       if mt_len toks = 0 then Inr Not_Builtin
       else
         rbind (touch (mt_array toks) h) (\<lambda>_.
         rbind (touch (map_option fst (hd (mt_items toks))) h) (\<lambda>_.
         rmap (\<lambda>(_, t). if take 4 t = ''exit'' then Builtin_Exit
                        else if take 2 t = ''cd'' then Builtin_Cd else Not_Builtin)
           (deref (hd (mt_items toks))))))"

text \<open>The words, as the other model has them, and as \<open>execvp\<close> reads them through their pointers.\<close>

definition mem_texts :: "mem_tokens \<Rightarrow> pshy_tokens" where
  "mem_texts toks = map (map_option snd) (mt_items toks)"

fun touch_all :: "nat option list \<Rightarrow> heap \<Rightarrow> unit result" where
  "touch_all [] h = Inr ()"
| "touch_all (p # ps) h = rbind (if p = None then Inr () else touch p h) (\<lambda>_. touch_all ps h)"

definition mem_words :: "mem_tokens \<Rightarrow> heap \<Rightarrow> pshy_tokens result" where
  "mem_words toks h =
     rbind (touch (mt_array toks) h) (\<lambda>_. rmap (\<lambda>_. mem_texts toks) (touch_all (map (map_option fst) (mt_items toks)) h))"

text \<open>The loop over the array, and then the array and the structure.\<close>

fun mem_free_items :: "nat option \<Rightarrow> (nat \<times> string) option list \<Rightarrow> heap \<Rightarrow> heap result" where
  "mem_free_items a [] h = Inr h"
| "mem_free_items a (w # ws) h =
     rbind (touch a h) (\<lambda>_. rbind (free_block (map_option fst w) h) (mem_free_items a ws))"

definition mem_tokens_free :: "mem_tokens \<Rightarrow> heap \<Rightarrow> heap result" where
  "mem_tokens_free toks h =
     rbind (touch (mt_block toks) h) (\<lambda>_.
     rbind (mem_free_items (mt_array toks) (mt_items toks) h) (\<lambda>h.
     rbind (free_block (mt_array toks) h) (free_block (mt_block toks))))"

section \<open>Shell\<close>

text \<open>The loop over the characters, with the characters it has added.\<close>

fun mem_read_line ::
  "(nat \<Rightarrow> bool) \<Rightarrow> string \<Rightarrow> string \<Rightarrow> mem_buff \<times> heap \<Rightarrow> (string \<times> string \<times> mem_buff \<times> heap) result"
where
  "mem_read_line ok [] line bh = Inr (line, [], bh)"
| "mem_read_line ok (rc # rest) line bh =
     (if rc = NUL \<or> rc = CHR 0xFF \<or> pshy_is_delimiter rc then Inr (line, rest, bh)
      else rbind (mem_buff_add ok bh) (mem_read_line ok rest (line @ [rc])))"

text \<open>
  The labels at the end of the loop, and the switch with the fork, the \<open>k\<close>-th, with the events of the pass. The child
  reads the words in a copy of the memory. If its program starts it has new memory, here none.
\<close>

definition mem_cleanup_tokens ::
  "mem_buff \<Rightarrow> string \<Rightarrow> nat \<Rightarrow> bool \<Rightarrow> event list \<Rightarrow> mem_tokens \<Rightarrow> heap \<Rightarrow> (bool \<times> string \<times> nat \<times> event list \<times> heap) result"
where
  "mem_cleanup_tokens b rest k is_done evs toks h =
     rbind (mem_tokens_free toks h) (\<lambda>h. rmap (\<lambda>h. (is_done, rest, k, evs, h)) (mem_buff_free b h))"

definition mem_chdir :: "mem_tokens \<Rightarrow> heap \<Rightarrow> event list result" where
  "mem_chdir toks h =
     (if mt_len toks < 2 then Inr [Usage]
      else
        rbind (touch (mt_array toks) h) (\<lambda>_.
          let path = mt_items toks ! 1
          in rmap (\<lambda>_. [Chdir (map_option snd path)]) (touch_all [map_option fst path] h)))"

definition mem_run_tokens ::
  "(nat \<Rightarrow> forked) \<Rightarrow> nat \<Rightarrow> mem_buff \<Rightarrow> string \<Rightarrow> mem_tokens \<times> heap \<Rightarrow> (bool \<times> string \<times> nat \<times> event list \<times> heap) result"
where
  "mem_run_tokens fork k b rest th =
     (let (toks, h) = th in
      rbind (mem_tokens_builtin toks h) (\<lambda>builtin.
        case builtin of
          Builtin_Exit \<Rightarrow> mem_cleanup_tokens b rest k True [Prompt] toks h
        | Builtin_Cd \<Rightarrow>
            rbind (mem_chdir toks h) (\<lambda>evs. mem_cleanup_tokens b rest k False (Prompt # evs) toks h)
        | Not_Builtin \<Rightarrow>
            (case fork k of
               Fork_Failed \<Rightarrow> mem_cleanup_tokens b rest (k + 1) False [Prompt, Fork_Error] toks h
             | Parent \<Rightarrow>
                 rbind (mem_words toks h) (\<lambda>ws. mem_cleanup_tokens b rest (k + 1) False [Prompt, Run ws] toks h)
             | Child_Exec \<Rightarrow>
                 rmap (\<lambda>ws. (True, rest, k + 1, [Prompt, Exec ws], h\<lparr>blocks := []\<rparr>)) (mem_words toks h)
             | Child_Exec_Failed \<Rightarrow>
                 rbind (mem_words toks h) (\<lambda>ws. mem_cleanup_tokens b rest (k + 1) False [Prompt, Exec_Failed ws] toks h))))"

definition mem_pass ::
  "(nat \<Rightarrow> bool) \<Rightarrow> (nat \<Rightarrow> forked) \<Rightarrow> string \<Rightarrow> nat \<Rightarrow> heap \<Rightarrow> (bool \<times> string \<times> nat \<times> event list \<times> heap) result"
where
  "mem_pass ok fork inp k h =
     rbind (mem_buff_create ok h) (\<lambda>bh.
     rbind (mem_read_line ok inp [] bh) (\<lambda>(line, rest, b, h).
       if mb_len b = 0 then rmap (\<lambda>h. (False, rest, k, [Prompt], h)) (mem_buff_free b h)
       else rbind (mem_tokens_from_buff ok b line h) (mem_run_tokens fork k b rest)))"

text \<open>The loop of the shell with the events so far: what is left of the input, the number of forks, all events, the heap.\<close>

partial_function (option) mem_shell ::
  "(nat \<Rightarrow> bool) \<Rightarrow> (nat \<Rightarrow> forked) \<Rightarrow> string \<Rightarrow> nat \<Rightarrow> event list \<Rightarrow> heap \<Rightarrow> (string \<times> nat \<times> event list \<times> heap) result option"
where
  "mem_shell ok fork inp k evs h =
     (case mem_pass ok fork inp k h of
        Inl e \<Rightarrow> Some (Inl e)
      | Inr (is_done, rest, k, es, h) \<Rightarrow>
          if is_done then Some (Inr (rest, k, evs @ es, h)) else mem_shell ok fork rest k (evs @ es) h)"

section \<open>What each function owns\<close>

definition buff_owned :: "mem_buff \<Rightarrow> nat option list" where
  "buff_owned b = [mb_data b, Some (mb_block b)]"

definition item_blocks :: "(nat \<times> string) option list \<Rightarrow> nat option list" where
  "item_blocks ws = map (map_option fst) ws"

definition tokens_owned :: "mem_tokens \<Rightarrow> nat option list" where
  "tokens_owned toks = item_blocks (mt_items toks) @ [mt_array toks, mt_block toks]"

definition tokens_valid :: "mem_tokens \<Rightarrow> bool" where
  "tokens_valid toks \<longleftrightarrow> mt_block toks \<noteq> None \<and> mt_array toks \<noteq> None \<and> mt_len toks = length (mt_items toks) \<and> mt_items toks \<noteq> []"

lemma item_blocks_simps [simp]:
  "item_blocks [] = []" "item_blocks (w # ws) = map_option fst w # item_blocks ws"
  "item_blocks (ws @ vs) = item_blocks ws @ item_blocks vs"
  by (simp_all add: item_blocks_def)

text \<open>Without memory the data of the buffer and the structure of the tokens may be null.\<close>

definition buff_fine :: "(nat \<Rightarrow> bool) \<Rightarrow> mem_buff \<Rightarrow> bool" where
  "buff_fine ok b \<longleftrightarrow> mb_data b \<noteq> None \<or> short ok"

definition tokens_fine :: "(nat \<Rightarrow> bool) \<Rightarrow> mem_tokens \<Rightarrow> bool" where
  "tokens_fine ok toks \<longleftrightarrow> mt_len toks = length (mt_items toks) \<and> (mt_block toks \<noteq> None \<or> short ok)"

lemma tokens_valid_fine: "tokens_valid toks \<Longrightarrow> tokens_fine ok toks"
  by (simp add: tokens_valid_def tokens_fine_def)

lemma mem_free_items_all:
  "live_blocks h = base + ptrs (item_blocks ws) + {#a#} \<Longrightarrow> mem_free_items (Some a) ws h = free_all (item_blocks ws) h"
proof (induction ws arbitrary: h)
  case (Cons w ws)
  have "live_blocks h = (base + ptrs (item_blocks ws) + {#a#}) + ptr (map_option fst w)"
    using Cons.prems by (simp add: add_ac)
  from free_live [OF this] obtain h' where h': "free_block (map_option fst w) h = Inr h'"
    "live_blocks h' = base + ptrs (item_blocks ws) + {#a#}" by blast
  have "touch (Some a) h = Inr ()" using Cons.prems by (intro touch_live) simp
  then show ?case using h' Cons.IH by simp
qed simp

interpretation tokens: block_owner tokens_owned tokens_valid mem_tokens_free
proof
  fix toks h base
  assume valid: "tokens_valid toks" and live: "live_blocks h = base + ptrs (tokens_owned toks)"
  obtain a t where at: "mt_array toks = Some a" "mt_block toks = Some t" using valid by (auto simp: tokens_valid_def)
  have items: "live_blocks h = (base + {#t#}) + ptrs (item_blocks (mt_items toks)) + {#a#}"
    using live at by (simp add: tokens_owned_def)
  have "touch (Some t) h = Inr ()"
    using live at by (intro touch_live [of _ "base + {#a#} + ptrs (item_blocks (mt_items toks))"]) (simp add: tokens_owned_def)
  moreover have "(\<lambda>h. rbind (free_block (Some a) h) (free_block (Some t))) = free_all [Some a, Some t]"
  proof
    show "rbind (free_block (Some a) h) (free_block (Some t)) = free_all [Some a, Some t] h" for h
      by (cases "free_block (Some a) h") (auto simp: free_block_def)
  qed
  ultimately show "mem_tokens_free toks h = free_all (tokens_owned toks) h"
    using mem_free_items_all [OF items] at by (simp add: mem_tokens_free_def tokens_owned_def free_all_append del: free_all.simps)
qed

lemma buff_touched: "live_blocks h = base + ptrs (buff_owned b) \<Longrightarrow> touch (Some (mb_block b)) h = Inr ()"
  by (intro touch_live [of _ "base + ptr (mb_data b)"]) (simp add: buff_owned_def)

interpretation buffer: block_owner buff_owned "\<lambda>b. mb_len b > 0" mem_buff_free
proof
  fix b h base
  assume "mb_len b > 0" and "live_blocks h = base + ptrs (buff_owned b)"
  then show "mem_buff_free b h = free_all (buff_owned b) h"
    using buff_touched [of h base b]
    by (cases "free_block (mb_data b) h") (auto simp: mem_buff_free_def buff_owned_def free_block_def)
qed

lemma create_owns:
  "sound ok (mem_buff_create ok h)
    (\<lambda>(b, h'). live_blocks h' = live_blocks h + ptrs (buff_owned b) \<and> mb_len b = 0 \<and> buff_fine ok b)"
proof -
  obtain b h1 where b: "alloc ok h = (b, h1)" by fastforce
  obtain d h2 where d: "alloc ok h1 = (d, h2)" by fastforce
  show ?thesis
    using alloc_live [OF b] alloc_live [OF d] alloc_short [OF b] alloc_short [OF d]
    by (cases b) (simp_all add: mem_buff_create_def b d buff_owned_def buff_fine_def)
qed

lemma data_touched: "live_blocks h = base + ptrs (buff_owned b) \<Longrightarrow> buff_fine ok b \<Longrightarrow> sound ok (touch (mb_data b) h) (\<lambda>_. mb_data b \<noteq> None)"
  by (intro sound_touch [of _ "base + {#mb_block b#}"]) (auto simp: buff_owned_def buff_fine_def)

lemma add_owns:
  assumes "live_blocks h = base + ptrs (buff_owned b)" and "buff_fine ok b"
  shows "sound ok (mem_buff_add ok (b, h))
    (\<lambda>(b', h'). live_blocks h' = base + ptrs (buff_owned b') \<and> mb_len b' = mb_len b + 1 \<and> buff_fine ok b')"
proof -
  define P where "P = (\<lambda>(b', h'). live_blocks h' = base + ptrs (buff_owned b') \<and> mb_len b' = mb_len b \<and> buff_fine ok b')"
  have "sound ok (realloc_block ok (mb_data b) h)
      (\<lambda>(d, h'). (d \<noteq> None \<or> short ok) \<and> live_blocks h' = base + {#mb_block b#} + (if d = None then ptr (mb_data b) else ptr d))"
    using assms by (intro sound_realloc) (simp add: buff_owned_def)
  then have grow: "sound ok (if mb_len b + 1 \<ge> mb_cap b then
       rbind (realloc_block ok (mb_data b) h) (\<lambda>(d, h).
         if d = None then Inl Aborted else Inr (b\<lparr>mb_cap := 2 * mb_cap b, mb_data := d\<rparr>, h))
     else Inr (b, h)) P"
    using assms by (auto simp: P_def buff_owned_def buff_fine_def elim!: sound_rbind)
  have step: "sound ok (rmap (\<lambda>_. (b'\<lparr>mb_len := mb_len b' + 1\<rparr>, h')) (touch (mb_data b') h'))
      (\<lambda>(b', h'). live_blocks h' = base + ptrs (buff_owned b') \<and> mb_len b' = mb_len b + 1 \<and> buff_fine ok b')"
    if "P (b', h')" for b' h'
    using that data_touched [of h' base b' ok] by (auto simp: P_def buff_owned_def buff_fine_def elim!: sound_rmap)
  show ?thesis
    unfolding mem_buff_add_def prod.case Let_def buff_touched [OF assms(1)] rbind.simps
  proof (rule sound_rbind [OF grow])
    show "sound ok (case bh of (b, h) \<Rightarrow> rmap (\<lambda>_. (b\<lparr>mb_len := mb_len b + 1\<rparr>, h)) (touch (mb_data b) h))
      (\<lambda>(b', h'). live_blocks h' = base + ptrs (buff_owned b') \<and> mb_len b' = mb_len b + 1 \<and> buff_fine ok b')" if "P bh" for bh
      using that step [of "fst bh" "snd bh"] by (cases bh) simp
  qed
qed

lemma read_owns:
  "live_blocks h = base + ptrs (buff_owned b) \<Longrightarrow> mb_len b = length line \<Longrightarrow> buff_fine ok b \<Longrightarrow>
   sound ok (mem_read_line ok inp line (b, h)) (\<lambda>(line', rest, b', h').
     live_blocks h' = base + ptrs (buff_owned b') \<and> mb_len b' = length line' \<and> buff_fine ok b'
       \<and> line' = line @ line_chars inp \<and> rest = after_line_chars inp)"
proof (induction inp arbitrary: line b h)
  case (Cons c inp)
  show ?case
  proof (cases "ends_line c")
    case True
    then show ?thesis using Cons.prems by (simp add: ends_line_def [symmetric])
  next
    case False
    then have "mem_read_line ok (c # inp) line (b, h) = rbind (mem_buff_add ok (b, h)) (mem_read_line ok inp (line @ [c]))"
      by (simp add: ends_line_def)
    then show ?thesis
      using Cons.IH [of _ _ "line @ [c]"] Cons.prems(2) False
      by (auto intro!: sound_rbind [OF add_owns [OF Cons.prems(1,3)]])
  qed
qed simp

lemma add_item_owns:
  assumes "live_blocks h = base + ptr (map_option fst w) + ptrs (tokens_owned toks)" and "tokens_fine ok toks"
  shows "sound ok (mem_add_item ok w (toks, h)) (\<lambda>(toks', h'). live_blocks h' = base + ptrs (tokens_owned toks')
    \<and> tokens_valid toks' \<and> mem_texts toks' = mem_texts toks @ [map_option snd w])"
proof -
  have t: "sound ok (touch (mt_block toks) h) (\<lambda>_. mt_block toks \<noteq> None)"
    using assms by (intro sound_touch
        [of _ "base + ptr (map_option fst w) + ptrs (item_blocks (mt_items toks)) + ptr (mt_array toks)"])
      (auto simp: tokens_owned_def tokens_fine_def add_ac)
  have r: "sound ok (realloc_block ok (mt_array toks) h) (\<lambda>(a, h'). (a \<noteq> None \<or> short ok) \<and>
      live_blocks h' = (base + ptr (map_option fst w) + ptrs (item_blocks (mt_items toks)) + ptr (mt_block toks))
        + (if a = None then ptr (mt_array toks) else ptr a))"
    using assms(1) by (intro sound_realloc) (simp add: tokens_owned_def add_ac)
  show ?thesis
    using assms(2) unfolding mem_add_item_def prod.case Let_def
    by (intro sound_rbind [OF t] sound_rbind [OF r])
      (auto simp: tokens_owned_def tokens_valid_def tokens_fine_def mem_texts_def add_ac)
qed

lemma strdup_live: "mem_strdup ok s h = (w, h') \<Longrightarrow> live_blocks h' = live_blocks h + ptr (map_option fst w)"
  by (cases "alloc ok h"; cases "fst (alloc ok h)") (auto simp: mem_strdup_def dest: alloc_live)

lemma strdup_short: "mem_strdup ok s h = (w, h') \<Longrightarrow> map_option snd w = Some s \<or> short ok"
  by (cases "alloc ok h"; cases "fst (alloc ok h)") (auto simp: mem_strdup_def dest: alloc_short)

lemma strtok_owns:
  "live_blocks h = base + ptr data + ptrs (tokens_owned toks) \<Longrightarrow> tokens_fine ok toks \<Longrightarrow> data \<noteq> None \<or> short ok \<Longrightarrow>
   sound ok (mem_strtok_loop ok data save (toks, h)) (\<lambda>(toks', h').
     live_blocks h' = base + ptr data + ptrs (tokens_owned toks') \<and> tokens_fine ok toks'
       \<and> (short ok \<or> mem_texts toks' = mem_texts toks @ map Some (words_of save)))"
proof (induction ok data save "(toks, h)" arbitrary: toks h rule: mem_strtok_loop.induct)
  case (1 ok data save)
  have t: "sound ok (touch data h) (\<lambda>_. True)"
    using sound_touch [of h "base + ptrs (tokens_owned toks)" data ok] "1.prems" by (auto simp: add_ac intro: sound_mono)
  show ?case
  proof (cases "strtok_r save")
    case None
    show ?thesis
      unfolding mem_strtok_loop.simps [of ok data save] snd_conv
      by (rule sound_rbind [OF t]) (use "1.prems" None in \<open>simp add: words_strtok [of save]\<close>)
  next
    case (Some ts)
    obtain token rest where ts: "ts = (token, rest)" by fastforce
    obtain w h1 where w: "mem_strdup ok token h = (w, h1)" by fastforce
    have "live_blocks h1 = (base + ptr data) + ptr (map_option fst w) + ptrs (tokens_owned toks)"
      using strdup_live [OF w] "1.prems"(1) by (simp add: add_ac)
    note item = add_item_owns [OF this "1.prems"(2)]
    have words: "words_of save = token # words_of rest" by (simp add: words_strtok [of save] Some ts)
    have "mem_strtok_loop ok data save (toks, h) =
        rbind (touch data h) (\<lambda>_. rbind (mem_add_item ok w (toks, h1)) (mem_strtok_loop ok data rest))"
      by (simp add: mem_strtok_loop.simps [of ok data save] Some ts w)
    moreover have "sound ok \<dots> (\<lambda>(toks', h'). live_blocks h' = base + ptr data + ptrs (tokens_owned toks')
        \<and> tokens_fine ok toks' \<and> (short ok \<or> mem_texts toks' = mem_texts toks @ map Some (words_of save)))"
    proof (rule sound_rbind [OF t], rule sound_rbind [OF item])
      fix u th
      assume u: "touch data h = Inr u" and th: "mem_add_item ok w (toks, h1) = Inr th"
        and P: "case th of (toks', h') \<Rightarrow> live_blocks h' = base + ptr data + ptrs (tokens_owned toks')
          \<and> tokens_valid toks' \<and> mem_texts toks' = mem_texts toks @ [map_option snd w]"
      obtain toks2 h2 where th2: "th = (toks2, h2)" by fastforce
      have "sound ok (mem_strtok_loop ok data rest (toks2, h2)) (\<lambda>(toks', h').
          live_blocks h' = base + ptr data + ptrs (tokens_owned toks') \<and> tokens_fine ok toks'
            \<and> (short ok \<or> mem_texts toks' = mem_texts toks2 @ map Some (words_of rest)))"
        using P th u w "1.prems"(3) unfolding th2
        by (intro "1.hyps" [of u ts token rest "(w, h1)" w h1 toks2 h2]) (auto simp: Some ts tokens_valid_fine)
      then show "sound ok (mem_strtok_loop ok data rest th) (\<lambda>(toks', h').
          live_blocks h' = base + ptr data + ptrs (tokens_owned toks') \<and> tokens_fine ok toks'
            \<and> (short ok \<or> mem_texts toks' = mem_texts toks @ map Some (words_of save)))"
        using P strdup_short [OF w] unfolding th2 by (auto simp: words elim!: sound_mono)
    qed
    ultimately show ?thesis by simp
  qed
qed

lemma from_buff_owns:
  assumes "live_blocks h = base + ptrs (buff_owned b)" and "buff_fine ok b"
  shows "sound ok (mem_tokens_from_buff ok b line h)
    (\<lambda>(toks, h'). live_blocks h' = base + ptrs (buff_owned b) + ptrs (tokens_owned toks) \<and> tokens_valid toks
      \<and> (short ok \<or> mem_texts toks = map Some (words_of line) @ [None]))"
proof -
  let ?base = "base + ptrs (buff_owned b)"
  obtain data h1 where d: "alloc ok h = (data, h1)" by fastforce
  obtain toks h2 where c: "mem_tokens_create ok h1 = (toks, h2)" by fastforce
  have toks: "tokens_fine ok toks" "mem_texts toks = []" "live_blocks h2 = live_blocks h1 + ptrs (tokens_owned toks)"
    using c by (cases "alloc ok h1"; auto simp: mem_tokens_create_def tokens_owned_def tokens_fine_def mem_texts_def
        dest: alloc_live alloc_short)+
  then have live: "live_blocks h2 = ?base + ptr data + ptrs (tokens_owned toks)"
    using alloc_live [OF d] assms(1) by simp
  have rest: "sound ok (rbind (mem_add_item ok None (toks', h')) (\<lambda>(toks, h). rmap (\<lambda>h. (toks, h)) (free_block data h)))
      (\<lambda>(toks, h'). live_blocks h' = ?base + ptrs (tokens_owned toks) \<and> tokens_valid toks
        \<and> (short ok \<or> mem_texts toks = map Some (words_of line) @ [None]))"
    if "live_blocks h' = ?base + ptr data + ptrs (tokens_owned toks')" "tokens_fine ok toks'"
      and texts: "short ok \<or> mem_texts toks' = map Some (words_of line)"
    for toks' h'
  proof -
    have item: "sound ok (mem_add_item ok None (toks', h')) (\<lambda>(toks'', h''). live_blocks h'' = (?base + ptr data)
        + ptrs (tokens_owned toks'') \<and> tokens_valid toks'' \<and> mem_texts toks'' = mem_texts toks' @ [map_option snd None])"
      using add_item_owns [of h' "?base + ptr data" None toks' ok] that by simp
    show ?thesis
    proof (rule sound_rbind [OF item])
      fix x
      assume x: "case x of (toks'', h'') \<Rightarrow> live_blocks h'' = (?base + ptr data) + ptrs (tokens_owned toks'')
        \<and> tokens_valid toks'' \<and> mem_texts toks'' = mem_texts toks' @ [map_option snd None]"
      then have "live_blocks (snd x) = (?base + ptrs (tokens_owned (fst x))) + ptr data" by (auto simp: add_ac)
      from sound_free [OF this, of ok] show "sound ok (case x of (toks, h) \<Rightarrow> rmap (\<lambda>h. (toks, h)) (free_block data h))
          (\<lambda>(toks, h'). live_blocks h' = ?base + ptrs (tokens_owned toks) \<and> tokens_valid toks
            \<and> (short ok \<or> mem_texts toks = map Some (words_of line) @ [None]))"
        using x texts by (cases x) (auto elim!: sound_rmap)
    qed
  qed
  have "mem_tokens_from_buff ok b line h = rbind (touch (mb_data b) h) (\<lambda>_. rbind (mem_strtok_loop ok data line (toks, h2))
      (\<lambda>th. rbind (mem_add_item ok None th) (\<lambda>(toks, h). rmap (\<lambda>h. (toks, h)) (free_block data h))))"
    by (simp add: mem_tokens_from_buff_def d c)
  then show ?thesis
    using rest toks(2)
    by (auto intro!: sound_rbind [OF data_touched [OF assms]] sound_rbind [OF strtok_owns [OF live toks(1) alloc_short [OF d]]])
qed

lemma touched_tokens:
  assumes "live_blocks h = base + ptrs (tokens_owned toks)" and "tokens_valid toks" and "p \<in> set (tokens_owned toks)"
    and "p \<noteq> None"
  shows "touch p h = Inr ()"
proof -
  obtain q where "p = Some q" using assms(4) by blast
  moreover have "q \<in># ptrs ps" if "Some q \<in> set ps" for q ps
    using that by (induction ps) auto
  ultimately show ?thesis using assms(1,3) by (simp add: touch_def live_iff)
qed

lemma builtin_owns:
  assumes "live_blocks h = base + ptrs (tokens_owned toks)" and "tokens_valid toks"
  shows "mem_tokens_builtin toks h = pshy_tokens_builtin (mem_texts toks)"
proof -
  obtain w ws where ws: "mt_items toks = w # ws" "mt_len toks \<noteq> 0" using assms(2) by (auto simp: tokens_valid_def neq_Nil_conv)
  have t: "touch (mt_block toks) h = Inr ()" "touch (mt_array toks) h = Inr ()"
    using assms by (auto simp: tokens_owned_def tokens_valid_def intro!: touched_tokens [OF assms])
  show ?thesis
  proof (cases w)
    case None
    then show ?thesis
      using ws t by (simp add: mem_tokens_builtin_def pshy_tokens_builtin_def mem_texts_def touch_def)
  next
    case (Some pw)
    then have "touch (map_option fst w) h = Inr ()"
      using ws by (intro touched_tokens [OF assms]) (simp_all add: tokens_owned_def)
    then show ?thesis
      using ws t Some by (simp add: mem_tokens_builtin_def pshy_tokens_builtin_def mem_texts_def case_prod_beta)
  qed
qed

section \<open>A pass\<close>

text \<open>A structure released while another is live.\<close>

lemma cleanup_owns:
  assumes "live_blocks h = base + ptrs (buff_owned b) + ptrs (tokens_owned toks)" and "tokens_valid toks" and "mb_len b > 0"
  shows "\<exists>h'. mem_cleanup_tokens b rest k is_done evs toks h = Inr (is_done, rest, k, evs, h') \<and> live_blocks h' = base"
proof -
  obtain h1 where "mem_tokens_free toks h = Inr h1" "live_blocks h1 = base + ptrs (buff_owned b)"
    using tokens.release_owned [OF assms(2,1)] by blast
  then show ?thesis
    using buffer.release_owned [OF assms(3), of h1 base] by (auto simp: mem_cleanup_tokens_def)
qed

lemma empty_buff_free:
  assumes "live_blocks h = base + ptrs (buff_owned b)" and "mb_len b = 0"
  shows "\<exists>h'. mem_buff_free b h = Inr h' \<and> live_blocks h' = base + ptr (mb_data b)"
  using free_live [of h "base + ptr (mb_data b)" "Some (mb_block b)"] buff_touched [OF assms(1)] assms
  by (auto simp: mem_buff_free_def buff_owned_def)

text \<open>The words are live, so a command and a path can be read.\<close>

lemma touch_all_ok: "(\<And>p. p \<in> set ps \<Longrightarrow> p \<noteq> None \<Longrightarrow> touch p h = Inr ()) \<Longrightarrow> touch_all ps h = Inr ()"
  by (induction ps) auto

lemma words_owns:
  assumes "live_blocks h = base + ptrs (tokens_owned toks)" and "tokens_valid toks"
  shows "mem_words toks h = Inr (mem_texts toks)"
    and "mem_chdir toks h = Inr (if length (mem_texts toks) < 2 then [Usage] else [Chdir (mem_texts toks ! 1)])"
proof -
  have a: "touch (mt_array toks) h = Inr ()"
    using assms(2) by (intro touched_tokens [OF assms]) (auto simp: tokens_owned_def tokens_valid_def)
  have w: "touch (map_option fst w) h = Inr ()" if "w \<in> set (mt_items toks)" "w \<noteq> None" for w
    using that by (intro touched_tokens [OF assms]) (auto simp: tokens_owned_def item_blocks_def)
  have "touch_all (map (map_option fst) (mt_items toks)) h = Inr ()"
    by (intro touch_all_ok) (use w in auto)
  then show "mem_words toks h = Inr (mem_texts toks)" by (simp add: mem_words_def a)
  have len: "mt_len toks = length (mt_items toks)" using assms(2) by (simp add: tokens_valid_def)
  have "touch_all [map_option fst (mt_items toks ! 1)] h = Inr ()" if "\<not> length (mt_items toks) < 2"
    using that w [of "mt_items toks ! 1"] by (cases "mt_items toks ! 1") auto
  then show "mem_chdir toks h = Inr (if length (mem_texts toks) < 2 then [Usage] else [Chdir (mem_texts toks ! 1)])"
    by (auto simp: mem_chdir_def a len mem_texts_def Let_def)
qed

text \<open>The commands of the shell, whose tokens start with a null pointer when the line is blank, and the events they make.\<close>

definition token_events :: "token_builtin \<Rightarrow> forked \<Rightarrow> pshy_tokens \<Rightarrow> event list" where
  "token_events c f toks =
     (case c of
        Builtin_Exit \<Rightarrow> []
      | Builtin_Cd \<Rightarrow> if length toks < 2 then [Usage] else [Chdir (toks ! 1)]
      | Not_Builtin \<Rightarrow> (case f of Fork_Failed \<Rightarrow> [Fork_Error] | Parent \<Rightarrow> [Run toks]
          | Child_Exec \<Rightarrow> [Exec toks] | Child_Exec_Failed \<Rightarrow> [Exec_Failed toks]))"

lemma run_tokens_owns:
  assumes "live_blocks h = base + ptrs (buff_owned b) + ptrs (tokens_owned toks)" and "tokens_valid toks" and "mb_len b > 0"
    and "fork k \<noteq> Child_Exec"
  shows "case pshy_tokens_builtin (mem_texts toks) of
      Inl e \<Rightarrow> mem_run_tokens fork k b rest (toks, h) = Inl e
    | Inr c \<Rightarrow> \<exists>h'. mem_run_tokens fork k b rest (toks, h) =
        Inr (c = Builtin_Exit, rest, if c = Not_Builtin then k + 1 else k,
          Prompt # token_events c (fork k) (mem_texts toks), h') \<and> live_blocks h' = base"
  unfolding mem_run_tokens_def prod.case Let_def builtin_owns [OF assms(1,2)]
  using cleanup_owns [OF assms(1-3)] assms(4)
  by (auto simp: words_owns [OF assms(1,2)] token_events_def split: sum.split token_builtin.split forked.split)

text \<open>
  A pass, whenever memory runs out: unless it has a fault, it is at the end of the line, and the memory is as before
  but for the data of the buffer of an empty line. The line may be blank, which is a fault with or without memory.
\<close>

definition pass_done ::
  "(nat \<Rightarrow> bool) \<Rightarrow> (nat \<Rightarrow> forked) \<Rightarrow> string \<Rightarrow> nat \<Rightarrow> heap \<Rightarrow> bool \<times> string \<times> nat \<times> event list \<times> heap \<Rightarrow> bool" where
  "pass_done ok fork inp k h r \<longleftrightarrow>
     (case r of (is_done, rest, k', evs, h') \<Rightarrow> rest = after_line_chars inp
        \<and> (\<exists>leak. live_blocks h' = live_blocks h + leak \<and> size leak \<le> (if line_chars inp = [] then 1 else 0)
             \<and> (line_chars inp = [] \<longrightarrow> size leak = 1 \<or> short ok))
        \<and> (short ok
           \<or> (if line_chars inp = [] then \<not> is_done \<and> k' = k \<and> evs = [Prompt]
              else \<exists>c. pshy_tokens_builtin (map Some (words_of (line_chars inp)) @ [None]) = Inr c
                \<and> is_done = (c = Builtin_Exit) \<and> k' = (if c = Not_Builtin then k + 1 else k)
                \<and> evs = Prompt # token_events c (fork k) (map Some (words_of (line_chars inp)) @ [None]))))"

definition blank_line :: "string \<Rightarrow> bool" where
  "blank_line inp \<longleftrightarrow> line_chars inp \<noteq> [] \<and> words_of (line_chars inp) = []"

lemma builtin_fault: "pshy_tokens_builtin ts = Inl e \<Longrightarrow> e = Null_Deref"
  by (cases "hd ts") (auto simp: pshy_tokens_builtin_def split: if_splits)

lemma builtin_words:
  "pshy_tokens_builtin (map Some ws @ [None]) =
    (if ws = [] then Inl Null_Deref
     else Inr (if take 4 (hd ws) = ''exit'' then Builtin_Exit else if take 2 (hd ws) = ''cd'' then Builtin_Cd else Not_Builtin))"
  by (cases ws) (simp_all add: pshy_tokens_builtin_def)

lemma sound_or_rbind:
  assumes "sound ok r P" and "\<And>x. P x \<Longrightarrow> sound ok (f x) Q \<or> B \<and> f x = Inl e"
  shows "sound ok (rbind r f) Q \<or> B \<and> rbind r f = Inl e"
  using assms by (cases r) auto

lemma pass_cases:
  assumes "\<forall>k. fork k \<noteq> Child_Exec"
  shows "sound ok (mem_pass ok fork inp k h) (pass_done ok fork inp k h) \<or> blank_line inp \<and> mem_pass ok fork inp k h = Inl Null_Deref"
  unfolding mem_pass_def
proof (rule sound_or_rbind [OF create_owns])
  fix bh
  assume bh: "case bh of (b, h') \<Rightarrow> live_blocks h' = live_blocks h + ptrs (buff_owned b) \<and> mb_len b = 0 \<and> buff_fine ok b"
  have "sound ok (mem_read_line ok inp [] bh) (\<lambda>(line', rest, b', h').
      live_blocks h' = live_blocks h + ptrs (buff_owned b') \<and> mb_len b' = length line' \<and> buff_fine ok b'
        \<and> line' = line_chars inp \<and> rest = after_line_chars inp)"
    using bh read_owns [of "snd bh" "live_blocks h" "fst bh" "[]" ok inp] by (cases bh) simp
  then show "sound ok (rbind (mem_read_line ok inp [] bh) (\<lambda>(line, rest, b, h).
        if mb_len b = 0 then rmap (\<lambda>h. (False, rest, k, [Prompt], h)) (mem_buff_free b h)
        else rbind (mem_tokens_from_buff ok b line h) (mem_run_tokens fork k b rest))) (pass_done ok fork inp k h)
    \<or> blank_line inp \<and> rbind (mem_read_line ok inp [] bh) (\<lambda>(line, rest, b, h).
        if mb_len b = 0 then rmap (\<lambda>h. (False, rest, k, [Prompt], h)) (mem_buff_free b h)
        else rbind (mem_tokens_from_buff ok b line h) (mem_run_tokens fork k b rest)) = Inl Null_Deref"
  proof (rule sound_or_rbind)
    fix x
    assume x: "case x of (line', rest, b', h') \<Rightarrow>
      live_blocks h' = live_blocks h + ptrs (buff_owned b') \<and> mb_len b' = length line' \<and> buff_fine ok b'
        \<and> line' = line_chars inp \<and> rest = after_line_chars inp"
    obtain line rest b h1 where xs: "x = (line, rest, b, h1)" by (metis prod_cases4)
    have live: "live_blocks h1 = live_blocks h + ptrs (buff_owned b)" and fine: "buff_fine ok b"
      and len: "mb_len b = length (line_chars inp)" and line: "line = line_chars inp" "rest = after_line_chars inp"
      using x by (auto simp: xs)
    show "sound ok (case x of (line, rest, b, h) \<Rightarrow>
        if mb_len b = 0 then rmap (\<lambda>h. (False, rest, k, [Prompt], h)) (mem_buff_free b h)
        else rbind (mem_tokens_from_buff ok b line h) (mem_run_tokens fork k b rest)) (pass_done ok fork inp k h)
      \<or> blank_line inp \<and> (case x of (line, rest, b, h) \<Rightarrow>
        if mb_len b = 0 then rmap (\<lambda>h. (False, rest, k, [Prompt], h)) (mem_buff_free b h)
        else rbind (mem_tokens_from_buff ok b line h) (mem_run_tokens fork k b rest)) = Inl Null_Deref"
    proof (cases "mb_len b = 0")
      case True
      obtain h2 where "mem_buff_free b h1 = Inr h2" "live_blocks h2 = live_blocks h + ptr (mb_data b)"
        using empty_buff_free [OF live True] by blast
      then show ?thesis
        using True len fine line by (cases "mb_data b") (auto simp: xs pass_done_def buff_fine_def)
    next
      case False
      have "sound ok (rbind (mem_tokens_from_buff ok b line h1) (mem_run_tokens fork k b rest)) (pass_done ok fork inp k h)
        \<or> blank_line inp \<and> rbind (mem_tokens_from_buff ok b line h1) (mem_run_tokens fork k b rest) = Inl Null_Deref"
      proof (rule sound_or_rbind [OF from_buff_owns [OF live fine]])
        fix th
        assume th: "case th of (toks, h') \<Rightarrow> live_blocks h' = live_blocks h + ptrs (buff_owned b) + ptrs (tokens_owned toks)
          \<and> tokens_valid toks \<and> (short ok \<or> mem_texts toks = map Some (words_of line) @ [None])"
        obtain toks h2 where th2: "th = (toks, h2)" by fastforce
        have blank: "words_of line = [] \<Longrightarrow> blank_line inp" using False len line by (simp add: blank_line_def)
        show "sound ok (mem_run_tokens fork k b rest th) (pass_done ok fork inp k h)
          \<or> blank_line inp \<and> mem_run_tokens fork k b rest th = Inl Null_Deref"
          using run_tokens_owns [of h2 "live_blocks h" b toks fork k rest] th False assms len line
          unfolding th2
          by (cases "pshy_tokens_builtin (mem_texts toks)")
            (auto simp: pass_done_def builtin_words blank dest: builtin_fault split: if_splits)
      qed
      then show ?thesis using False by (simp add: xs)
    qed
  qed
qed

text \<open>C10:
  A pass of the shell is safe whenever memory runs out: it reads and frees only live blocks and frees none that it did
  not allocate; its only faults are a null pointer or an abort without memory, and the null pointer of a blank line. A
  pass that ends has freed all it allocated, up to the data of the buffer of an empty line.\<close>

theorem pass_frees:
  assumes "\<forall>k. fork k \<noteq> Child_Exec"
  shows "case mem_pass ok fork inp k h of
      Inl e \<Rightarrow> (\<exists>n. \<not> ok n) \<and> (e = Null_Deref \<or> e = Aborted) \<or> blank_line inp \<and> e = Null_Deref
    | Inr (is_done, rest, k', evs, h') \<Rightarrow> rest = after_line_chars inp
        \<and> (\<exists>leak. live_blocks h' = live_blocks h + leak \<and> size leak \<le> (if line_chars inp = [] then 1 else 0))"
  using pass_cases [OF assms, of ok inp k h] by (auto simp: sound_def pass_done_def short_def split: sum.splits)

theorem pass_frees_witness:
  "case mem_pass (\<lambda>_. True) (\<lambda>_. Parent) (''ls'' @ [NL]) 0 no_blocks of
      Inl e \<Rightarrow> False
    | Inr (is_done, rest, k', evs, h') \<Rightarrow> rest = [] \<and> live_blocks h' = {#}"
proof -
  have l: "line_chars (''ls'' @ [NL]) = ''ls''" "after_line_chars (''ls'' @ [NL]) = []"
    using line_chars_plain [of "''ls''" "[]"] by (simp_all add: plain_def NUL_def NL_def)
  then have "\<not> blank_line (''ls'' @ [NL])" by (simp add: blank_line_def words_of_def)
  then show ?thesis
    using pass_frees [where fork = "\<lambda>_. Parent" and ok = "\<lambda>_. True" and inp = "''ls'' @ [NL]" and k = 0 and h = no_blocks] l
    by (auto simp: no_blocks_def live_blocks_def split: sum.splits)
qed

text \<open>Without memory for the third call, the copy of the line, the pass ends at the null pointer it gives.\<close>

lemma pass_out_of_memory:
  "mem_pass (\<lambda>n. n < 2) (\<lambda>_. Parent) (''ls'' @ [NL]) 0 no_blocks = Inl Null_Deref"
  by code_simp

section \<open>A session\<close>

text \<open>With enough memory a pass does what the pass of the other model does, and leaks what that one counts.\<close>

lemma pass_refines:
  assumes "\<forall>k. fork k \<noteq> Child_Exec"
  shows "case shell_pass (\<lambda>_. True) fork s of
      Inl e \<Rightarrow> mem_pass (\<lambda>_. True) fork (instream s) (forks s) h = Inl e
    | Inr (is_done, s') \<Rightarrow> \<exists>es h'. mem_pass (\<lambda>_. True) fork (instream s) (forks s) h = Inr (is_done, instream s', forks s', es, h')
        \<and> events s' = events s @ es
        \<and> size (live_blocks h') + leaked s = size (live_blocks h) + leaked s' \<and> leaked s \<le> leaked s'"
proof -
  have full: "\<not> short (\<lambda>_. True)" by (simp add: short_def)
  consider (sound) r where "mem_pass (\<lambda>_. True) fork (instream s) (forks s) h = Inr r" "pass_done (\<lambda>_. True) fork (instream s) (forks s) h r"
    | (blank) "blank_line (instream s)" "mem_pass (\<lambda>_. True) fork (instream s) (forks s) h = Inl Null_Deref"
    using pass_cases [OF assms, of "\<lambda>_. True" "instream s" "forks s" h] full
    by (cases "mem_pass (\<lambda>_. True) fork (instream s) (forks s) h") auto
  then show ?thesis
  proof cases
    case blank
    then show ?thesis by (simp add: pass_chars blank_line_def Let_def)
  next
    case sound
    obtain is_done rest k es h' where r: "r = (is_done, rest, k, es, h')" by (metis prod_cases5)
    let ?l = "line_chars (instream s)"
    have rest: "rest = after_line_chars (instream s)" and leak: "size (live_blocks h') = size (live_blocks h) + (if ?l = [] then 1 else 0)"
      using sound(2) full by (auto simp: r pass_done_def split: if_splits)
    show ?thesis
    proof (cases "?l = []")
      case True
      then show ?thesis using sound rest leak full by (simp add: r pass_chars pass_done_def Let_def)
    next
      case False
      let ?toks = "map Some (words_of ?l) @ [None]"
      have ws: "words_of ?l \<noteq> []" and d: "is_done = (take 4 (hd (words_of ?l)) = ''exit'')"
        and k: "k = (if take 4 (hd (words_of ?l)) = ''exit'' \<or> take 2 (hd (words_of ?l)) = ''cd'' then forks s else forks s + 1)"
        and es: "es = Prompt # token_events (if take 4 (hd (words_of ?l)) = ''exit'' then Builtin_Exit
            else if take 2 (hd (words_of ?l)) = ''cd'' then Builtin_Cd else Not_Builtin) (fork (forks s)) ?toks"
        using sound(2) False full by (auto simp: r pass_done_def builtin_words split: if_splits)
      have "fork (forks s) \<noteq> Child_Exec" using assms by blast
      then show ?thesis
        using sound(1) False ws d k rest leak es
        by (cases "fork (forks s)"; cases "words_of ?l") (auto simp: r pass_chars Let_def token_events_def)
    qed
  qed
qed

lemma mem_shell_step: "mem_shell ok fork inp k evs h =
    (case mem_pass ok fork inp k h of Inl e \<Rightarrow> Some (Inl e)
     | Inr (is_done, rest, k, es, h) \<Rightarrow>
         if is_done then Some (Inr (rest, k, evs @ es, h)) else mem_shell ok fork rest k (evs @ es) h)"
  by (rule mem_shell.simps)

text \<open>What a session of the one model comes to in the other.\<close>

definition same_end :: "shell \<Rightarrow> heap \<Rightarrow> shell result \<Rightarrow> (string \<times> nat \<times> event list \<times> heap) result option \<Rightarrow> bool" where
  "same_end s h y r \<longleftrightarrow>
     (case y of
        Inl e \<Rightarrow> r = Some (Inl e)
      | Inr s' \<Rightarrow> \<exists>h'. r = Some (Inr (instream s', forks s', events s', h'))
          \<and> size (live_blocks h') + leaked s = size (live_blocks h) + leaked s' \<and> leaked s \<le> leaked s')"

lemma session_ends:
  assumes "pshy_shell (\<lambda>_. True) fork s = Some y" and child: "\<forall>k. fork k \<noteq> Child_Exec"
  shows "same_end s h y (mem_shell (\<lambda>_. True) fork (instream s) (forks s) (events s) h)"
proof -
  have "(\<forall>k. fork k \<noteq> Child_Exec) \<longrightarrow> ok = (\<lambda>_. True) \<longrightarrow>
      (\<forall>h. same_end s h y (mem_shell (\<lambda>_. True) fork (instream s) (forks s) (events s) h))"
    if "pshy_shell ok fork s = Some y" for ok
  proof (rule pshy_shell.raw_induct [of "\<lambda>ok fork s y. (\<forall>k. fork k \<noteq> Child_Exec) \<longrightarrow> ok = (\<lambda>_. True) \<longrightarrow>
      (\<forall>h. same_end s h y (mem_shell (\<lambda>_. True) fork (instream s) (forks s) (events s) h))", OF _ that], intro impI allI)
    fix loop ok fork s y h
    assume IH: "\<And>ok fork s y. loop ok fork s = Some y \<Longrightarrow> (\<forall>k. fork k \<noteq> Child_Exec) \<longrightarrow> ok = (\<lambda>_. True) \<longrightarrow>
        (\<forall>h. same_end s h y (mem_shell (\<lambda>_. True) fork (instream s) (forks s) (events s) h))"
      and body: "(case shell_pass ok fork s of Inl e \<Rightarrow> Some (Inl e)
        | Inr (is_done, s') \<Rightarrow> if is_done then Some (Inr s') else loop ok fork s') = Some y"
      and child: "\<forall>k. fork k \<noteq> Child_Exec" and ok: "ok = (\<lambda>_. True)"
    note pass = pass_refines [OF child, of s h] and step = mem_shell_step [of "\<lambda>_. True" fork "instream s" "forks s" "events s" h]
    show "same_end s h y (mem_shell (\<lambda>_. True) fork (instream s) (forks s) (events s) h)"
    proof (cases "shell_pass (\<lambda>_. True) fork s")
      case (Inl e)
      then show ?thesis using body pass step by (auto simp: ok same_end_def)
    next
      case (Inr ds)
      obtain d s1 where ds: "ds = (d, s1)" by fastforce
      obtain es h1 where h1: "mem_pass (\<lambda>_. True) fork (instream s) (forks s) h = Inr (d, instream s1, forks s1, es, h1)"
        and e: "events s1 = events s @ es"
        and l: "size (live_blocks h1) + leaked s = size (live_blocks h) + leaked s1" "leaked s \<le> leaked s1"
        using pass Inr ds by auto
      show ?thesis
      proof (cases d)
        case True
        then show ?thesis using body l h1 e Inr ds step by (auto simp: ok same_end_def)
      next
        case False
        then have "loop ok fork s1 = Some y" using body Inr ds by (simp add: ok)
        then have "same_end s1 h1 y (mem_shell (\<lambda>_. True) fork (instream s1) (forks s1) (events s1) h1)"
          using IH child ok by blast
        moreover have "mem_shell (\<lambda>_. True) fork (instream s) (forks s) (events s) h =
            mem_shell (\<lambda>_. True) fork (instream s1) (forks s1) (events s1) h1" using step h1 e False by simp
        ultimately show ?thesis using l by (auto simp: same_end_def split: sum.splits)
      qed
    qed
  qed
  then show ?thesis using assms by blast
qed

lemma session_diverges:
  fixes s :: shell
  assumes "mem_shell (\<lambda>_. True) fork (instream s) (forks s) evs h = Some y" and child: "\<forall>k. fork k \<noteq> Child_Exec"
  shows "pshy_shell (\<lambda>_. True) fork s \<noteq> None"
proof -
  have "(\<forall>k. fork k \<noteq> Child_Exec) \<longrightarrow> ok = (\<lambda>_. True) \<longrightarrow>
      (\<forall>s :: shell. instream s = inp \<and> forks s = k \<longrightarrow> pshy_shell (\<lambda>_. True) fork s \<noteq> None)"
    if "mem_shell ok fork inp k evs h = Some y" for ok inp k
  proof (rule mem_shell.raw_induct [of "\<lambda>ok fork inp k evs h y. (\<forall>k. fork k \<noteq> Child_Exec) \<longrightarrow> ok = (\<lambda>_. True) \<longrightarrow>
      (\<forall>s :: shell. instream s = inp \<and> forks s = k \<longrightarrow> pshy_shell (\<lambda>_. True) fork s \<noteq> None)", OF _ that], intro impI allI)
    fix loop ok fork inp k evs h y s
    assume IH: "\<And>ok fork inp k evs h y. loop ok fork inp k evs h = Some y \<Longrightarrow> (\<forall>k. fork k \<noteq> Child_Exec) \<longrightarrow> ok = (\<lambda>_. True) \<longrightarrow>
        (\<forall>s :: shell. instream s = inp \<and> forks s = k \<longrightarrow> pshy_shell (\<lambda>_. True) fork s \<noteq> None)"
      and body: "(case mem_pass ok fork inp k h of Inl e \<Rightarrow> Some (Inl e)
        | Inr (is_done, rest, k, es, h) \<Rightarrow>
            if is_done then Some (Inr (rest, k, evs @ es, h)) else loop ok fork rest k (evs @ es) h) = Some y"
      and child: "\<forall>k. fork k \<noteq> Child_Exec" and ok: "ok = (\<lambda>_. True)" and s: "instream (s :: shell) = inp \<and> forks s = k"
    note pass = pass_refines [OF child, of s h] and step = shell_step [of "\<lambda>_. True" fork s]
    show "pshy_shell (\<lambda>_. True) fork s \<noteq> None"
    proof (cases "shell_pass (\<lambda>_. True) fork s")
      case (Inr ds)
      obtain d s1 where ds: "ds = (d, s1)" by fastforce
      obtain es h1 where h1: "mem_pass (\<lambda>_. True) fork inp k h = Inr (d, instream s1, forks s1, es, h1)"
        using pass Inr ds s by auto
      show ?thesis
      proof (cases d)
        case False
        then have "loop ok fork (instream s1) (forks s1) (evs @ es) h1 = Some y" using body h1 by (simp add: ok)
        then have "pshy_shell (\<lambda>_. True) fork s1 \<noteq> None" using IH child ok by blast
        then show ?thesis using step Inr ds False by simp
      qed (use step Inr ds in simp)
    qed (use step in simp)
  qed
  then show ?thesis using assms by blast
qed

text \<open>C23:
  With memory enough, the shell with its blocks is the shell: on every input, and whatever the forks come to short of a
  child that becomes another program, it returns, faults or goes on for ever exactly as the model without a heap does,
  having done the same - the same prompts, the same commands run with the same words, the same changes of directory, the
  same input read and the same number of forks. It then has as many blocks left as that model counts, one per empty
  line, every other block freed once and not read afterwards.\<close>

theorem session_memory:
  assumes "\<forall>k. fork k \<noteq> Child_Exec"
  shows "case pshy_shell (\<lambda>_. True) fork (start inp) of
      None \<Rightarrow> mem_shell (\<lambda>_. True) fork inp 0 [] no_blocks = None
    | Some (Inl e) \<Rightarrow> mem_shell (\<lambda>_. True) fork inp 0 [] no_blocks = Some (Inl e)
    | Some (Inr s) \<Rightarrow> \<exists>h. mem_shell (\<lambda>_. True) fork inp 0 [] no_blocks = Some (Inr (instream s, forks s, events s, h))
        \<and> size (live_blocks h) = leaked s"
proof (cases "pshy_shell (\<lambda>_. True) fork (start inp)")
  case None
  then show ?thesis
    using session_diverges [of fork "start inp" "[]" no_blocks] assms
    by (cases "mem_shell (\<lambda>_. True) fork inp 0 [] no_blocks") (auto simp: start_def)
next
  case (Some y)
  then show ?thesis
    using session_ends [OF Some assms, of no_blocks]
    by (cases y) (auto simp: same_end_def start_def no_blocks_def live_blocks_def)
qed

theorem session_memory_witness:
  "\<exists>k h. mem_shell (\<lambda>_. True) (\<lambda>_. Parent) (lines [''ls -l'', [], ''cd /tmp''] @ ''exit'' @ NL # []) 0 [] no_blocks =
      Some (Inr ([], k, [Prompt, Run [Some ''ls'', Some ''-l'', None], Prompt, Prompt, Chdir (Some ''/tmp''), Prompt], h))
    \<and> size (live_blocks h) = 1"
proof -
  have pl: "plain ''ls -l''" "plain ''cd /tmp''" "plain ''exit''" "plain []"
    by (simp_all add: plain_def NUL_def NL_def)
  have w: "words_of ''ls -l'' = [''ls'', ''-l'']" "words_of ''cd /tmp'' = [''cd'', ''/tmp'']" "words_of ''exit'' = [''exit'']"
    by (simp_all add: words_of_def)
  let ?inp = "lines [''ls -l'', [], ''cd /tmp''] @ ''exit'' @ NL # []"
  obtain s where s: "pshy_shell (\<lambda>_. True) (\<lambda>_. Parent) (start ?inp) = Some (Inr s)"
    "events s = [Prompt, Run [Some ''ls'', Some ''-l'', None], Prompt, Prompt, Chdir (Some ''/tmp''), Prompt]"
    "instream s = []" "leaked s = 1"
    using session_run [of "[''ls -l'', [], ''cd /tmp'']" "''exit''" "[]"] pl w
    by (auto simp: goes_on_def exits_def command_def)
  show ?thesis using session_memory [of "\<lambda>_. Parent" ?inp] s by auto
qed

end
