(* ===== verification/Psyseg_Memory.thy ===== *)
theory Psyseg_Memory
  imports Psyseg Heap_Blocks
begin

text \<open>
  The memory of the program of \<^verbatim>\<open>libpsyseg/main.c\<close>: every option is copied to a block, and the session frees the
  last copy of each. The library itself only maps files.
\<close>

record mem_session =
  ms_filename :: "nat option"
  ms_sig_filename :: "nat option"
  ms_tags :: "nat option"

definition no_session :: mem_session where
  "no_session = \<lparr>ms_filename = None, ms_sig_filename = None, ms_tags = None\<rparr>"

fun mem_seg_options ::
  "(nat \<Rightarrow> bool) \<Rightarrow> (char \<times> string option) list \<Rightarrow> mem_session \<times> heap \<Rightarrow> (mem_session \<times> heap) result"
where
  "mem_seg_options ok [] sh = Inr sh"
| "mem_seg_options ok ((opt, optarg) # oas) (sess, h) =
     (if opt \<in> {CHR ''t'', CHR ''s'', CHR ''f''} then
        rbind (deref optarg) (\<lambda>_.
          let (p, h) = alloc ok h in
          mem_seg_options ok oas
            (if opt = CHR ''t'' then sess\<lparr>ms_tags := p\<rparr>
             else if opt = CHR ''s'' then sess\<lparr>ms_sig_filename := p\<rparr>
             else sess\<lparr>ms_filename := p\<rparr>, h))
      else Inl Exited)"

definition session_free :: "mem_session \<Rightarrow> heap \<Rightarrow> heap result" where
  "session_free sess h =
     rbind (if ms_filename sess \<noteq> None then free_block (ms_filename sess) h else Inr h) (\<lambda>h.
     rbind (if ms_sig_filename sess \<noteq> None then free_block (ms_sig_filename sess) h else Inr h) (\<lambda>h.
       if ms_tags sess \<noteq> None then free_block (ms_tags sess) h else Inr h))"

definition mem_seg_main :: "(nat \<Rightarrow> bool) \<Rightarrow> string list \<Rightarrow> heap \<Rightarrow> heap result" where
  "mem_seg_main ok args h =
     (let (oas, operands) = getopt ''t:s:f:'' [] args in
      rbind (mem_seg_options ok oas (no_session, h)) (\<lambda>(sess, h).
        if length operands = length args then Inl Exited
        else if ms_filename sess \<noteq> None \<and> ms_sig_filename sess \<noteq> None \<and> ms_tags sess \<noteq> None then session_free sess h
        else Inl Exited))"

definition session_owned :: "mem_session \<Rightarrow> nat option list" where
  "session_owned sess = [ms_filename sess, ms_sig_filename sess, ms_tags sess]"

interpretation session: block_owner session_owned "\<lambda>_. True" session_free
proof
  fix sess :: mem_session and h
  have skip: "(if p \<noteq> None then free_block p h else Inr h) = free_block p h" for p h by (simp add: free_block_def)
  have "(\<lambda>h. rbind (free_block p h) (free_block q)) = free_all [p, q]" for p q
    by (rule ext) (simp only: free_all.simps(2) [of p] free_all_single)
  then show "session_free sess h = free_all (session_owned sess) h"
    unfolding session_free_def skip session_owned_def by simp
qed

text \<open>The blocks that are live after the options: those of the session, and one for every option that was given again.\<close>

lemma seg_options_live:
  "mem_seg_options (\<lambda>_. True) oas (sess, h) = Inr (sess', h') \<Longrightarrow> live_blocks h = base + ptrs (session_owned sess) \<Longrightarrow>
   \<exists>leak. live_blocks h' = base + leak + ptrs (session_owned sess')
     \<and> size leak + size (ptrs (session_owned sess')) = length oas + size (ptrs (session_owned sess))"
proof (induction oas arbitrary: sess h base)
  case Nil
  then show ?case by (auto intro: exI [of _ "{#}"])
next
  case (Cons oa oas)
  obtain opt optarg where oa: "oa = (opt, optarg)" by fastforce
  obtain p h1 where p: "alloc (\<lambda>_. True) h = (Some p, h1)" by (auto simp: alloc_def Let_def)
  define sess1 where "sess1 = (if opt = CHR ''t'' then sess\<lparr>ms_tags := Some p\<rparr>
      else if opt = CHR ''s'' then sess\<lparr>ms_sig_filename := Some p\<rparr> else sess\<lparr>ms_filename := Some p\<rparr>)"
  define old where "old = (if opt = CHR ''t'' then ms_tags sess else if opt = CHR ''s'' then ms_sig_filename sess else ms_filename sess)"
  have rest: "mem_seg_options (\<lambda>_. True) oas (sess1, h1) = Inr (sess', h')"
    using Cons.prems(1) by (auto simp: oa p sess1_def fault_simps split: if_splits)
  have owned: "ptrs (session_owned sess1) + ptr old = ptrs (session_owned sess) + {#p#}"
    by (auto simp: sess1_def old_def session_owned_def add_ac)
  then have "live_blocks h1 = (base + ptr old) + ptrs (session_owned sess1)"
    using alloc_live [OF p] Cons.prems(2) by (simp add: add_ac)
  from Cons.IH [OF rest this] obtain leak where leak: "live_blocks h' = (base + ptr old) + leak + ptrs (session_owned sess')"
    "size leak + size (ptrs (session_owned sess')) = length oas + size (ptrs (session_owned sess1))" by blast
  have "size (ptrs (session_owned sess1)) + size (ptr old) = size (ptrs (session_owned sess)) + 1"
    using arg_cong [OF owned, of size] by simp
  then show ?case using leak by (intro exI [of _ "ptr old + leak"]) (simp add: add_ac)
qed

text \<open>A run that gets to its end has freed every block it allocated when each option is given once, and all but one per
  repetition otherwise.\<close>

lemma seg_main_frees:
  assumes "mem_seg_main (\<lambda>_. True) args h = Inr h'"
  shows "\<exists>leak. live_blocks h' = live_blocks h + leak \<and> size leak + 3 = length (fst (getopt ''t:s:f:'' [] args))"
proof -
  obtain oas operands where g: "getopt ''t:s:f:'' [] args = (oas, operands)" by fastforce
  obtain sess h1 where o: "mem_seg_options (\<lambda>_. True) oas (no_session, h) = Inr (sess, h1)"
    and set: "ms_filename sess \<noteq> None" "ms_sig_filename sess \<noteq> None" "ms_tags sess \<noteq> None"
    and f: "session_free sess h1 = Inr h'"
    using assms by (auto simp: mem_seg_main_def g fault_simps split: if_splits)
  have "ptrs (session_owned no_session) = {#}" by (simp add: session_owned_def no_session_def)
  moreover have three: "size (ptrs (session_owned sess)) = 3" using set by (auto simp: session_owned_def)
  ultimately obtain leak where leak: "live_blocks h1 = live_blocks h + leak + ptrs (session_owned sess)" "size leak + 3 = length oas"
    using seg_options_live [OF o, of "live_blocks h"] by auto
  then show ?thesis using session.release_owned [where s = sess and h = h1 and base = "live_blocks h + leak"] f g by auto
qed

lemma seg_main_leaks:
  "mem_seg_main (\<lambda>_. True) [''-f'', ''a'', ''-f'', ''b'', ''-s'', ''c'', ''-t'', ''d''] no_blocks = Inr \<lparr>blocks = [0], next_block = 4\<rparr>"
  by code_simp

end
