(* ===== verification/Program_Output.thy ===== *)
theory Program_Output
  imports Mdm Tinydb Net Socktk Packetdraw Grimoire
begin

text \<open>
  What is left of the programs around their models: the texts that \<^verbatim>\<open>misc/udp.cc\<close>, \<^verbatim>\<open>misc/socktk.c\<close>, \<^verbatim>\<open>grimoire/shm.c\<close>
  and the usage messages print, the modules of \<^verbatim>\<open>mdm/\<close>, the entry point of \<^verbatim>\<open>tinydb/\<close>, and the socket of
  \<^verbatim>\<open>packetdraw/client.c\<close>.
\<close>

definition NL :: string where
  "NL = [CHR 0x0A]"

section \<open>UDP message program\<close>

text \<open>\<open>GetHost\<close> and \<open>GetPort\<close> of the client; a failed \<open>sendto\<close> is no error, so nothing is printed of it.\<close>

definition sending_text :: "string \<Rightarrow> UDPClient \<Rightarrow> string" where
  "sending_text message client =
     ''sending message ['' @ message @ ''] to '' @ UDPClient.host client @ '':''
       @ print_nat 10 (unat (UDPClient.port client)) @ NL"

definition ReceiveAndPrint :: "int + bytes \<Rightarrow> UDPClient \<Rightarrow> string" where
  "ReceiveAndPrint got client =
     (let bs = fst (Receive got client)
      in ''waiting for a reply... '' @ NL @ ''received '' @ print_nat 10 (length bs) @ ''bytes'' @ NL
           @ map char_of_byte bs @ NL)"

text \<open>The standard output of \<open>main\<close>, next to what \<open>udp_main\<close> says is sent.\<close>

definition udp_output :: "(bytes \<Rightarrow> int) \<Rightarrow> int \<Rightarrow> bytes \<Rightarrow> int + bytes \<Rightarrow> string list \<Rightarrow> string result" where
  "udp_output sendto fd heap got args =
     rbind (udp_options (fst (getopt ''h:p:s:r'' [] args)) mk_builder) (\<lambda>builder.
       if args = [] then Inr []
       else
         let client = mk_client fd (sb_host builder) (of_nat (sb_port_i builder)) in
         rmap (\<lambda>_. sending_text (sb_message builder) client @ (if sb_wait builder then ReceiveAndPrint got client else []))
           (SendMessageTo sendto heap (sb_message builder) client))"

text \<open>The reply is printed with everything in its buffer, zeros included; an error is printed as a reply of no bytes.\<close>

lemma reply_printed:
  "ReceiveAndPrint (Inl e) c = ''waiting for a reply... '' @ NL @ ''received 0bytes'' @ NL @ NL"
  "length d \<le> kMaxUDPSize \<Longrightarrow> ReceiveAndPrint (Inr d) c =
     ''waiting for a reply... '' @ NL @ ''received 508bytes'' @ NL
       @ map char_of_byte d @ replicate (kMaxUDPSize - length d) CHR 0x00 @ NL"
proof -
  have n: "print_nat 10 0 = ''0''" "print_nat 10 508 = ''508''" by code_simp+
  have z: "char_of_byte 0 = CHR 0x00" by code_simp
  show "ReceiveAndPrint (Inl e) c = ''waiting for a reply... '' @ NL @ ''received 0bytes'' @ NL @ NL"
    by (simp add: ReceiveAndPrint_def Receive_def n)
  show "ReceiveAndPrint (Inr d) c =
     ''waiting for a reply... '' @ NL @ ''received 508bytes'' @ NL
       @ map char_of_byte d @ replicate (kMaxUDPSize - length d) CHR 0x00 @ NL" if "length d \<le> kMaxUDPSize"
  proof -
    have "map char_of_byte (udp_buffer d) = map char_of_byte d @ replicate (kMaxUDPSize - length d) CHR 0x00"
      using that by (simp add: udp_buffer_def z map_replicate)
    moreover have "print_nat 10 kMaxUDPSize = ''508''" using n by (simp add: kMaxUDPSize_def)
    ultimately show ?thesis by (simp add: ReceiveAndPrint_def Receive_def)
  qed
qed

text \<open>The program says that it sends to the default port whatever port it is given.\<close>

lemma udp_says_default:
  assumes "507 \<le> length heap"
  shows "udp_output sendto fd heap got [''-p'', p, ''-s'', m] = Inr (''sending message ['' @ m @ ''] to 127.0.0.1:9995'' @ NL)"
proof -
  have "kMaxUDPSize \<le> length (map byte_of m @ [0] @ heap)" using assms by (simp add: kMaxUDPSize_def)
  note reads = SendMessageTo_reads [OF this]
  have "map digit_char [9, 9, 9, 5] = ''9995''" by code_simp
  then have "print_nat 10 9995 = ''9995''" by (simp add: print_nat_def to_digits.simps)
  moreover have "getopt ''h:p:s:r'' [] [''-p'', p, ''-s'', m] = ([(CHR ''p'', Some p), (CHR ''s'', Some m)], [])"
    by (simp add: getopt_words)
  ultimately show ?thesis
    by (simp add: udp_output_def udp_option_def Port_ignores)
      (simp add: mk_builder_def mk_client_def reads sending_text_def)
qed

section \<open>Socket tool\<close>

text \<open>The host is printed up to its zero and the port as an \<open>int\<close>.\<close>

definition session_print_info :: "Socktk.session \<Rightarrow> string" where
  "session_print_info sess =
     ''---- session info --------'' @ NL
     @ ''  host           : '' @ map char_of_byte (takeWhile (\<lambda>b. b \<noteq> 0) (Socktk.session.host sess)) @ NL
     @ ''  port           : '' @ print_int (sint (Socktk.session.port sess)) @ NL
     @ ''  exec_peer_reset: '' @ print_nat 10 (if exec_peer_reset sess then 1 else 0) @ NL
     @ ''--------------------------'' @ NL"

definition socktk_usage :: "string \<Rightarrow> string" where
  "socktk_usage name =
     ''usage: '' @ NL @ ''  '' @ name @ NL @ ''required configs:'' @ NL @ ''  --host <hostname string>'' @ NL
     @ ''  --port <port number>'' @ NL @ ''scenarios:'' @ NL @ ''  --reset-peer (emulate tcp reset by peer)'' @ NL"

text \<open>The standard output of \<open>main\<close>: the usage, or the session with the complaint about what it lacks.\<close>

definition socktk_output :: "string \<Rightarrow> string list \<Rightarrow> string result" where
  "socktk_output name args =
     rmap (\<lambda>r. case r of
         Inl status \<Rightarrow> socktk_usage name
       | Inr sess \<Rightarrow>
           session_print_info sess
           @ (if Socktk.session.host sess ! 0 = 0 \<or> Socktk.session.port sess = 0
              then ''you need to set values for '' @ [CHR 0x27] @ ''--host'' @ [CHR 0x27] @ '', and ''
                @ [CHR 0x27] @ ''--port'' @ [CHR 0x27] @ NL
              else []))
       (session_options (getopt_long args) new_session)"

lemma no_options_said: "socktk_output name [] = Inr (''---- session info --------'' @ NL @ ''  host           : '' @ NL
     @ ''  port           : 0'' @ NL @ ''  exec_peer_reset: 0'' @ NL @ ''--------------------------'' @ NL
     @ ''you need to set values for '' @ [CHR 0x27] @ ''--host'' @ [CHR 0x27] @ '', and ''
     @ [CHR 0x27] @ ''--port'' @ [CHR 0x27] @ NL)"
proof -
  have "print_int 0 = ''0''" "print_nat 10 0 = ''0''" by code_simp+
  then show ?thesis
    by (simp add: socktk_output_def session_print_info_def new_session_def)
qed

section \<open>Shared memory\<close>

definition shm_usage :: "string \<Rightarrow> string" where
  "shm_usage name = ''usage: '' @ NL @ ''  '' @ name @ '' [-p shmpath] [-i interactive] [-h help]'' @ NL"

definition print_resource :: "bytes \<Rightarrow> string" where
  "print_resource out = ''res:'' @ NL @ ''  data: '' @ map char_of_byte out"

definition shm_output :: "bytes list \<Rightarrow> string" where
  "shm_output outs = concat (map print_resource outs)"

section \<open>Drawing client\<close>

definition draw_usage :: "string \<Rightarrow> string" where
  "draw_usage name =
     ''usage:'' @ NL @ name @ NL
     @ ''  -s        servermode'' @ NL @ ''  -h <host> host to listen/connect to'' @ NL
     @ ''  -p <port> port to listen/connect to'' @ NL @ NL
     @ ''  -c                   clientmode (use with below options)'' @ NL
     @ ''  -t <pixel|line|rect> shape type'' @ NL
     @ ''  -x <pos>             x coordinate (int)'' @ NL @ ''  -y <pos>             y coordinate (int)'' @ NL
     @ ''  -w <pos>             width (int)'' @ NL @ ''  -k <pos>             height (int)'' @ NL
     @ ''  -r <0-255>           red color value'' @ NL @ ''  -g <0-255>           green color value'' @ NL
     @ ''  -b <0-255>           blue color value'' @ NL"

text \<open>\<open>send_buffer\<close>: the return value and the descriptors that are still open after it.\<close>

definition send_buffer :: "int \<Rightarrow> (bytes \<Rightarrow> int) \<Rightarrow> bytes \<Rightarrow> int \<times> int list" where
  "send_buffer socket_result sendto buffer =
     (if socket_result = - 1 then (- 1, [])
      else if sendto buffer = - 1 then (- 1, [socket_result])
      else (0, []))"

definition client_send_message :: "int \<Rightarrow> (bytes \<Rightarrow> int) \<Rightarrow> client \<Rightarrow> int \<times> int list" where
  "client_send_message socket_result sendto c =
     (case fst (send_message True c) of
        None \<Rightarrow> (- 1, [])
      | Some buffer \<Rightarrow> if fst (send_buffer socket_result sendto buffer) = - 1
                       then (- 1, snd (send_buffer socket_result sendto buffer)) else (0, snd (send_buffer socket_result sendto buffer)))"

text \<open>The return value is that of the other model, and a failed \<open>sendto\<close> leaves the socket open.\<close>

lemma client_send_status:
  "fst (client_send_message fd sendto c) =
     snd (send_message (fd \<noteq> - 1 \<and> (\<forall>b. fst (send_message True c) = Some b \<longrightarrow> sendto b \<noteq> - 1)) c)"
  by (cases "cl_type c") (auto simp: client_send_message_def send_buffer_def send_message_def Let_def)

lemma socket_left_open:
  "fd \<noteq> - 1 \<Longrightarrow> cl_type c \<noteq> Unknown \<Longrightarrow> client_send_message fd (\<lambda>_. - 1) c = (- 1, [fd])"
  by (cases "cl_type c") (auto simp: client_send_message_def send_buffer_def send_message_def Let_def)

section \<open>Usage of the calendar and the file service\<close>

definition psycal_usage :: "string \<Rightarrow> string" where
  "psycal_usage name =
     ''usage:'' @ NL @ ''  '' @ name @ NL @ ''  -d daemonize'' @ NL @ ''  -f foreground'' @ NL @ ''  -s server mode'' @ NL
     @ ''  -p port '' @ NL @ ''  -t add event'' @ NL @ ''  -x dump psycal file contents (debug)'' @ NL"

definition fttl_usage :: string where
  "fttl_usage = ''usage: '' @ NL @ ''  fttl [-s] [-c <message>]'' @ NL"

definition psyseg_usage :: string where
  "psyseg_usage = ''psyseg -s <sigfile> -t <tags,...> -f <file>'' @ NL"

section \<open>Modules\<close>

record State =
  st_token :: token
  st_terminal :: bool
  st_wildcard :: bool

text \<open>The parser keeps the tokens; the header tokens its constructor makes end with their block.\<close>

record Parser =
  parser_tokens :: "token list"
  transitions :: "(State \<times> State) list"

definition mk_parser :: "token list \<Rightarrow> Parser" where
  "mk_parser tokens = \<lparr>parser_tokens = tokens, transitions = []\<rparr>"

definition ProcessRules :: "Parser \<Rightarrow> Parser" where
  "ProcessRules p = p"

record SymbolTable =
  headers :: "string list"
  errors :: "string list"

definition mk_symbol_table :: SymbolTable where
  "mk_symbol_table = \<lparr>headers = [], errors = []\<rparr>"

definition HasErrors :: "SymbolTable \<Rightarrow> bool" where
  "HasErrors t \<longleftrightarrow> errors t \<noteq> []"

record Module =
  module_filename :: string
  module_tokens :: "token list"
  module_symbols :: SymbolTable

definition mk_module :: "string \<Rightarrow> token list \<Rightarrow> Module" where
  "mk_module filename tokens = \<lparr>module_filename = filename, module_tokens = tokens, module_symbols = mk_symbol_table\<rparr>"

fun print_tokens :: "token list \<Rightarrow> string result" where
  "print_tokens [] = Inr []"
| "print_tokens (t # ts) = rbind (print_token t) (\<lambda>s. rmap (\<lambda>rest. s @ '' '' @ rest) (print_tokens ts))"

definition print_module :: "Module \<Rightarrow> string result" where
  "print_module m =
     rmap (\<lambda>ts. module_filename m @ '' '' @ print_nat 10 (length (module_tokens m)) @ NL @ ''   '' @ ts)
       (print_tokens (module_tokens m))"

definition PrintTokenList :: "token list \<Rightarrow> string result" where
  "PrintTokenList tokens = rmap (\<lambda>ts. ts @ NL) (print_tokens tokens)"

lemma print_tokens_lexed: "list_all lexed ts \<Longrightarrow> \<exists>out. print_tokens ts = Inr out"
  by (induction ts) (auto dest!: lexed_prints)

text \<open>Modules of lexed tokens can be printed.\<close>

lemma print_module_lexed: "\<exists>out. print_module (mk_module filename (Process s)) = Inr out"
  using print_tokens_lexed [OF Process_lexed, of s] by (auto simp: print_module_def mk_module_def)

section \<open>The entry point of the database\<close>

definition tinydb_main :: "string \<Rightarrow> (string list \<times> int) result" where
  "tinydb_main stdin = rmap (\<lambda>out. (out, 0)) (Tinydb.Run stdin)"

text \<open>The read loop never faults, whatever is typed, since a word is not empty.\<close>

lemma words_nonempty: "[] \<notin> set (words s)"
proof (induction s rule: words.induct)
  case (1 s)
  show ?case
    using 1 hd_dropWhile [of is_space s]
    by (cases "dropWhile is_space s") (auto simp: words.simps [of s] Let_def)
qed

lemma Run_loop_total: "[] \<notin> set ws \<Longrightarrow> \<exists>out. Run_loop ws = Inr out"
proof (induction ws)
  case (Cons w ws)
  moreover have "\<exists>out. ProcessInput w = Inr out"
    using Cons.prems by (cases w) (auto simp: ProcessInput_def GetCommandType_def noexcept_def)
  ultimately show ?case by auto
qed simp

lemma tinydb_main_ends: "\<exists>out. tinydb_main stdin = Inr (''tinydb> '' # out, 0)"
  using Run_loop_total [OF words_nonempty, of stdin] by (auto simp: tinydb_main_def Tinydb.Run_def)

definition tvmi_main :: "string \<times> int" where
  "tvmi_main = (''tvmi'' @ NL, 0)"

end
