(* ===== verification/Spec2Isabelle.thy ===== *)
theory Spec2Isabelle
  imports Prelude Codec Psycal_Client Brainfuck Bigint Hashes Md5 Uuid Tvm_Compile Mdm Gamejam Tinydb
    Fttl Granulator Lbos Packetdraw Pshy Net Dsu Psyseg Socktk Grimoire Packetdraw_Threads Multivector Tilemap
    Algorithm Repository_Tests Entry_Points Examples Pshy_Memory Psyseg_Memory
    Program_Output
begin

text \<open>
  A verification development for the repository \<^verbatim>\<open>sprawl\<close>, a collection of small C++ programs and
  the libraries they share. Every directory is a program of its own; they meet in \<^verbatim>\<open>common/\<close>, whose
  byte codec the calendar's packets use and whose granulator the threaded sum uses.

  \<^bold>\<open>Conventions.\<close> \<open>Prelude\<close> holds what all theories share. An unsigned C++ integer is a word of its width
  (\<open>u8\<close>, \<open>u16\<close>, \<open>u32\<close>, \<open>u64\<close>), a string is a list of characters, a byte buffer a list of \<open>u8\<close>. What ends a
  run (a read outside a buffer, a null pointer, a variable that is gone, the front of an empty container, a division by
  zero, a signed overflow, an exception, \<open>std::terminate\<close>, \<open>abort\<close>, \<open>exit\<close>) is a value of the type \<open>fault\<close>, and a
  function that may end so returns a \<open>result\<close>, the left side of a sum. Undefined behaviour is a fault, so a
  theorem that a result is \<open>Inr\<close> says that there is none, with two exceptions, where correct use of the program meets the
  over-read every time: \<open>std::string(buffer)\<close> on a buffer without a final zero (\<open>read_event\<close> in \<open>Psycal\<close>,
  \<^verbatim>\<open>psycal/dump.cc\<close>), and the 508 bytes sent from a shorter vector (\<open>SendEvent\<close> in \<open>Psycal_Client\<close>,
  \<^verbatim>\<open>psycal/session.cc\<close>). There the bytes that can be read behind the buffer are an argument \<open>heap\<close> of the definition, the theorems hold for
  every content of it, and a read beyond it is a fault. With an empty \<open>heap\<close>, the strict reading of the language, a
  message without a zero byte faults when it is read back (lemma \<open>dump_strict\<close>), and one of less than 492 bytes when it is
  sent (lemma \<open>send_strict\<close>).
  State is passed and returned as a record whose
  fields are the members of the class. The scanning and printing of numbers of the C++ library
  (\<open>strtoull\<close>, \<open>stoull\<close>, \<open>operator>>\<close>, \<open>setw\<close>) is written out once, with the lemmas that relate them.

  \<^bold>\<open>Theories.\<close>

  \<^item> \<open>Codec\<close>: \<^verbatim>\<open>common/codec.cc\<close>. The locales \<open>u64_layout\<close> and \<open>u64_reader\<close> state what the packet and
    file formats need of a layout of 64-bit numbers; the codec and the host's own byte order are
    instances.
  \<^item> \<open>Psycal\<close>: \<^verbatim>\<open>psycal/event.cc\<close>, \<^verbatim>\<open>message.cc\<close> and \<^verbatim>\<open>dump.cc\<close>, the events and their two formats, with the
    time zone functions of the host as arguments. \<open>Psycal_Server\<close>: \<^verbatim>\<open>psycal/server.cc\<close>, whose threads each run
    their body under one lock, so that an execution is a sequence of bodies, with the pushes of \<open>Start\<close>, which take no
    lock, between them. The outcome of every write to a file is an argument, and the theorem says what a failed one
    loses. The locale \<open>priority_queue\<close> is the contract of the queue of events.
  \<^item> \<open>Net\<close>: \<^verbatim>\<open>net/udp.cc\<close> and \<^verbatim>\<open>misc/udp.cc\<close>, datagrams to and from a socket whose answers are arguments, and \<open>getopt\<close>.
    The locale \<open>counting_handler\<close> is the contract of a handler that a listener calls.
  \<^item> \<open>Psycal_Client\<close>: the rest of \<^verbatim>\<open>psycal/\<close> with \<^verbatim>\<open>common/xdg.cc\<close> and \<^verbatim>\<open>common/filesystem.cc\<close>. Time stamps with the
    scanning of \<open>strptime\<close>, the options, and an event on its way from the command line into the server's queue; the
    handler of the server is the instance of \<open>counting_handler\<close>.
  \<^item> \<open>Brainfuck\<close>: \<^verbatim>\<open>brainfuck/brainfuck.cc\<close>, the interpreter with its scans for brackets, a structured
    language, and the refinement between them. Loops that may not end carry fuel, and the theorems say
    that enough fuel gives the result.
  \<^item> \<open>Bigint\<close>, \<open>Hashes\<close>, \<open>Md5\<close>: \<^verbatim>\<open>ds/\<close>. Digit-wise addition against integers, the checksums against closed forms
    (locale \<open>poly_hash\<close>), and the unrolled MD5 rounds against the table-driven algorithm of RFC 1321.
  \<^item> \<open>Uuid\<close>: \<^verbatim>\<open>uuid/uuid.cc\<close> and \<^verbatim>\<open>mac.cc\<close>. Parsing and printing in both directions, the comparison, addresses.
  \<^item> \<open>Tvm\<close>, \<open>Tvm_Proofs\<close>, \<open>Tvm_Compile\<close>: \<^verbatim>\<open>tvm/tvm.cc\<close>, an assembler for the LC-3. The tokenizer against source
    lines, the termination of the parser, and whole programs against the instruction formats. The lines of
    \<open>source_text\<close> have words, strings and colons with blanks and commas anywhere between them; only two words need one
    between them, and a comment a blank before it. A word may end at the newline or at the end of the file.
  \<^item> \<open>Mdm\<close>: \<^verbatim>\<open>mdm/\<close>, a lexer for Markdown and its writer.
  \<^item> \<open>Gamejam\<close>: \<^verbatim>\<open>gamejam/\<close>, collision of rectangles and the level format.
  \<^item> \<open>Tinydb\<close>: \<^verbatim>\<open>tinydb/\<close>, the schema (locale \<open>catalog\<close>), the statement parser, the read loop and the pages.
  \<^item> \<open>Fttl\<close>: \<^verbatim>\<open>fttl/fttl.cc\<close>, a service that removes files at their deadline. The interleavings of its two threads
    refine an ordered list of deadlines, whichever removals the host refuses; the client's datagram is read back by the
    server.
  \<^item> \<open>Granulator\<close>: \<^verbatim>\<open>common/granulator.cc\<close> with the threaded sum of \<^verbatim>\<open>misc/multi-vector.cc\<close>, and
    \<^verbatim>\<open>common/hexdump.cc\<close>. \<open>Multivector\<close>: the program of the threaded sum, with its options and every order in
    which the threads add to the total. Whether a thread reads its range before the loop's variable is gone is an
    argument, and a late one is a fault.
  \<^item> \<open>Lbos\<close>: \<^verbatim>\<open>misc/lbos.cc\<close>, semaphores and counters under every interleaving of atomic operations. The
    locales \<open>preserved\<close> and \<open>live\<close> carry an invariant, and progress under it, from steps to runs; each
    of the three programs that work is an instance.
  \<^item> \<open>Packetdraw\<close>: \<^verbatim>\<open>packetdraw/\<close>, in C, commands that become packed messages, the server that collects shapes, and the
    window that draws them. \<open>Packetdraw_Threads\<close>: the server's thread and the one that draws share the
    messages without a lock; a step is one write of a field or one drawing of a message. With it the calls that open
    and close the window.
  \<^item> \<open>Pshy\<close>: \<^verbatim>\<open>pshy/\<close>, in C, a shell: its growing buffer with the memory behind it, the tokens of a line, and the loop
    over lines, which may not end.
  \<^item> \<open>Heap_Blocks\<close>: the blocks that the C programs allocate, for any answers of the allocator; a read or a free of a block that
    is not live is a fault. The locale \<open>block_owner\<close> is the contract of a structure with its release.
    \<open>Pshy_Memory\<close>: the shell over these blocks, safe whenever memory runs out, and with memory enough in agreement
    with \<open>Pshy\<close> on every input, event by event. \<open>Psyseg_Memory\<close>: the options of \<^verbatim>\<open>libpsyseg/main.c\<close>.
  \<^item> \<open>Dsu\<close>: \<^verbatim>\<open>misc/dsu.cc\<close>, the status line. It reads the file of events that the calendar's server writes, so its theorem
    goes from the server's queue to the line.
  \<^item> \<open>Psyseg\<close>: \<^verbatim>\<open>libpsyseg/\<close>, in C, a file behind a header with a signature and tags; the numbers have the layout of the
    calendar's files. \<open>Socktk\<close>: \<^verbatim>\<open>misc/socktk.c\<close>, long options and the target of a connection. \<open>Grimoire\<close>: \<^verbatim>\<open>grimoire/shm.c\<close>
    and \<^verbatim>\<open>grimoire/mmap.cc\<close>, lines in shared memory and the dump of a mapped file.
  \<^item> \<open>Tilemap\<close>: \<^verbatim>\<open>gamejam/examples_sdl/render_tilemap_example.cc\<close> as the sequence of its calls to SDL; which textures
    are live is computed from the calls, where the end of the window and of SDL ends them.
  \<^item> \<open>Entry_Points\<close>: \<^verbatim>\<open>brainfuck/main.cc\<close>, \<^verbatim>\<open>tvm/tvmc.cc\<close> and \<^verbatim>\<open>mdm/main.cc\<close>, from the command line and a map of
    files to the output, the status and the files written, and what the assembler prints of a program.
  \<^item> \<open>Algorithm\<close>: \<^verbatim>\<open>misc/algorithm.cc\<close>, exercises over the library's algorithms. \<open>Examples\<close>: \<^verbatim>\<open>grimoire/fmemopen.c\<close>,
    \<^verbatim>\<open>dup.c\<close>, \<^verbatim>\<open>signal.c\<close> and \<^verbatim>\<open>net/example.cc\<close>.
  \<^item> \<open>Program_Output\<close>: what is left of programs whose models are elsewhere, the texts they print, the objects of
    \<^verbatim>\<open>mdm/\<close> around the lexer, the entry point of \<^verbatim>\<open>tinydb/\<close> and the socket of the drawing client.
  \<^item> \<open>Library_Tests\<close>, \<open>Program_Tests\<close>, \<open>Language_Tests\<close>, \<open>System_Tests\<close>: tests of the repository, each the conjunction of
    its expectations over the models; \<open>Repository_Tests\<close> puts together those that hold on any host. They check the models
    on the inputs the repository tries, evaluated by \<open>code_simp\<close> with numbers as binary targets, and are no properties of
    the programs. Runs of the interpreter there get 100 passes, more than the longest of them makes. Left out are the
    digests of long messages and the program of half a million passes, which take too long to evaluate, and the tests
    that are disabled or compare addresses.

  \<^bold>\<open>What the lemmas show.\<close> For the codecs, formats, parsers and printers, round trips; for the algorithms,
  agreement with a reference definition at the width of the code; for the stateful services, invariants and
  refinement of an abstract specification under every order of their steps; and for the inputs
  the code does not guard against, exactly where it faults, throws, or does not return.

  \<^bold>\<open>Not modelled.\<close> The calls to the X11 library, and of SDL and the system anything but their results; \<^verbatim>\<open>grimoire/mmap.c\<close>,
  which does not compile; messages on the error stream; the scripts of \<^verbatim>\<open>tools\<close> and the compiler macros of
  \<^verbatim>\<open>common/intrinsics.h\<close>. The
  threads of \<open>Lbos\<close> are sequentially consistent: the relaxed memory order of two operations is not
  distinguished. The unlocked accesses of \<open>Packetdraw_Threads\<close> are races, undefined in C; they are modelled as whole
  writes of single fields in the order of the code, and no other outcome of such a race. A push of \<open>Start\<close> in \<open>Psycal_Server\<close> that overlaps another thread's body is left out as
  well.
\<close>

end
